(* ===== verification/Prelude.thy ===== *)
theory Prelude
  imports Main "HOL-Library.Word" "HOL-Library.Finite_Map"
begin

unbundle bit_operations_syntax

text \<open>
  The part of Rust and of its standard library that every component of the development uses.

  \<^item> Machine integers: \<open>u64\<close>, and the byte arrays the sources compare and order as big-endian
    numbers (account addresses, hashes, keys and signatures). The release profile of the
    workspace (\<open>src/Cargo.toml\<close>) does not enable overflow checks, so an unchecked \<open>+\<close>, \<open>-\<close> or
    \<open>*\<close> of the source is the wrapping word operation here.
  \<^item> \<open>Result\<close>: a datatype with a third constructor \<open>Panic\<close> for \<open>panic!\<close>, \<open>assert!\<close>, \<open>expect\<close>
    and \<open>unreachable!\<close>, which no caller can catch. \<open>rbind\<close> is the \<open>?\<close> operator.
  \<^item> Methods that take \<open>&mut self\<close> and return a \<open>Result\<close>: functions from the state to a result
    and a new state, sequenced by \<open>sbind\<close>. What was written before an early return stays written.
  \<^item> \<open>BTreeMap\<close> and \<open>HashMap\<close>: finite maps; iteration over a \<open>BTreeMap\<close> is in key order.
\<close>

section \<open>Machine integers and byte arrays\<close>

type_synonym u64 = "64 word"
type_synonym HashValue = "256 word"
type_synonym AccountAddress = "128 word"
type_synonym Ed25519PublicKey = "256 word"
type_synonym Ed25519PrivateKey = "256 word"
type_synonym Ed25519Signature = "512 word"

named_theorems u64_simps \<open>reading bounded machine arithmetic as arithmetic on nat\<close>
named_theorems map_eval \<open>evaluating operations on concrete maps\<close>
named_theorems result_elims \<open>inversion of successful computations\<close>

definition checked_add :: "u64 \<Rightarrow> u64 \<Rightarrow> u64 option" where
  "checked_add a b = (if unat a + unat b < 2 ^ 64 then Some (a + b) else None)"

definition checked_sub :: "u64 \<Rightarrow> u64 \<Rightarrow> u64 option" where
  "checked_sub a b = (if b \<le> a then Some (a - b) else None)"

definition saturating_add :: "u64 \<Rightarrow> u64 \<Rightarrow> u64" where
  "saturating_add a b = (if unat a + unat b < 2 ^ 64 then a + b else - 1)"

lemma unat_plus_u64: "unat a + unat b < 2 ^ 64 \<Longrightarrow> unat (a + b :: u64) = unat a + unat b"
  by (simp add: unat_word_ariths)

lemma checked_add_Some [u64_simps]:
  "checked_add a b = Some c \<longleftrightarrow> unat c = unat a + unat b"
proof
  assume "checked_add a b = Some c"
  then show "unat c = unat a + unat b"
    by (auto simp: checked_add_def unat_plus_u64 split: if_splits)
next
  assume c: "unat c = unat a + unat b"
  have "unat c < 2 ^ 64" using unsigned_less [of c, where ?'a = nat] by simp
  with c have lt: "unat a + unat b < 2 ^ 64" by simp
  then have "unat (a + b) = unat c" using c by (simp add: unat_plus_u64)
  with lt show "checked_add a b = Some c" by (simp add: checked_add_def word_unat_eq_iff)
qed

lemma checked_add_None [u64_simps]: "checked_add a b = None \<longleftrightarrow> 2 ^ 64 \<le> unat a + unat b"
  by (auto simp: checked_add_def)

lemma checked_sub_Some [u64_simps]:
  "checked_sub a b = Some c \<longleftrightarrow> unat a = unat b + unat c"
proof
  assume "checked_sub a b = Some c"
  then have "b \<le> a" and "c = a - b" by (auto simp: checked_sub_def split: if_splits)
  then show "unat a = unat b + unat c" by (simp add: unat_sub word_le_nat_alt)
next
  assume h: "unat a = unat b + unat c"
  then have le: "b \<le> a" by (simp add: word_le_nat_alt)
  then have "unat (a - b) = unat c" using h by (simp add: unat_sub)
  with le show "checked_sub a b = Some c" by (simp add: checked_sub_def word_unat_eq_iff)
qed

text \<open>\<open>count_ones\<close>, \<open>trailing_zeros\<close> and \<open>leading_zeros\<close> of \<open>u64\<close>.\<close>

definition count_ones :: "u64 \<Rightarrow> nat" where
  "count_ones w = length (filter (\<lambda>i. bit w i) [0..<64])"

definition trailing_zeros :: "u64 \<Rightarrow> nat" where
  "trailing_zeros w = length (takeWhile (\<lambda>i. \<not> bit w i) [0..<64])"

definition leading_zeros :: "u64 \<Rightarrow> nat" where
  "leading_zeros w = length (takeWhile (\<lambda>i. \<not> bit w i) (rev [0..<64]))"

text \<open>Their recursion on the lowest bit.\<close>

lemma upt_64_Cons: "[0..<64] = 0 # map Suc [0..<63]"
  by (simp add: map_Suc_upt upt_conv_Cons)

lemma takeWhile_upt_extend:
  "\<not> P n \<or> (\<exists>i<n. \<not> P i) \<Longrightarrow> takeWhile P [0..<n] = takeWhile P [0..<Suc n]"
  by (auto simp: takeWhile_append)

lemma bit_63_drop_bit: "\<not> bit (drop_bit (Suc 0) w :: u64) 63"
  using bit_imp_le_length [of w 64] by (auto simp: bit_drop_bit_eq)

lemma bit_drop_bit_Suc: "bit (drop_bit (Suc 0) w :: u64) i \<longleftrightarrow> bit w (Suc i)"
  by (simp add: bit_drop_bit_eq)

lemma trailing_ones_rec:
  "trailing_zeros (NOT w) = (if bit w 0 then Suc (trailing_zeros (NOT (drop_bit (Suc 0) w))) else 0)"
proof -
  have *: "trailing_zeros (NOT v) = length (takeWhile (bit v) [0..<64])" for v :: u64
  proof -
    have "takeWhile (\<lambda>i. \<not> bit (NOT v) i) [0..<64] = takeWhile (bit v) [0..<64]"
      by (rule takeWhile_cong) (auto simp: bit_not_iff_eq)
    then show ?thesis by (simp add: trailing_zeros_def)
  qed
  have "takeWhile (bit (drop_bit (Suc 0) w)) [0..<63] = takeWhile (bit (drop_bit (Suc 0) w)) [0..<Suc 63]"
    by (rule takeWhile_upt_extend) (simp add: bit_63_drop_bit)
  then have "length (takeWhile (bit w \<circ> Suc) [0..<63]) = length (takeWhile (bit (drop_bit (Suc 0) w)) [0..<64])"
    by (simp add: comp_def bit_drop_bit_Suc [symmetric] del: upt_Suc)
  then show ?thesis
    unfolding * upt_64_Cons by (simp add: takeWhile_map)
qed

lemma trailing_zeros_rec:
  "w \<noteq> 0 \<Longrightarrow> trailing_zeros w = (if bit w 0 then 0 else Suc (trailing_zeros (drop_bit (Suc 0) w)))"
proof -
  assume w: "w \<noteq> 0"
  show ?thesis
  proof (cases "bit w 0")
    case False
    from w obtain i where i: "bit w i" by (auto simp: bit_eq_iff)
    with False have "i \<noteq> 0" by (intro notI) simp
    then obtain j where j: "i = Suc j" by (cases i) auto
    have "i < 64" using bit_imp_le_length [OF i] by simp
    then have "takeWhile (\<lambda>i. \<not> bit (drop_bit (Suc 0) w) i) [0..<63] =
        takeWhile (\<lambda>i. \<not> bit (drop_bit (Suc 0) w) i) [0..<Suc 63]"
      using i j by (intro takeWhile_upt_extend) (auto simp: bit_drop_bit_Suc)
    then have "length (takeWhile ((\<lambda>i. \<not> bit w i) \<circ> Suc) [0..<63]) =
        length (takeWhile (\<lambda>i. \<not> bit (drop_bit (Suc 0) w) i) [0..<64])"
      by (simp add: comp_def bit_drop_bit_Suc [symmetric] del: upt_Suc)
    with False show ?thesis
      unfolding trailing_zeros_def upt_64_Cons by (simp add: takeWhile_map)
  qed (simp add: trailing_zeros_def upt_64_Cons)
qed

lemma count_ones_rec: "count_ones w = (if bit w 0 then 1 else 0) + count_ones (drop_bit (Suc 0) w)"
proof -
  have "filter (bit (drop_bit (Suc 0) w)) [0..<64] = filter (bit (drop_bit (Suc 0) w)) [0..<63]"
    using bit_63_drop_bit [of w] upt_Suc [of 0 63] by simp
  moreover have "length (filter (bit w \<circ> Suc) [0..<63]) = length (filter (bit (drop_bit (Suc 0) w)) [0..<63])"
    by (simp add: comp_def bit_drop_bit_Suc [symmetric])
  ultimately show ?thesis
    unfolding count_ones_def upt_64_Cons by (simp add: filter_map)
qed

lemma count_ones_0 [simp]: "count_ones 0 = 0"
  by (simp add: count_ones_def)

lemma bit_0_of_nat: "bit (of_nat n :: u64) 0 \<longleftrightarrow> odd n"
  by (simp add: bit_0)

lemma drop_bit_Suc_of_nat: "n < 2 ^ 64 \<Longrightarrow> drop_bit (Suc 0) (of_nat n :: u64) = of_nat (n div 2)"
  by (simp add: word_unat_eq_iff drop_bit_eq_div unat_div unsigned_of_nat take_bit_nat_eq_self)

section \<open>Results\<close>

datatype ('a, 'e) result = Ok 'a | Err 'e | Panic

primrec rbind :: "('a, 'e) result \<Rightarrow> ('a \<Rightarrow> ('b, 'e) result) \<Rightarrow> ('b, 'e) result" where
  "rbind (Ok a) f = f a"
| "rbind (Err e) f = Err e"
| "rbind Panic f = Panic"

primrec map_err :: "('e \<Rightarrow> 'f) \<Rightarrow> ('a, 'e) result \<Rightarrow> ('a, 'f) result" where
  "map_err g (Ok a) = Ok a"
| "map_err g (Err e) = Err (g e)"
| "map_err g Panic = Panic"

primrec map_ok :: "('a \<Rightarrow> 'b) \<Rightarrow> ('a, 'e) result \<Rightarrow> ('b, 'e) result" where
  "map_ok g (Ok a) = Ok (g a)"
| "map_ok g (Err e) = Err e"
| "map_ok g Panic = Panic"

primrec is_ok :: "('a, 'e) result \<Rightarrow> bool" where
  "is_ok (Ok a) = True"
| "is_ok (Err e) = False"
| "is_ok Panic = False"

primrec ok_or :: "'a option \<Rightarrow> 'e \<Rightarrow> ('a, 'e) result" where
  "ok_or (Some a) e = Ok a"
| "ok_or None e = Err e"

primrec expect :: "'a option \<Rightarrow> ('a, 'e) result" where
  "expect (Some a) = Ok a"
| "expect None = Panic"

definition ensure :: "bool \<Rightarrow> 'e \<Rightarrow> (unit, 'e) result" where
  "ensure b e = (if b then Ok () else Err e)"

definition assert_panic :: "bool \<Rightarrow> (unit, 'e) result" where
  "assert_panic b = (if b then Ok () else Panic)"

text \<open>A \<open>for\<close> loop over a sequence whose body may return early with an error.\<close>

fun rfold :: "('s \<Rightarrow> 'a \<Rightarrow> ('s, 'e) result) \<Rightarrow> 's \<Rightarrow> 'a list \<Rightarrow> ('s, 'e) result" where
  "rfold f s [] = Ok s"
| "rfold f s (x # xs) = rbind (f s x) (\<lambda>s'. rfold f s' xs)"

definition for_each :: "('a \<Rightarrow> (unit, 'e) result) \<Rightarrow> 'a list \<Rightarrow> (unit, 'e) result" where
  "for_each f xs = rfold (\<lambda>_ x. f x) () xs"

lemma rbind_Ok [simp, result_elims]: "rbind m f = Ok b \<longleftrightarrow> (\<exists>a. m = Ok a \<and> f a = Ok b)"
  by (cases m) auto

lemma map_err_Ok [simp, result_elims]: "map_err g m = Ok a \<longleftrightarrow> m = Ok a"
  by (cases m) auto

lemma map_ok_Ok [simp, result_elims]: "map_ok g m = Ok b \<longleftrightarrow> (\<exists>a. m = Ok a \<and> b = g a)"
  by (cases m) auto

lemma ok_or_Ok [simp, result_elims]: "ok_or m e = Ok a \<longleftrightarrow> m = Some a"
  by (cases m) auto

lemma expect_Ok [simp, result_elims]: "expect m = Ok a \<longleftrightarrow> m = Some a"
  by (cases m) auto

lemma ensure_Ok [simp, result_elims]: "ensure b e = Ok u \<longleftrightarrow> b"
  by (simp add: ensure_def)

lemma assert_panic_Ok [simp, result_elims]: "assert_panic b = Ok u \<longleftrightarrow> b"
  by (simp add: assert_panic_def)

lemma ok_or_not_Panic [simp]: "ok_or m e \<noteq> Panic"
  by (cases m) auto

lemma ensure_not_Panic [simp]: "ensure b e \<noteq> Panic"
  by (simp add: ensure_def)

lemma map_err_Panic [simp]: "map_err g m = Panic \<longleftrightarrow> m = Panic"
  by (cases m) auto

lemma rbind_Panic: "rbind m f = Panic \<longleftrightarrow> m = Panic \<or> (\<exists>a. m = Ok a \<and> f a = Panic)"
  by (cases m) auto

lemma is_ok_iff: "is_ok m \<longleftrightarrow> (\<exists>a. m = Ok a)"
  by (cases m) auto

lemma rfold_append: "rfold f s (xs @ ys) = rbind (rfold f s xs) (\<lambda>s'. rfold f s' ys)"
proof (induction xs arbitrary: s)
  case Nil
  then show ?case by simp
next
  case (Cons x xs)
  then show ?case by (cases "f s x") auto
qed

lemma for_each_simps [simp]:
  "for_each f [] = Ok ()"
  "for_each f (x # xs) = rbind (f x) (\<lambda>_. for_each f xs)"
  by (simp_all add: for_each_def)

lemma for_each_Ok [simp, result_elims]:
  "for_each f xs = Ok u \<longleftrightarrow> (\<forall>x \<in> set xs. f x = Ok ())"
  by (induction xs) auto

section \<open>State and early return\<close>

type_synonym ('s, 'a, 'e) st_result = "'s \<Rightarrow> ('a, 'e) result \<times> 's"

definition sret :: "'a \<Rightarrow> ('s, 'a, 'e) st_result" where
  "sret a = (\<lambda>s. (Ok a, s))"

definition sthrow :: "'e \<Rightarrow> ('s, 'a, 'e) st_result" where
  "sthrow e = (\<lambda>s. (Err e, s))"

definition sbind ::
  "('s, 'a, 'e) st_result \<Rightarrow> ('a \<Rightarrow> ('s, 'b, 'e) st_result) \<Rightarrow> ('s, 'b, 'e) st_result" where
  "sbind m f = (\<lambda>s. case m s of
      (Ok a, s') \<Rightarrow> f a s'
    | (Err e, s') \<Rightarrow> (Err e, s')
    | (Panic, s') \<Rightarrow> (Panic, s'))"

text \<open>A method that takes \<open>&self\<close> only reads the state.\<close>

definition sread :: "('s \<Rightarrow> ('a, 'e) result) \<Rightarrow> ('s, 'a, 'e) st_result" where
  "sread f = (\<lambda>s. (f s, s))"

definition slift :: "('a, 'e) result \<Rightarrow> ('s, 'a, 'e) st_result" where
  "slift r = (\<lambda>s. (r, s))"

definition smodify :: "('s \<Rightarrow> 's) \<Rightarrow> ('s, unit, 'e) st_result" where
  "smodify g = (\<lambda>s. (Ok (), g s))"

text \<open>Running a method of a field: the field's new value is written back whatever the result.\<close>

definition sfield ::
  "('s \<Rightarrow> 't) \<Rightarrow> ('t \<Rightarrow> 's \<Rightarrow> 's) \<Rightarrow> ('t, 'a, 'e) st_result \<Rightarrow> ('s, 'a, 'e) st_result" where
  "sfield get_f put_f m = (\<lambda>s. case m (get_f s) of (r, t) \<Rightarrow> (r, put_f t s))"

definition smap_err :: "('e \<Rightarrow> 'f) \<Rightarrow> ('s, 'a, 'e) st_result \<Rightarrow> ('s, 'a, 'f) st_result" where
  "smap_err g m = (\<lambda>s. case m s of (r, s') \<Rightarrow> (map_err g r, s'))"

lemma sret_iff [simp]: "sret a s = (r, s') \<longleftrightarrow> r = Ok a \<and> s' = s"
  by (auto simp: sret_def)

lemma sthrow_iff [simp]: "sthrow e s = (r, s') \<longleftrightarrow> r = Err e \<and> s' = s"
  by (auto simp: sthrow_def)

lemma sread_iff [simp]: "sread f s = (r, s') \<longleftrightarrow> r = f s \<and> s' = s"
  by (auto simp: sread_def)

lemma slift_iff [simp]: "slift m s = (r, s') \<longleftrightarrow> r = m \<and> s' = s"
  by (auto simp: slift_def)

lemma smodify_iff [simp]: "smodify g s = (r, s') \<longleftrightarrow> r = Ok () \<and> s' = g s"
  by (auto simp: smodify_def)

lemma sbind_Ok [simp, result_elims]:
  "sbind m f s = (Ok b, s'') \<longleftrightarrow> (\<exists>a s'. m s = (Ok a, s') \<and> f a s' = (Ok b, s''))"
  by (auto simp: sbind_def split: prod.splits result.splits)

lemma sfield_iff: "sfield get_f put_f m s = (r, s') \<longleftrightarrow>
    (\<exists>t. m (get_f s) = (r, t) \<and> s' = put_f t s)"
  by (auto simp: sfield_def split: prod.splits)

section \<open>Partial correctness of stateful methods\<close>

text \<open>
  \<open>striple P m Q E\<close>: from a state in \<open>P\<close> the method ends in \<open>Q\<close> of its value when it returns
  \<open>Ok\<close>, and in \<open>E\<close> when it returns an error or panics. The rules below are one per way of
  building a method; together they are a verification condition generator.
\<close>

definition striple ::
  "('s \<Rightarrow> bool) \<Rightarrow> ('s, 'a, 'e) st_result \<Rightarrow> ('a \<Rightarrow> 's \<Rightarrow> bool) \<Rightarrow> ('s \<Rightarrow> bool) \<Rightarrow> bool" where
  "striple P m Q E \<longleftrightarrow> (\<forall>s. P s \<longrightarrow> (case m s of
      (Ok a, s') \<Rightarrow> Q a s'
    | (Err e, s') \<Rightarrow> E s'
    | (Panic, s') \<Rightarrow> E s'))"

lemma stripleI:
  assumes "\<And>s r s'. P s \<Longrightarrow> m s = (r, s') \<Longrightarrow> (case r of Ok a \<Rightarrow> Q a s' | _ \<Rightarrow> E s')"
  shows "striple P m Q E"
  unfolding striple_def
proof (intro allI impI)
  fix s
  assume "P s"
  obtain r s' where "m s = (r, s')" by fastforce
  with assms [OF \<open>P s\<close> this] show "case m s of (Ok a, s') \<Rightarrow> Q a s'
      | (Err e, s') \<Rightarrow> E s' | (Panic, s') \<Rightarrow> E s'"
    by (auto split: result.splits)
qed

lemma stripleD_Ok: "striple P m Q E \<Longrightarrow> P s \<Longrightarrow> m s = (Ok a, s') \<Longrightarrow> Q a s'"
  by (auto simp: striple_def)

lemma stripleD_inv:
  assumes "striple P m (\<lambda>_. E) E" and "P s" and "m s = (r, s')"
  shows "E s'"
  using assms by (cases r) (auto simp: striple_def)

lemma striple_conseq:
  assumes "striple P' m Q' E'"
    and "\<And>s. P s \<Longrightarrow> P' s" and "\<And>a s. Q' a s \<Longrightarrow> Q a s" and "\<And>s. E' s \<Longrightarrow> E s"
  shows "striple P m Q E"
  using assms by (fastforce simp: striple_def split: prod.splits result.splits)

lemma striple_ret: "striple (Q a) (sret a) Q E"
  by (simp add: striple_def sret_def)

lemma striple_throw: "striple E (sthrow e) Q E"
  by (simp add: striple_def sthrow_def)

lemma striple_bind:
  assumes "striple P m R E" and "\<And>a. striple (R a) (f a) Q E"
  shows "striple P (sbind m f) Q E"
  unfolding striple_def
proof (intro allI impI)
  fix s
  assume p: "P s"
  obtain r s' where m: "m s = (r, s')" by fastforce
  show "case sbind m f s of (Ok a, s') \<Rightarrow> Q a s' | (Err e, s') \<Rightarrow> E s' | (Panic, s') \<Rightarrow> E s'"
  proof (cases r)
    case (Ok a)
    with assms(1) p m have "R a s'" by (auto simp: striple_def)
    with assms(2) [of a] m Ok show ?thesis by (auto simp: striple_def sbind_def)
  next
    case (Err e)
    with assms(1) p m show ?thesis by (auto simp: striple_def sbind_def)
  next
    case Panic
    with assms(1) p m show ?thesis by (auto simp: striple_def sbind_def)
  qed
qed

lemma striple_read:
  "striple (\<lambda>s. case f s of Ok a \<Rightarrow> Q a s | _ \<Rightarrow> E s) (sread f) Q E"
  by (auto simp: striple_def sread_def split: result.splits)

lemma striple_lift:
  "striple (\<lambda>s. case r of Ok a \<Rightarrow> Q a s | _ \<Rightarrow> E s) (slift r) Q E"
  by (auto simp: striple_def slift_def split: result.splits)

lemma striple_modify: "striple (\<lambda>s. Q () (g s)) (smodify g) Q E"
  by (simp add: striple_def smodify_def)

text \<open>
  The same rules for a state predicate \<open>P\<close> that the steps of a method keep: what a step learns is
  handed on as a fact, and the predicate stays as it is.
\<close>

named_theorems vcg \<open>rules that decompose a triple whose precondition is kept\<close>

lemma striple_keep_read [vcg]:
  assumes "\<And>a s. P s \<Longrightarrow> g s = Ok a \<Longrightarrow> striple P (f a) Q E" and "\<And>s. P s \<Longrightarrow> E s"
  shows "striple P (sbind (sread g) f) Q E"
  using assms by (fastforce simp: striple_def sbind_def sread_def split: result.splits)

lemma striple_keep_lift [vcg]:
  assumes "\<And>a. g = Ok a \<Longrightarrow> striple P (f a) Q E" and "\<And>s. P s \<Longrightarrow> E s"
  shows "striple P (sbind (slift g) f) Q E"
  using assms by (fastforce simp: striple_def sbind_def slift_def split: result.splits)

lemma striple_keep_ret [vcg]: "striple P (f a) Q E \<Longrightarrow> striple P (sbind (sret a) f) Q E"
  by (simp add: striple_def sbind_def sret_def)

lemma striple_keep_throw [vcg]: "(\<And>s. P s \<Longrightarrow> E s) \<Longrightarrow> striple P (sbind (sthrow e) f) Q E"
  by (simp add: striple_def sbind_def sthrow_def)

lemma striple_keep_if [vcg]:
  assumes "b \<Longrightarrow> striple P (sbind m f) Q E" and "\<not> b \<Longrightarrow> striple P (sbind m' f) Q E"
  shows "striple P (sbind (if b then m else m') f) Q E"
  using assms by simp

lemma sbind_assoc: "sbind (sbind m f) g = sbind m (\<lambda>a. sbind (f a) g)"
  by (rule ext) (auto simp: sbind_def split: prod.splits result.splits)

lemma striple_keep_assoc [vcg]:
  "striple P (sbind m (\<lambda>a. sbind (f a) g)) Q E \<Longrightarrow> striple P (sbind (sbind m f) g) Q E"
  by (simp add: sbind_assoc)

lemma striple_end_read [vcg]:
  assumes "\<And>a s. P s \<Longrightarrow> g s = Ok a \<Longrightarrow> Q a s" and "\<And>s. P s \<Longrightarrow> E s"
  shows "striple P (sread g) Q E"
  using assms by (auto simp: striple_def sread_def split: result.splits)

lemma striple_end_ret [vcg]: "(\<And>s. P s \<Longrightarrow> Q a s) \<Longrightarrow> striple P (sret a) Q E"
  by (simp add: striple_def sret_def)

lemma striple_end_if [vcg]:
  assumes "b \<Longrightarrow> striple P m Q E" and "\<not> b \<Longrightarrow> striple P m' Q E"
  shows "striple P (if b then m else m') Q E"
  using assms by simp

lemma striple_end_case_option [vcg]:
  assumes "x = None \<Longrightarrow> striple P m Q E" and "\<And>a. x = Some a \<Longrightarrow> striple P (m' a) Q E"
  shows "striple P (case x of None \<Rightarrow> m | Some a \<Rightarrow> m' a) Q E"
  using assms by (cases x) auto

lemma striple_end_case_prod [vcg]:
  assumes "\<And>a b. x = (a, b) \<Longrightarrow> striple P (f a b) Q E"
  shows "striple P (case x of (a, b) \<Rightarrow> f a b) Q E"
  using assms by (cases x) auto

lemma set_map_filter_iff: "y \<in> set (List.map_filter f xs) \<longleftrightarrow> (\<exists>x \<in> set xs. f x = Some y)"
  by (induction xs) (auto simp: map_filter_simps split: option.splits)

section \<open>Maps\<close>

text \<open>
  \<open>BTreeMap\<close> iterates in increasing key order; the orders of addresses and hashes (arrays of
  bytes, compared lexicographically) are the numerical orders of the words.
\<close>

definition btree_keys :: "('k::linorder, 'v) fmap \<Rightarrow> 'k list" where
  "btree_keys m = sorted_list_of_fset (fmdom m)"

definition btree_iter :: "('k::linorder, 'v) fmap \<Rightarrow> ('k \<times> 'v) list" where
  "btree_iter m = map (\<lambda>k. (k, the (fmlookup m k))) (btree_keys m)"

definition btree_values :: "('k::linorder, 'v) fmap \<Rightarrow> 'v list" where
  "btree_values m = map snd (btree_iter m)"

definition btree_len :: "('k, 'v) fmap \<Rightarrow> nat" where
  "btree_len m = fcard (fmdom m)"

text \<open>\<open>entry(k).or_insert(v)\<close>: keep what is there.\<close>

definition or_insert :: "'k \<Rightarrow> 'v \<Rightarrow> ('k, 'v) fmap \<Rightarrow> ('k, 'v) fmap" where
  "or_insert k v m = (case fmlookup m k of Some _ \<Rightarrow> m | None \<Rightarrow> fmupd k v m)"

lemma set_btree_keys [simp]: "set (btree_keys m) = fset (fmdom m)"
  by (simp add: btree_keys_def)

lemma distinct_btree_keys [simp]: "distinct (btree_keys m)"
  by (simp add: btree_keys_def sorted_list_of_fset.rep_eq)

lemma sorted_btree_keys [simp]: "sorted (btree_keys m)"
  by (simp add: btree_keys_def sorted_list_of_fset.rep_eq)

lemma set_btree_iter: "(k, v) \<in> set (btree_iter m) \<longleftrightarrow> fmlookup m k = Some v"
  by (auto simp: btree_iter_def fmlookup_dom_iff)

lemma ball_btree_iter [simp]:
  "(\<forall>x \<in> set (btree_iter m). P x) \<longleftrightarrow> (\<forall>k v. fmlookup m k = Some v \<longrightarrow> P (k, v))"
  by (metis set_btree_iter surj_pair)

lemma map_fst_btree_iter [simp]: "map fst (btree_iter m) = btree_keys m"
  by (simp add: btree_iter_def comp_def)

lemma length_btree_keys [simp]: "length (btree_keys m) = btree_len m"
  by (metis btree_len_def distinct_btree_keys distinct_card fcard.rep_eq set_btree_keys)

lemma fmlookup_or_insert [simp]:
  "fmlookup (or_insert k v m) x =
     (if x = k then (case fmlookup m k of Some w \<Rightarrow> Some w | None \<Rightarrow> Some v) else fmlookup m x)"
  by (auto simp: or_insert_def split: option.splits)

lemma fmdom_or_insert [simp]: "fmdom (or_insert k v m) = finsert k (fmdom m)"
  by (auto simp: or_insert_def fmlookup_dom_iff intro: fset_eqI split: option.splits)

text \<open>Evaluation of a map built by insertions.\<close>

lemma btree_keys_empty [map_eval]: "btree_keys fmempty = []"
  by (simp add: btree_keys_def sorted_list_of_fset.rep_eq)

lemma btree_keys_fmupd [map_eval]:
  "btree_keys (fmupd k v m) = (if k |\<in>| fmdom m then btree_keys m else insort k (btree_keys m))"
proof (cases "k |\<in>| fmdom m")
  case True
  then have "insert k (fset (fmdom m)) = fset (fmdom m)" by auto
  with True show ?thesis by (simp add: btree_keys_def sorted_list_of_fset.rep_eq)
qed (simp add: btree_keys_def sorted_list_of_fset.rep_eq)

declare btree_iter_def [map_eval] btree_values_def [map_eval] btree_len_def [map_eval]
  fcard_finsert_if [map_eval] fcard_fempty [map_eval]

end
