(* ===== verification/ValidatorVerifier.thy ===== *)
theory ValidatorVerifier
  imports Prelude
begin

text \<open>
  \<open>src/types/src/validator_verifier.rs\<close>: the validator set of an epoch, its quorum threshold
  and the verification of single, aggregated and batched signatures.

  The signature scheme (ed25519 over the BCS bytes of a struct) is third-party code: a record
  \<open>sig_scheme\<close> of functions, one for every message type, handed to the operations that use it.
  The interface of the theory is the locale \<open>quorum_family\<close>: what the rest of consensus needs to
  know of quorums (any two meet in more than a third of the voting power), interpreted on
  \<open>ValidatorVerifier\<close> at the end.
\<close>

section \<open>Errors\<close>

datatype VerifyError =
    UnknownAuthor
  | TooLittleVotingPower u64 u64
  | TooManySignatures nat nat
  | InvalidSignature
  | InconsistentBlockInfo

text \<open>
  \<open>anyhow::Error\<close>: the literal of the source's \<open>ensure!\<close>, \<open>bail!\<close> or \<open>format_err!\<close>, or the error
  it was built from. The values interpolated into a message are left out.
\<close>

datatype anyhow = Msg string | FromVerifyError VerifyError | WithContext string anyhow

section \<open>Signatures\<close>

record 'm sig_scheme =
  verify_struct_signature :: "Ed25519PublicKey \<Rightarrow> 'm \<Rightarrow> Ed25519Signature \<Rightarrow> bool"
  batch_verify :: "'m \<Rightarrow> (Ed25519PublicKey \<times> Ed25519Signature) list \<Rightarrow> bool"
  sign_struct :: "Ed25519PrivateKey \<Rightarrow> 'm \<Rightarrow> Ed25519Signature"

text \<open>
  What a caller may rely on: a batch verifies only when each of its signatures does
  (documented in \<open>src/crypto/crypto/src/traits.rs\<close>, \<open>Signature::batch_verify\<close>).
\<close>

definition batch_sound :: "'m sig_scheme \<Rightarrow> bool" where
  "batch_sound S \<longleftrightarrow> (\<forall>m kss pk sg. batch_verify S m kss \<longrightarrow>
     (pk, sg) \<in> set kss \<longrightarrow> verify_struct_signature S pk m sg)"

section \<open>The verifier\<close>

record ValidatorConsensusInfo =
  vci_public_key :: Ed25519PublicKey
  vci_voting_power :: u64

record ValidatorVerifier =
  vv_address_to_validator_info :: "(AccountAddress, ValidatorConsensusInfo) fmap"
  vv_quorum_voting_power :: u64
  vv_total_voting_power :: u64

text \<open>\<open>None\<close> is the panic of the \<open>expect\<close> on an overflowing sum.\<close>

fun checked_sum :: "u64 \<Rightarrow> ValidatorConsensusInfo list \<Rightarrow> u64 option" where
  "checked_sum acc [] = Some acc"
| "checked_sum acc (x # xs) =
     (case checked_add acc (vci_voting_power x) of
        Some acc' \<Rightarrow> checked_sum acc' xs
      | None \<Rightarrow> None)"

definition sum_voting_power ::
  "(AccountAddress, ValidatorConsensusInfo) fmap \<Rightarrow> u64 option" where
  "sum_voting_power m = checked_sum 0 (btree_values m)"

definition vv_new ::
  "(AccountAddress, ValidatorConsensusInfo) fmap \<Rightarrow> ValidatorVerifier option" where
  "vv_new m =
     (case sum_voting_power m of
        None \<Rightarrow> None
      | Some total_voting_power \<Rightarrow>
          let quorum = (if fmdom m = {||} then 0 else total_voting_power * 2 div 3 + 1)
          in Some \<lparr>vv_address_to_validator_info = m,
                   vv_quorum_voting_power = quorum,
                   vv_total_voting_power = total_voting_power\<rparr>)"

definition vv_new_single :: "AccountAddress \<Rightarrow> Ed25519PublicKey \<Rightarrow> ValidatorVerifier option" where
  "vv_new_single author public_key =
     vv_new (fmupd author \<lparr>vci_public_key = public_key, vci_voting_power = 1\<rparr> fmempty)"

definition get_public_key :: "ValidatorVerifier \<Rightarrow> AccountAddress \<Rightarrow> Ed25519PublicKey option" where
  "get_public_key vv author =
     map_option vci_public_key (fmlookup (vv_address_to_validator_info vv) author)"

definition get_voting_power :: "ValidatorVerifier \<Rightarrow> AccountAddress \<Rightarrow> u64 option" where
  "get_voting_power vv author =
     map_option vci_voting_power (fmlookup (vv_address_to_validator_info vv) author)"

definition get_ordered_account_addresses :: "ValidatorVerifier \<Rightarrow> AccountAddress list" where
  "get_ordered_account_addresses vv = btree_keys (vv_address_to_validator_info vv)"

definition vv_len :: "ValidatorVerifier \<Rightarrow> nat" where
  "vv_len vv = btree_len (vv_address_to_validator_info vv)"

definition vv_verify ::
  "'m sig_scheme \<Rightarrow> ValidatorVerifier \<Rightarrow> AccountAddress \<Rightarrow> 'm \<Rightarrow> Ed25519Signature
     \<Rightarrow> (unit, VerifyError) result" where
  "vv_verify S vv author message signature =
     (case get_public_key vv author of
        Some public_key \<Rightarrow>
          if \<not> verify_struct_signature S public_key message signature
          then Err InvalidSignature else Ok ()
      | None \<Rightarrow> Err UnknownAuthor)"

definition check_num_of_signatures ::
  "ValidatorVerifier \<Rightarrow> (AccountAddress, Ed25519Signature) fmap \<Rightarrow> (unit, VerifyError) result" where
  "check_num_of_signatures vv aggregated_signature =
     (let num_of_signatures = btree_len aggregated_signature
      in if num_of_signatures > vv_len vv
         then Err (TooManySignatures num_of_signatures (vv_len vv)) else Ok ())"

definition check_voting_power ::
  "ValidatorVerifier \<Rightarrow> AccountAddress list \<Rightarrow> (unit, VerifyError) result" where
  "check_voting_power vv authors =
     rbind (rfold (\<lambda>aggregated_voting_power account_address.
              case get_voting_power vv account_address of
                Some voting_power \<Rightarrow> Ok (aggregated_voting_power + voting_power)
              | None \<Rightarrow> Err UnknownAuthor) 0 authors)
       (\<lambda>aggregated_voting_power.
          if aggregated_voting_power < vv_quorum_voting_power vv
          then Err (TooLittleVotingPower aggregated_voting_power (vv_quorum_voting_power vv))
          else Ok ())"

definition verify_aggregated_struct_signature ::
  "'m sig_scheme \<Rightarrow> ValidatorVerifier \<Rightarrow> 'm \<Rightarrow> (AccountAddress, Ed25519Signature) fmap
     \<Rightarrow> (unit, VerifyError) result" where
  "verify_aggregated_struct_signature S vv message aggregated_signature =
     rbind (check_num_of_signatures vv aggregated_signature) (\<lambda>_.
     rbind (check_voting_power vv (btree_keys aggregated_signature)) (\<lambda>_.
     for_each (\<lambda>(author, signature). vv_verify S vv author message signature)
       (btree_iter aggregated_signature)))"

definition batch_verify_aggregated_signatures ::
  "'m sig_scheme \<Rightarrow> ValidatorVerifier \<Rightarrow> 'm \<Rightarrow> (AccountAddress, Ed25519Signature) fmap
     \<Rightarrow> (unit, VerifyError) result" where
  "batch_verify_aggregated_signatures S vv message aggregated_signature =
     rbind (check_num_of_signatures vv aggregated_signature) (\<lambda>_.
     rbind (check_voting_power vv (btree_keys aggregated_signature)) (\<lambda>_.
     let keys_and_signatures =
           List.map_filter (\<lambda>(address, signature).
             map_option (\<lambda>pub_key. (pub_key, signature)) (get_public_key vv address))
             (btree_iter aggregated_signature)
     in if \<not> batch_verify S message keys_and_signatures
        then verify_aggregated_struct_signature S vv message aggregated_signature
        else Ok ()))"

section \<open>The validator set a verifier is built from\<close>

text \<open>
  \<open>src/types/src/on_chain_config/validator_set.rs\<close>, \<open>src/types/src/validator_info.rs\<close> and
  \<open>src/types/src/validator_config.rs\<close>. The two network address fields of \<open>ValidatorConfig\<close> are
  byte vectors.
\<close>

record ValidatorConfig =
  vc_consensus_public_key :: Ed25519PublicKey
  vc_validator_network_addresses :: "8 word list"
  vc_fullnode_network_addresses :: "8 word list"

record ValidatorInfo =
  vi_account_address :: AccountAddress
  vi_consensus_voting_power :: u64
  vi_config :: ValidatorConfig
  vi_last_config_update_time :: u64

definition vv_from_validator_set :: "ValidatorInfo list \<Rightarrow> ValidatorVerifier option" where
  "vv_from_validator_set payload =
     vv_new (fold (\<lambda>validator m.
       fmupd (vi_account_address validator)
         \<lparr>vci_public_key = vc_consensus_public_key (vi_config validator),
          vci_voting_power = vi_consensus_voting_power validator\<rparr> m) payload fmempty)"

section \<open>Voting power\<close>

text \<open>The validators, the power of one and of a set of them, on natural numbers.\<close>

definition validators :: "ValidatorVerifier \<Rightarrow> AccountAddress set" where
  "validators vv = fset (fmdom (vv_address_to_validator_info vv))"

definition power_of :: "ValidatorVerifier \<Rightarrow> AccountAddress \<Rightarrow> nat" where
  "power_of vv a = (case get_voting_power vv a of Some p \<Rightarrow> unat p | None \<Rightarrow> 0)"

definition voting_power :: "ValidatorVerifier \<Rightarrow> AccountAddress set \<Rightarrow> nat" where
  "voting_power vv A = (\<Sum>a\<in>A. power_of vv a)"

text \<open>
  A verifier is valid when it is the result of \<open>ValidatorVerifier::new\<close> on a nonempty set whose
  total voting power is at most half of the range of \<open>u64\<close>.
\<close>

definition vv_valid :: "ValidatorVerifier \<Rightarrow> bool" where
  "vv_valid vv \<longleftrightarrow> vv_new (vv_address_to_validator_info vv) = Some vv
     \<and> validators vv \<noteq> {} \<and> unat (vv_total_voting_power vv) < 2 ^ 63"

lemma checked_sum_Some:
  assumes "checked_sum acc xs = Some t"
  shows "unat t = unat acc + sum_list (map (unat \<circ> vci_voting_power) xs)"
  using assms by (induction xs arbitrary: acc) (auto simp: u64_simps split: option.splits)

lemma finite_validators [simp]: "finite (validators vv)"
  by (simp add: validators_def)

lemma set_ordered_addresses: "set (btree_keys (vv_address_to_validator_info vv)) = validators vv"
  by (simp add: validators_def)

lemma sum_voting_power_Some:
  assumes "sum_voting_power (vv_address_to_validator_info vv) = Some t"
  shows "unat t = voting_power vv (validators vv)"
proof -
  let ?m = "vv_address_to_validator_info vv"
  have *: "map (unat \<circ> vci_voting_power) (btree_values ?m) = map (power_of vv) (btree_keys ?m)"
    by (auto simp: btree_values_def btree_iter_def power_of_def get_voting_power_def
        fmlookup_dom_iff)
  from checked_sum_Some [OF assms [unfolded sum_voting_power_def]]
  have "unat t = sum_list (map (power_of vv) (btree_keys ?m))" by (simp add: *)
  also have "\<dots> = sum (power_of vv) (set (btree_keys ?m))"
    by (rule sum_list_distinct_conv_sum_set) simp
  finally show ?thesis by (simp add: voting_power_def validators_def)
qed

lemma quorum_arith:
  assumes "unat (t :: u64) < 2 ^ 63"
  shows "unat (t * 2 div 3 + 1) = unat t * 2 div 3 + 1"
proof -
  have m: "unat (t * 2) = unat t * 2"
    using assms by (simp add: unat_word_ariths)
  have d: "unat (t * 2 div 3) = unat t * 2 div 3"
    by (simp add: unat_div m)
  have "unat t * 2 div 3 + 1 < 2 ^ 64" using assms by simp
  then show ?thesis by (simp add: unat_plus_u64 d)
qed

lemma vv_new_Some:
  "vv_new m = Some vv \<longleftrightarrow> (\<exists>t. sum_voting_power m = Some t \<and> vv_address_to_validator_info vv = m
     \<and> vv_total_voting_power vv = t
     \<and> vv_quorum_voting_power vv = (if fmdom m = {||} then 0 else t * 2 div 3 + 1))"
  by (cases vv) (auto simp: vv_new_def Let_def split: option.splits)

lemma vv_valid_total:
  assumes "vv_valid vv"
  shows "unat (vv_total_voting_power vv) = voting_power vv (validators vv)"
    and "unat (vv_quorum_voting_power vv) = voting_power vv (validators vv) * 2 div 3 + 1"
    and "voting_power vv (validators vv) < 2 ^ 63"
proof -
  let ?m = "vv_address_to_validator_info vv"
  from assms have new: "vv_new ?m = Some vv" and ne: "fmdom ?m \<noteq> {||}"
    by (auto simp: vv_valid_def validators_def)
  from new [unfolded vv_new_Some] ne obtain t where
    t: "sum_voting_power ?m = Some t"
    and tot: "vv_total_voting_power vv = t"
    and q: "vv_quorum_voting_power vv = t * 2 div 3 + 1"
    by auto
  from assms have lt: "unat t < 2 ^ 63" by (simp add: vv_valid_def tot)
  note eq = sum_voting_power_Some [OF t]
  show "unat (vv_total_voting_power vv) = voting_power vv (validators vv)"
    using eq by (simp add: tot)
  show "unat (vv_quorum_voting_power vv) = voting_power vv (validators vv) * 2 div 3 + 1"
    using quorum_arith [OF lt] by (simp only: q eq)
  show "voting_power vv (validators vv) < 2 ^ 63"
    using lt by (simp only: eq)
qed

lemma voting_power_mono: "A \<subseteq> B \<Longrightarrow> finite B \<Longrightarrow> voting_power vv A \<le> voting_power vv B"
  unfolding voting_power_def by (rule sum_mono2) auto

section \<open>Quorums\<close>

text \<open>
  What the consensus components rely on: each validator set has weighted members and a threshold
  above two thirds of the total weight. A set of members is a quorum when its weight reaches the
  threshold.
\<close>

locale quorum_family =
  fixes valid :: "'v \<Rightarrow> bool"
    and members :: "'v \<Rightarrow> 'a set"
    and weight :: "'v \<Rightarrow> 'a \<Rightarrow> nat"
    and threshold :: "'v \<Rightarrow> nat"
  assumes finite_members: "finite (members v)"
    and two_thirds: "valid v \<Longrightarrow> 2 * sum (weight v) (members v) < 3 * threshold v"
begin

definition quorum :: "'v \<Rightarrow> 'a set \<Rightarrow> bool" where
  "quorum v Q \<longleftrightarrow> Q \<subseteq> members v \<and> threshold v \<le> sum (weight v) Q"

lemma quorum_inter:
  assumes v: "valid v" and A: "quorum v A" and B: "quorum v B"
  shows "sum (weight v) (members v) < 3 * sum (weight v) (A \<inter> B)"
proof -
  have fin: "finite A" "finite B"
    using A B finite_members [of v] by (auto simp: quorum_def intro: finite_subset)
  have "sum (weight v) (A \<union> B) + sum (weight v) (A \<inter> B) = sum (weight v) A + sum (weight v) B"
    using fin by (rule sum.union_inter)
  moreover have "sum (weight v) (A \<union> B) \<le> sum (weight v) (members v)"
    using A B finite_members by (intro sum_mono2) (auto simp: quorum_def)
  ultimately show ?thesis
    using A B two_thirds [OF v] by (simp add: quorum_def)
qed

lemma quorum_inter_outside:
  assumes "valid v" and "quorum v A" and "quorum v B"
    and byz: "3 * sum (weight v) (byz \<inter> members v) \<le> sum (weight v) (members v)"
  obtains a where "a \<in> A" and "a \<in> B" and "a \<in> members v" and "a \<notin> byz"
proof -
  have sub: "A \<inter> B \<subseteq> members v" using assms(2) by (auto simp: quorum_def)
  have "\<not> A \<inter> B \<subseteq> byz \<inter> members v"
  proof
    assume "A \<inter> B \<subseteq> byz \<inter> members v"
    then have "sum (weight v) (A \<inter> B) \<le> sum (weight v) (byz \<inter> members v)"
      using finite_members by (intro sum_mono2) auto
    with quorum_inter [OF assms(1-3)] byz show False by simp
  qed
  with sub that show ?thesis by blast
qed

lemma quorum_outside:
  assumes "valid v" and "quorum v A"
    and "3 * sum (weight v) (byz \<inter> members v) \<le> sum (weight v) (members v)"
  obtains a where "a \<in> A" and "a \<in> members v" and "a \<notin> byz"
  using quorum_inter_outside [OF assms(1,2,2,3)] by blast

end

interpretation vq: quorum_family vv_valid validators power_of
  "\<lambda>vv. unat (vv_quorum_voting_power vv)"
proof
  fix vv
  show "finite (validators vv)" by simp
  assume "vv_valid vv"
  from vv_valid_total(2) [OF this]
  show "2 * sum (power_of vv) (validators vv) < 3 * unat (vv_quorum_voting_power vv)"
    by (simp add: voting_power_def)
qed

lemma quorum_iff:
  "vq.quorum vv Q \<longleftrightarrow> Q \<subseteq> validators vv \<and> unat (vv_quorum_voting_power vv) \<le> voting_power vv Q"
  by (simp add: vq.quorum_def voting_power_def)

section \<open>Checking voting power\<close>

lemma get_voting_power_Some: "get_voting_power vv a = Some p \<Longrightarrow> a \<in> validators vv \<and> unat p = power_of vv a"
  by (auto simp: get_voting_power_def validators_def power_of_def fmlookup_dom_iff)

lemma get_voting_power_None: "get_voting_power vv a = None \<longleftrightarrow> a \<notin> validators vv"
  by (auto simp: get_voting_power_def validators_def fmlookup_dom_iff)

definition add_voting_power :: "ValidatorVerifier \<Rightarrow> u64 \<Rightarrow> AccountAddress \<Rightarrow> (u64, VerifyError) result" where
  "add_voting_power vv acc a =
     (case get_voting_power vv a of Some p \<Rightarrow> Ok (acc + p) | None \<Rightarrow> Err UnknownAuthor)"

lemma add_voting_power_unknown:
  "\<not> set as \<subseteq> validators vv \<Longrightarrow> rfold (add_voting_power vv) acc as = Err UnknownAuthor"
  by (induction as arbitrary: acc)
    (auto simp: add_voting_power_def get_voting_power_None dest: get_voting_power_Some
      split: option.splits)

lemma add_voting_power_known:
  assumes "set as \<subseteq> validators vv" and "unat acc + sum_list (map (power_of vv) as) < 2 ^ 64"
  shows "\<exists>t. rfold (add_voting_power vv) acc as = Ok t
    \<and> unat t = unat acc + sum_list (map (power_of vv) as)"
  using assms
proof (induction "as" arbitrary: acc)
  case Nil
  then show ?case by simp
next
  case (Cons a as)
  from Cons.prems(1) obtain p where p: "get_voting_power vv a = Some p"
    using get_voting_power_None [of vv a] by (cases "get_voting_power vv a") auto
  with get_voting_power_Some have pw: "unat p = power_of vv a" by blast
  with Cons.prems(2) have "unat (acc + p) = unat acc + power_of vv a"
    by (simp add: unat_plus_u64)
  with Cons.IH [of "acc + p"] Cons.prems p show ?case
    by (simp add: add_voting_power_def add.assoc)
qed

lemma check_voting_power_unfold:
  "check_voting_power vv authors = rbind (rfold (add_voting_power vv) 0 authors) (\<lambda>t.
     if t < vv_quorum_voting_power vv
     then Err (TooLittleVotingPower t (vv_quorum_voting_power vv)) else Ok ())"
  by (simp add: check_voting_power_def add_voting_power_def [abs_def])

lemma check_voting_power_cases:
  assumes "vv_valid vv" and "distinct authors"
  shows "check_voting_power vv authors =
    (if \<not> set authors \<subseteq> validators vv then Err UnknownAuthor
     else if voting_power vv (set authors) < unat (vv_quorum_voting_power vv)
     then Err (TooLittleVotingPower (of_nat (voting_power vv (set authors))) (vv_quorum_voting_power vv))
     else Ok ())"
proof (cases "set authors \<subseteq> validators vv")
  case True
  have eq: "sum_list (map (power_of vv) authors) = voting_power vv (set authors)"
    using assms(2) by (simp add: voting_power_def sum_list_distinct_conv_sum_set)
  also have "\<dots> < 2 ^ 64"
    using voting_power_mono [OF True finite_validators, of vv] vv_valid_total(3) [OF assms(1)]
    by (simp add: order_le_less_trans)
  finally obtain t where t: "rfold (add_voting_power vv) 0 authors = Ok t"
    and u: "unat t = voting_power vv (set authors)"
    using add_voting_power_known [OF True, of 0] eq by auto
  from u have "t = of_nat (voting_power vv (set authors))" by (metis word_unat_eq_iff of_nat_unat ucast_id)
  with True t u show ?thesis
    by (simp add: check_voting_power_unfold word_less_nat_alt)
qed (simp add: check_voting_power_unfold add_voting_power_unknown)

lemma check_voting_power_quorum:
  assumes "vv_valid vv" and "distinct authors"
  shows "check_voting_power vv authors = Ok () \<longleftrightarrow> vq.quorum vv (set authors)"
  using check_voting_power_cases [OF assms] by (auto simp: quorum_iff)

section \<open>Aggregated signatures\<close>

lemma vv_verify_Ok [simp]:
  "vv_verify S vv a m sig = Ok u \<longleftrightarrow>
     (\<exists>pk. get_public_key vv a = Some pk \<and> verify_struct_signature S pk m sig)"
  by (auto simp: vv_verify_def split: option.splits)

text \<open>What an accepted aggregated signature means: a quorum of validators whose signatures verify.\<close>

definition quorum_signed ::
  "'m sig_scheme \<Rightarrow> ValidatorVerifier \<Rightarrow> 'm \<Rightarrow> (AccountAddress, Ed25519Signature) fmap \<Rightarrow> bool" where
  "quorum_signed S vv message sigs \<longleftrightarrow>
     vq.quorum vv (fset (fmdom sigs)) \<and>
     (\<forall>a sig. fmlookup sigs a = Some sig \<longrightarrow>
        (\<exists>pk. get_public_key vv a = Some pk \<and> verify_struct_signature S pk message sig))"

lemma check_num_of_signatures_known:
  assumes "fset (fmdom sigs) \<subseteq> validators vv"
  shows "check_num_of_signatures vv sigs = Ok ()"
proof -
  have "fcard (fmdom sigs) \<le> fcard (fmdom (vv_address_to_validator_info vv))"
    using assms by (intro fcard_mono) (simp add: validators_def less_eq_fset.rep_eq)
  then show ?thesis
    by (simp add: check_num_of_signatures_def btree_len_def vv_len_def)
qed

lemma verify_aggregated_iff:
  assumes "vv_valid vv"
  shows "verify_aggregated_struct_signature S vv m sigs = Ok () \<longleftrightarrow> quorum_signed S vv m sigs"
  using check_voting_power_quorum [OF assms, of "btree_keys sigs"]
    check_num_of_signatures_known [of sigs vv]
  by (auto simp: verify_aggregated_struct_signature_def quorum_signed_def quorum_iff)

lemma batch_verify_eq:
  assumes "batch_sound S"
  shows "batch_verify_aggregated_signatures S vv m sigs =
    verify_aggregated_struct_signature S vv m sigs"
proof (cases "check_num_of_signatures vv sigs = Ok () \<and> check_voting_power vv (btree_keys sigs) = Ok ()")
  case True
  then have known: "fset (fmdom sigs) \<subseteq> validators vv"
    using add_voting_power_unknown [of "btree_keys sigs" vv 0]
    by (cases "fset (fmdom sigs) \<subseteq> validators vv") (auto simp: check_voting_power_unfold)
  let ?ks = "List.map_filter (\<lambda>(a, sg). map_option (\<lambda>pk. (pk, sg)) (get_public_key vv a)) (btree_iter sigs)"
  show ?thesis
  proof (cases "batch_verify S m ?ks")
    case batch: True
    have "vv_verify S vv a m sg = Ok ()" if "fmlookup sigs a = Some sg" for a sg
    proof -
      from known fmdomI [OF that] have "a \<in> validators vv" by auto
      then obtain pk where pk: "get_public_key vv a = Some pk"
        by (auto simp: validators_def get_public_key_def fmlookup_dom_iff)
      with that have "(pk, sg) \<in> set ?ks"
        unfolding set_map_filter_iff
        by (intro bexI [of _ "(a, sg)"]) (simp_all add: set_btree_iter)
      with batch assms pk show ?thesis unfolding batch_sound_def vv_verify_Ok by blast
    qed
    then have "for_each (\<lambda>(a, sg). vv_verify S vv a m sg) (btree_iter sigs) = Ok ()"
      by (simp del: vv_verify_Ok)
    with True batch show ?thesis
      by (simp del: for_each_Ok add: batch_verify_aggregated_signatures_def verify_aggregated_struct_signature_def)
  next
    case False
    with True show ?thesis by (simp add: batch_verify_aggregated_signatures_def)
  qed
next
  case False
  then show ?thesis
    by (cases "check_num_of_signatures vv sigs"; cases "check_voting_power vv (btree_keys sigs)")
      (auto simp: batch_verify_aggregated_signatures_def verify_aggregated_struct_signature_def)
qed

lemma batch_verify_iff:
  assumes "vv_valid vv" and "batch_sound S"
  shows "batch_verify_aggregated_signatures S vv m sigs = Ok () \<longleftrightarrow> quorum_signed S vv m sigs"
  by (simp add: batch_verify_eq [OF assms(2)] verify_aggregated_iff [OF assms(1)])

section \<open>Properties\<close>

text \<open>
  Four validators of power one, and a signature scheme in which a key signs, by its own value,
  the messages of a given predicate.
\<close>

definition four_validators :: "(AccountAddress, ValidatorConsensusInfo) fmap" where
  "four_validators = fmap_of_list
     (map (\<lambda>(a, pk). (a, \<lparr>vci_public_key = pk, vci_voting_power = 1\<rparr>)) [(1, 11), (2, 12), (3, 13), (4, 14)])"

definition four_verifier :: ValidatorVerifier where
  "four_verifier = \<lparr>vv_address_to_validator_info = four_validators,
     vv_quorum_voting_power = 3, vv_total_voting_power = 4\<rparr>"

definition key_scheme :: "('m \<Rightarrow> bool) \<Rightarrow> 'm sig_scheme" where
  "key_scheme P = \<lparr>verify_struct_signature = (\<lambda>pk m sg. P m \<and> sg = ucast pk),
     batch_verify = (\<lambda>m kss. list_all (\<lambda>(pk, sg). P m \<and> sg = ucast pk) kss),
     sign_struct = (\<lambda>sk m. ucast sk)\<rparr>"

lemma key_scheme_batch_sound [simp]: "batch_sound (key_scheme P)"
  by (auto simp: batch_sound_def key_scheme_def list_all_iff)

lemma four_verifier_valid [simp]: "vv_valid four_verifier"
  by (simp add: vv_valid_def four_verifier_def four_validators_def vv_new_def sum_voting_power_def
      map_eval validators_def checked_add_def)

text \<open>Evaluation of the verifier's lookups and of the scheme.\<close>

lemma four_lookup:
  "vv_len four_verifier = 4"
  "vv_quorum_voting_power four_verifier = 3"
  "get_voting_power four_verifier a = (if a \<in> {1, 2, 3, 4} then Some 1 else None)"
  "get_public_key four_verifier a = (if a \<in> {1, 2, 3, 4} then Some (ucast a + 10) else None)"
  by (auto simp: four_verifier_def four_validators_def vv_len_def get_voting_power_def
      get_public_key_def map_eval)

lemma four_voting_power:
  "validators four_verifier = {1, 2, 3, 4}"
  "A \<subseteq> {1, 2, 3, 4} \<Longrightarrow> voting_power four_verifier A = card A"
proof -
  show "validators four_verifier = {1, 2, 3, 4}"
    by (simp add: validators_def four_verifier_def four_validators_def)
  show "voting_power four_verifier A = card A" if "A \<subseteq> {1, 2, 3, 4}"
    unfolding voting_power_def card_eq_sum
    using that by (intro sum.cong) (auto simp: power_of_def four_lookup)
qed

lemma key_scheme_eval:
  "verify_struct_signature (key_scheme P) pk m sg \<longleftrightarrow> P m \<and> sg = ucast pk"
  "batch_verify (key_scheme P) m kss \<longleftrightarrow> list_all (\<lambda>(pk, sg). P m \<and> sg = ucast pk) kss"
  "sign_struct (key_scheme P) sk m = ucast sk"
  by (simp_all add: key_scheme_def)

lemmas four_defs = four_lookup key_scheme_eval check_num_of_signatures_def check_voting_power_def
  batch_verify_aggregated_signatures_def verify_aggregated_struct_signature_def map_eval

text \<open>
  C12: For an epoch whose total voting power is below \<open>2^63\<close>, any two sets of signatures that
  \<open>batch_verify_aggregated_signatures\<close> accepts, on whatever messages, share signers that hold
  more than a third of the total voting power.
\<close>

theorem accepted_signatures_intersect:
  assumes "vv_valid vv" and "batch_sound S"
    and "batch_verify_aggregated_signatures S vv m1 sigs1 = Ok ()"
    and "batch_verify_aggregated_signatures S vv m2 sigs2 = Ok ()"
  shows "voting_power vv (validators vv) <
    3 * voting_power vv (fset (fmdom sigs1) \<inter> fset (fmdom sigs2))"
  using assms vq.quorum_inter [OF assms(1)]
  by (simp add: batch_verify_iff quorum_signed_def voting_power_def)

theorem accepted_signatures_intersect_witness:
  "voting_power four_verifier (validators four_verifier) <
    3 * voting_power four_verifier
      (fset (fmdom (fmap_of_list [(1, 11), (2, 12), (3, 13 :: Ed25519Signature)])) \<inter>
       fset (fmdom (fmap_of_list [(2, 12), (3, 13), (4, 14 :: Ed25519Signature)])))"
  by (rule accepted_signatures_intersect
        [where S = "key_scheme (\<lambda>_. True)" and ?m1.0 = True and ?m2.0 = False])
    (simp_all add: four_defs)

text \<open>
  C14: \<open>check_voting_power\<close> on distinct authors, every outcome: an author outside the validator set
  is \<open>UnknownAuthor\<close>; power below the quorum is \<open>TooLittleVotingPower\<close> with the exact sum (the
  wrapping addition of the loop never wraps); otherwise it succeeds.
\<close>

theorem check_voting_power_outcomes:
  assumes "vv_valid vv" and "distinct authors"
  shows "check_voting_power vv authors =
    (if \<not> set authors \<subseteq> validators vv then Err UnknownAuthor
     else if voting_power vv (set authors) < unat (vv_quorum_voting_power vv)
     then Err (TooLittleVotingPower (of_nat (voting_power vv (set authors))) (vv_quorum_voting_power vv))
     else Ok ())"
  by (rule check_voting_power_cases [OF assms])

theorem check_voting_power_outcomes_witness:
  "check_voting_power four_verifier [1, 9] = Err UnknownAuthor \<and>
   check_voting_power four_verifier [1, 2] = Err (TooLittleVotingPower 2 3) \<and>
   check_voting_power four_verifier [4, 2, 1] = Ok ()"
  using check_voting_power_outcomes [of four_verifier "[1, 9]"]
    check_voting_power_outcomes [of four_verifier "[1, 2]"]
    check_voting_power_outcomes [of four_verifier "[4, 2, 1]"]
  by (simp add: four_voting_power four_lookup)

text \<open>
  C13: \<open>batch_verify_aggregated_signatures\<close> accepts exactly when the signers are validators whose
  joint power reaches the quorum and every single signature verifies under the signer's key: the
  batch shortcut and its fall-back to one-by-one verification decide the same question.
\<close>

theorem batch_verify_exact:
  assumes "vv_valid vv" and "batch_sound S"
  shows "batch_verify_aggregated_signatures S vv m sigs = Ok () \<longleftrightarrow>
    fset (fmdom sigs) \<subseteq> validators vv \<and>
    unat (vv_quorum_voting_power vv) \<le> voting_power vv (fset (fmdom sigs)) \<and>
    (\<forall>a sig. fmlookup sigs a = Some sig \<longrightarrow>
       (\<exists>pk. get_public_key vv a = Some pk \<and> verify_struct_signature S pk m sig))"
  by (simp add: batch_verify_iff [OF assms] quorum_signed_def quorum_iff)

theorem batch_verify_exact_witness:
  "unat (vv_quorum_voting_power four_verifier) \<le>
    voting_power four_verifier (fset (fmdom (fmap_of_list [(1, 11), (2, 12), (3, 13 :: Ed25519Signature)])))"
  using batch_verify_exact [of four_verifier "key_scheme (\<lambda>_. True)" True "fmap_of_list [(1, 11), (2, 12), (3, 13)]"]
  by (simp add: four_defs)

text \<open>
  C18: A total voting power of \<open>2^63\<close> or more passes the overflow check of \<open>sum_voting_power\<close>, but
  doubling it wraps: the quorum that \<open>ValidatorVerifier::new\<close> stores is then at most a third of
  the total plus one, so that a third of the voting power already passes for a quorum.
\<close>

theorem quorum_wraps_above_half_range:
  assumes "vv_new m = Some vv" and "fmdom m \<noteq> {||}" and "2 ^ 63 \<le> unat (vv_total_voting_power vv)"
  shows "unat (vv_quorum_voting_power vv) = (2 * unat (vv_total_voting_power vv) - 2 ^ 64) div 3 + 1
    \<and> 3 * unat (vv_quorum_voting_power vv) \<le> unat (vv_total_voting_power vv) + 3"
proof -
  obtain t where t: "vv_total_voting_power vv = t" and q: "vv_quorum_voting_power vv = t * 2 div 3 + 1"
    using assms(1,2) by (auto simp: vv_new_Some)
  have lt: "unat t < 2 ^ 64" using unsigned_less [of t, where ?'a = nat] by simp
  have "unat (t * 2) = 2 * unat t - 2 ^ 64"
    using lt assms(3) by (simp add: t unat_word_ariths mod_if mult.commute)
  then have "unat (t * 2 div 3) = (2 * unat t - 2 ^ 64) div 3" by (simp add: unat_div)
  moreover from this lt have "unat (t * 2 div 3) + 1 < 2 ^ 64" by simp
  ultimately have "unat (vv_quorum_voting_power vv) =
      (2 * unat (vv_total_voting_power vv) - 2 ^ 64) div 3 + 1"
    by (simp add: q t unat_plus_u64)
  with lt show ?thesis by (simp add: t)
qed

theorem quorum_wraps_above_half_range_witness:
  "vv_quorum_voting_power (the (vv_new (fmap_of_list
     [(1, \<lparr>vci_public_key = 11, vci_voting_power = 2 ^ 62\<rparr>),
      (2, \<lparr>vci_public_key = 12, vci_voting_power = 2 ^ 62\<rparr>)]))) = 1"
  using quorum_wraps_above_half_range [where m = "fmap_of_list
     [(1, \<lparr>vci_public_key = 11, vci_voting_power = 2 ^ 62\<rparr>),
      (2, \<lparr>vci_public_key = 12, vci_voting_power = 2 ^ 62\<rparr>)]"]
  by (simp add: vv_new_def sum_voting_power_def map_eval checked_add_def Let_def)

end
