(* ===== verification/LedgerTypes.thy ===== *)
theory LedgerTypes
  imports ValidatorVerifier
begin

text \<open>
  What validators sign and clients verify: \<open>BlockInfo\<close> (\<open>src/types/src/block_info.rs\<close>),
  \<open>LedgerInfo\<close> and \<open>LedgerInfoWithSignatures\<close> (\<open>src/types/src/ledger_info.rs\<close>) and
  \<open>EpochState\<close> with its implementation of the trait \<open>Verifier\<close> (\<open>src/types/src/epoch_state.rs\<close>).

  \<open>LedgerInfoWithSignatures\<close> is an enum of the single variant \<open>V0\<close> that dereferences to its
  content; the model is the content.
\<close>

section \<open>Constants\<close>

type_synonym Version = u64
type_synonym Round = u64

definition GENESIS_EPOCH :: u64 where "GENESIS_EPOCH = 0"
definition GENESIS_ROUND :: Round where "GENESIS_ROUND = 0"
definition GENESIS_VERSION :: Version where "GENESIS_VERSION = 0"
definition GENESIS_TIMESTAMP_USECS :: u64 where "GENESIS_TIMESTAMP_USECS = 0"

text \<open>The ASCII bytes of a literal, padded with zero bytes to the length of a hash.\<close>

definition create_literal_hash :: "string \<Rightarrow> HashValue" where
  "create_literal_hash s =
     foldl (\<lambda>w b. w * 256 + of_nat b) 0
       (map of_char s @ replicate (32 - length s) 0)"

definition ACCUMULATOR_PLACEHOLDER_HASH :: HashValue where
  "ACCUMULATOR_PLACEHOLDER_HASH = create_literal_hash ''ACCUMULATOR_PLACEHOLDER_HASH''"

section \<open>BlockInfo\<close>

record EpochState =
  es_epoch :: u64
  es_verifier :: ValidatorVerifier

record BlockInfo =
  bi_epoch :: u64
  bi_round :: Round
  bi_id :: HashValue
  bi_executed_state_id :: HashValue
  bi_version :: Version
  bi_timestamp_usecs :: u64
  bi_next_epoch_state :: "EpochState option"

definition bi_empty :: BlockInfo where
  "bi_empty = \<lparr>bi_epoch = 0, bi_round = 0, bi_id = 0, bi_executed_state_id = 0, bi_version = 0,
     bi_timestamp_usecs = 0, bi_next_epoch_state = None\<rparr>"

text \<open>\<open>None\<close> when building the verifier of the validator set panics.\<close>

definition bi_genesis :: "HashValue \<Rightarrow> ValidatorInfo list \<Rightarrow> BlockInfo option" where
  "bi_genesis genesis_state_root_hash validator_set =
     map_option (\<lambda>verifier.
       \<lparr>bi_epoch = GENESIS_EPOCH, bi_round = GENESIS_ROUND, bi_id = 0,
        bi_executed_state_id = genesis_state_root_hash, bi_version = GENESIS_VERSION,
        bi_timestamp_usecs = GENESIS_TIMESTAMP_USECS,
        bi_next_epoch_state = Some \<lparr>es_epoch = 1, es_verifier = verifier\<rparr>\<rparr>)
     (vv_from_validator_set validator_set)"

definition bi_next_block_epoch :: "BlockInfo \<Rightarrow> u64" where
  "bi_next_block_epoch b =
     (case bi_next_epoch_state b of Some e \<Rightarrow> es_epoch e | None \<Rightarrow> bi_epoch b)"

definition has_reconfiguration :: "BlockInfo \<Rightarrow> bool" where
  "has_reconfiguration b \<longleftrightarrow> bi_next_epoch_state b \<noteq> None"

definition match_ordered_only :: "BlockInfo \<Rightarrow> BlockInfo \<Rightarrow> bool" where
  "match_ordered_only a b \<longleftrightarrow>
     bi_epoch a = bi_epoch b
     \<and> bi_round a = bi_round b
     \<and> bi_id a = bi_id b
     \<and> bi_timestamp_usecs a = bi_timestamp_usecs b"

definition is_ordered_only :: "BlockInfo \<Rightarrow> bool" where
  "is_ordered_only b \<longleftrightarrow>
     b \<noteq> bi_empty
     \<and> bi_next_epoch_state b = None
     \<and> bi_executed_state_id b = ACCUMULATOR_PLACEHOLDER_HASH
     \<and> bi_version b = 0"

section \<open>LedgerInfo\<close>

record LedgerInfo =
  li_commit_info :: BlockInfo
  li_consensus_data_hash :: HashValue

definition li_genesis :: "HashValue \<Rightarrow> ValidatorInfo list \<Rightarrow> LedgerInfo option" where
  "li_genesis genesis_state_root_hash validator_set =
     map_option (\<lambda>b. \<lparr>li_commit_info = b, li_consensus_data_hash = 0\<rparr>)
       (bi_genesis genesis_state_root_hash validator_set)"

definition li_epoch :: "LedgerInfo \<Rightarrow> u64" where
  [simp]: "li_epoch li = bi_epoch (li_commit_info li)"

definition li_next_block_epoch :: "LedgerInfo \<Rightarrow> u64" where
  [simp]: "li_next_block_epoch li = bi_next_block_epoch (li_commit_info li)"

definition li_round :: "LedgerInfo \<Rightarrow> Round" where
  [simp]: "li_round li = bi_round (li_commit_info li)"

definition li_consensus_block_id :: "LedgerInfo \<Rightarrow> HashValue" where
  [simp]: "li_consensus_block_id li = bi_id (li_commit_info li)"

definition li_transaction_accumulator_hash :: "LedgerInfo \<Rightarrow> HashValue" where
  [simp]: "li_transaction_accumulator_hash li = bi_executed_state_id (li_commit_info li)"

definition li_version :: "LedgerInfo \<Rightarrow> Version" where
  [simp]: "li_version li = bi_version (li_commit_info li)"

definition li_timestamp_usecs :: "LedgerInfo \<Rightarrow> u64" where
  [simp]: "li_timestamp_usecs li = bi_timestamp_usecs (li_commit_info li)"

definition li_next_epoch_state :: "LedgerInfo \<Rightarrow> EpochState option" where
  [simp]: "li_next_epoch_state li = bi_next_epoch_state (li_commit_info li)"

definition ends_epoch :: "LedgerInfo \<Rightarrow> bool" where
  "ends_epoch li \<longleftrightarrow> li_next_epoch_state li \<noteq> None"

definition set_consensus_data_hash :: "HashValue \<Rightarrow> LedgerInfo \<Rightarrow> LedgerInfo" where
  "set_consensus_data_hash h li = li\<lparr>li_consensus_data_hash := h\<rparr>"

section \<open>LedgerInfoWithSignatures\<close>

record LedgerInfoWithSignatures =
  lis_ledger_info :: LedgerInfo
  lis_signatures :: "(AccountAddress, Ed25519Signature) fmap"

definition lis_genesis :: "HashValue \<Rightarrow> ValidatorInfo list \<Rightarrow> LedgerInfoWithSignatures option" where
  "lis_genesis genesis_state_root_hash validator_set =
     map_option (\<lambda>li. \<lparr>lis_ledger_info = li, lis_signatures = fmempty\<rparr>)
       (li_genesis genesis_state_root_hash validator_set)"

definition lis_commit_info :: "LedgerInfoWithSignatures \<Rightarrow> BlockInfo" where
  [simp]: "lis_commit_info l = li_commit_info (lis_ledger_info l)"

definition lis_add_signature ::
  "AccountAddress \<Rightarrow> Ed25519Signature \<Rightarrow> LedgerInfoWithSignatures \<Rightarrow> LedgerInfoWithSignatures" where
  "lis_add_signature validator signature l =
     l\<lparr>lis_signatures := or_insert validator signature (lis_signatures l)\<rparr>"

definition lis_remove_signature ::
  "AccountAddress \<Rightarrow> LedgerInfoWithSignatures \<Rightarrow> LedgerInfoWithSignatures" where
  "lis_remove_signature validator l =
     l\<lparr>lis_signatures := fmdrop validator (lis_signatures l)\<rparr>"

definition lis_verify_signatures ::
  "LedgerInfo sig_scheme \<Rightarrow> LedgerInfoWithSignatures \<Rightarrow> ValidatorVerifier
     \<Rightarrow> (unit, VerifyError) result" where
  "lis_verify_signatures S l validator =
     batch_verify_aggregated_signatures S validator (lis_ledger_info l) (lis_signatures l)"

definition lis_check_voting_power ::
  "LedgerInfoWithSignatures \<Rightarrow> ValidatorVerifier \<Rightarrow> (unit, VerifyError) result" where
  "lis_check_voting_power l validator =
     check_voting_power validator (btree_keys (lis_signatures l))"

section \<open>EpochState as a Verifier\<close>

definition es_empty :: "EpochState option" where
  "es_empty = map_option (\<lambda>verifier. \<lparr>es_epoch = 0, es_verifier = verifier\<rparr>) (vv_new fmempty)"

definition es_verify ::
  "LedgerInfo sig_scheme \<Rightarrow> EpochState \<Rightarrow> LedgerInfoWithSignatures \<Rightarrow> (unit, anyhow) result" where
  "es_verify S es ledger_info =
     rbind (ensure (es_epoch es = li_epoch (lis_ledger_info ledger_info))
              (Msg ''LedgerInfo has unexpected epoch'')) (\<lambda>_.
     rbind (map_err FromVerifyError (lis_verify_signatures S ledger_info (es_verifier es))) (\<lambda>_.
     Ok ()))"

definition es_epoch_change_verification_required :: "EpochState \<Rightarrow> u64 \<Rightarrow> bool" where
  "es_epoch_change_verification_required es epoch \<longleftrightarrow> es_epoch es < epoch"

definition es_is_ledger_info_stale :: "EpochState \<Rightarrow> LedgerInfo \<Rightarrow> bool" where
  "es_is_ledger_info_stale es ledger_info \<longleftrightarrow> li_epoch ledger_info < es_epoch es"

section \<open>Lemmas\<close>

lemma replicate_eq_4: "replicate 4 x = [x, x, x, x]"
  by (simp add: numeral_eq_Suc)

lemma placeholder_hash_value:
  "ACCUMULATOR_PLACEHOLDER_HASH = 29519178627997304637618519030581892818633183099092048000229796302419826573312"
  by (simp add: ACCUMULATOR_PLACEHOLDER_HASH_def create_literal_hash_def replicate_eq_4)

lemma match_ordered_only_refl [simp]: "match_ordered_only b b"
  by (simp add: match_ordered_only_def)

lemma match_ordered_only_sym: "match_ordered_only a b \<Longrightarrow> match_ordered_only b a"
  by (simp add: match_ordered_only_def)

lemma match_ordered_only_trans:
  "match_ordered_only a b \<Longrightarrow> match_ordered_only b c \<Longrightarrow> match_ordered_only a c"
  by (simp add: match_ordered_only_def)

lemma lis_add_signature_simps [simp]:
  "lis_ledger_info (lis_add_signature a sg l) = lis_ledger_info l"
  "lis_signatures (lis_add_signature a sg l) = or_insert a sg (lis_signatures l)"
  by (simp_all add: lis_add_signature_def)

lemma es_verify_Ok:
  assumes "vv_valid (es_verifier es)" and "batch_sound S"
  shows "es_verify S es l = Ok () \<longleftrightarrow> es_epoch es = li_epoch (lis_ledger_info l)
    \<and> quorum_signed S (es_verifier es) (lis_ledger_info l) (lis_signatures l)"
  using batch_verify_iff [OF assms] by (simp add: es_verify_def lis_verify_signatures_def)

end
