(* ===== verification/Accumulator.thy ===== *)
theory Accumulator
  imports LedgerTypes
begin

unbundle bit_operations_syntax

text \<open>
  The in-memory Merkle accumulator (\<open>src/types/src/proof/accumulator/mod.rs\<close>) and the proofs about
  it (\<open>src/types/src/proof/definition.rs\<close>): inclusion, consistency and extension proofs, and the
  \<open>TransactionAccumulatorSummary\<close> of light clients.

  The hash of an internal node is a parameter \<open>H\<close>. The accumulator keeps only the roots of its
  full subtrees; the reference definitions \<open>frozen\<close> and \<open>merkle_root\<close> compute the same from the
  list of all leaves, level by level, and the operations are shown to agree with them. A vector that
  is pushed and popped at its end is a list with the end first.
\<close>

section \<open>InMemoryAccumulator\<close>

type_synonym LeafCount = u64
type_synonym hasher = "HashValue \<Rightarrow> HashValue \<Rightarrow> HashValue"

definition MAX_ACCUMULATOR_PROOF_DEPTH :: nat where
  "MAX_ACCUMULATOR_PROOF_DEPTH = 63"

definition MAX_ACCUMULATOR_LEAVES :: LeafCount where
  "MAX_ACCUMULATOR_LEAVES = push_bit MAX_ACCUMULATOR_PROOF_DEPTH 1"

record InMemoryAccumulator =
  acc_frozen_subtree_roots :: "HashValue list"
  acc_num_leaves :: LeafCount
  acc_root_hash :: HashValue

text \<open>The \<open>while\<close> loop of \<open>compute_root_hash\<close>; \<open>None\<close> is the panic of its \<open>expect\<close>.\<close>

function crh_loop :: "hasher \<Rightarrow> u64 \<Rightarrow> HashValue \<Rightarrow> HashValue list \<Rightarrow> HashValue option" where
  "crh_loop H bitmap current_hash frozen_subtree_iter =
     (if bitmap > 0 then
        if bitmap AND 1 \<noteq> 0 then
          (case frozen_subtree_iter of
             [] \<Rightarrow> None
           | r # rs \<Rightarrow> crh_loop H (drop_bit 1 bitmap) (H r current_hash) rs)
        else crh_loop H (drop_bit 1 bitmap) (H current_hash ACCUMULATOR_PLACEHOLDER_HASH)
               frozen_subtree_iter
      else Some current_hash)"
  by pat_completeness auto

lemma unat_drop_bit_1: "unat (drop_bit 1 w :: u64) = unat w div 2"
  by (simp add: drop_bit_eq_div unat_div)

termination crh_loop
  by (relation "measure (\<lambda>(_, bitmap, _, _). unat bitmap)")
    (auto simp: unat_drop_bit_1 [unfolded One_nat_def] word_less_nat_alt)

declare crh_loop.simps [simp del]

definition compute_root_hash :: "hasher \<Rightarrow> HashValue list \<Rightarrow> LeafCount \<Rightarrow> HashValue option" where
  "compute_root_hash H frozen_subtree_roots num_leaves =
     (case frozen_subtree_roots of
        [] \<Rightarrow> Some ACCUMULATOR_PLACEHOLDER_HASH
      | [r] \<Rightarrow> Some r
      | _ \<Rightarrow> crh_loop H (drop_bit (trailing_zeros num_leaves) num_leaves)
               ACCUMULATOR_PLACEHOLDER_HASH (rev frozen_subtree_roots))"

definition acc_new :: "hasher \<Rightarrow> HashValue list \<Rightarrow> LeafCount \<Rightarrow> (InMemoryAccumulator, anyhow) result" where
  "acc_new H frozen_subtree_roots num_leaves =
     rbind (ensure (length frozen_subtree_roots = count_ones num_leaves)
              (Msg ''The number of frozen subtrees does not match the number of leaves.'')) (\<lambda>_.
     rbind (expect (compute_root_hash H frozen_subtree_roots num_leaves)) (\<lambda>root_hash.
     Ok \<lparr>acc_frozen_subtree_roots = frozen_subtree_roots, acc_num_leaves = num_leaves,
         acc_root_hash = root_hash\<rparr>))"

text \<open>The carries of \<open>append_one\<close>, on the vector with its end first.\<close>

fun append_carries :: "hasher \<Rightarrow> nat \<Rightarrow> HashValue list \<Rightarrow> HashValue list option" where
  "append_carries H 0 rs = Some rs"
| "append_carries H (Suc i) (right_hash # left_hash # rs) =
     append_carries H i (H left_hash right_hash # rs)"
| "append_carries H (Suc i) _ = None"

definition append_one :: "hasher \<Rightarrow> HashValue list \<Rightarrow> LeafCount \<Rightarrow> HashValue \<Rightarrow> HashValue list option" where
  "append_one H frozen_subtree_roots num_existing_leaves leaf =
     map_option rev
       (append_carries H (trailing_zeros (NOT num_existing_leaves)) (leaf # rev frozen_subtree_roots))"

fun append_loop :: "hasher \<Rightarrow> HashValue list \<Rightarrow> LeafCount \<Rightarrow> HashValue list
    \<Rightarrow> (HashValue list \<times> LeafCount) option" where
  "append_loop H roots num_leaves [] = Some (roots, num_leaves)"
| "append_loop H roots num_leaves (leaf # leaves) =
     (case append_one H roots num_leaves leaf of
        None \<Rightarrow> None
      | Some roots' \<Rightarrow> append_loop H roots' (num_leaves + 1) leaves)"

text \<open>\<open>None\<close> is a panic: of \<open>append_one\<close>, or of the \<open>expect\<close> on the result of \<open>new\<close>.\<close>

definition acc_append :: "hasher \<Rightarrow> InMemoryAccumulator \<Rightarrow> HashValue list \<Rightarrow> InMemoryAccumulator option" where
  "acc_append H acc leaves =
     (case append_loop H (acc_frozen_subtree_roots acc) (acc_num_leaves acc) leaves of
        None \<Rightarrow> None
      | Some (roots, num_leaves) \<Rightarrow>
          (case acc_new H roots num_leaves of Ok a \<Rightarrow> Some a | _ \<Rightarrow> None))"

definition acc_default :: "hasher \<Rightarrow> InMemoryAccumulator option" where
  "acc_default H = (case acc_new H [] 0 of Ok a \<Rightarrow> Some a | _ \<Rightarrow> None)"

definition acc_from_leaves :: "hasher \<Rightarrow> HashValue list \<Rightarrow> InMemoryAccumulator option" where
  "acc_from_leaves H leaves = (case acc_default H of None \<Rightarrow> None | Some a \<Rightarrow> acc_append H a leaves)"

text \<open>The inner \<open>while\<close> loop of \<open>append_subtrees\<close>: new vector, hash and mask, or a panic.\<close>

fun subtree_carry :: "hasher \<Rightarrow> LeafCount \<Rightarrow> u64 \<Rightarrow> HashValue list \<Rightarrow> HashValue
    \<Rightarrow> (HashValue list \<times> HashValue \<times> u64) option" where
  "subtree_carry H n mask_bit [] current_hash =
     (if n AND mask_bit \<noteq> 0 then None else Some ([], current_hash, mask_bit))"
| "subtree_carry H n mask_bit (left_hash # rs) current_hash =
     (if n AND mask_bit \<noteq> 0 then subtree_carry H n (push_bit 1 mask_bit) rs (H left_hash current_hash)
      else Some (left_hash # rs, current_hash, mask_bit))"

text \<open>The outer loop: vector with its end first, number of leaves, remaining leaves and subtrees.\<close>

fun subtrees_loop :: "hasher \<Rightarrow> HashValue list \<Rightarrow> LeafCount \<Rightarrow> LeafCount \<Rightarrow> u64 \<Rightarrow> HashValue list
    \<Rightarrow> (HashValue list \<times> LeafCount \<times> LeafCount \<times> HashValue list, anyhow) result" where
  "subtrees_loop H roots n remaining sz [] =
     (if remaining \<ge> sz then Err (Msg ''Too few subtrees.'') else Ok (roots, n, remaining, []))"
| "subtrees_loop H roots n remaining sz (s # ss) =
     (if remaining \<ge> sz then
        (case subtree_carry H n sz roots s of
           None \<Rightarrow> Panic
         | Some (roots', h, mask_bit) \<Rightarrow>
             subtrees_loop H (h # roots') (n + sz) (remaining - sz) mask_bit ss)
      else Ok (roots, n, remaining, s # ss))"

definition append_subtrees :: "hasher \<Rightarrow> InMemoryAccumulator \<Rightarrow> HashValue list \<Rightarrow> LeafCount
    \<Rightarrow> (InMemoryAccumulator, anyhow) result" where
  "append_subtrees H acc subtrees num_new_leaves =
     rbind (ensure (num_new_leaves \<le> MAX_ACCUMULATOR_LEAVES - acc_num_leaves acc)
              (Msg ''Too many new leaves.'')) (\<lambda>_.
     if acc_num_leaves acc = 0 then acc_new H subtrees num_new_leaves
     else
       rbind (subtrees_loop H (rev (acc_frozen_subtree_roots acc)) (acc_num_leaves acc)
                num_new_leaves (push_bit (trailing_zeros (acc_num_leaves acc)) 1) subtrees)
         (\<lambda>(roots, n, remaining, rest). acc_new H (rev roots @ rest) (n + remaining)))"

definition acc_version :: "InMemoryAccumulator \<Rightarrow> u64" where
  "acc_version acc = (if acc_num_leaves acc = 0 then 0 else acc_num_leaves acc - 1)"

definition acc_is_empty :: "InMemoryAccumulator \<Rightarrow> bool" where
  "acc_is_empty acc \<longleftrightarrow> acc_num_leaves acc = 0"

section \<open>Inclusion, consistency and extension proofs\<close>

definition accumulator_proof_step :: "hasher \<Rightarrow> HashValue \<times> u64 \<Rightarrow> HashValue \<Rightarrow> HashValue \<times> u64" where
  "accumulator_proof_step H hi sibling_hash =
     (case hi of (hash, index) \<Rightarrow>
        (if index mod 2 = 0 then H hash sibling_hash else H sibling_hash hash, index div 2))"

definition accumulator_proof_verify ::
  "hasher \<Rightarrow> HashValue list \<Rightarrow> HashValue \<Rightarrow> HashValue \<Rightarrow> u64 \<Rightarrow> (unit, anyhow) result" where
  "accumulator_proof_verify H siblings expected_root_hash element_hash element_index =
     rbind (ensure (length siblings \<le> MAX_ACCUMULATOR_PROOF_DEPTH)
              (Msg ''Accumulator proof has too many siblings.'')) (\<lambda>_.
     let actual_root_hash =
           fst (foldl (accumulator_proof_step H) (element_hash, element_index) siblings)
     in rbind (ensure (actual_root_hash = expected_root_hash) (Msg ''Root hashes do not match.'')) (\<lambda>_.
        Ok ()))"

definition verify_transaction_info ::
  "hasher \<Rightarrow> LedgerInfo \<Rightarrow> Version \<Rightarrow> HashValue \<Rightarrow> HashValue list \<Rightarrow> (unit, anyhow) result" where
  "verify_transaction_info H ledger_info transaction_version transaction_info_hash siblings =
     rbind (ensure (transaction_version \<le> li_version ledger_info)
              (Msg ''Transaction version is newer than LedgerInfo version.'')) (\<lambda>_.
     rbind (accumulator_proof_verify H siblings (li_transaction_accumulator_hash ledger_info)
              transaction_info_hash transaction_version) (\<lambda>_.
     Ok ()))"

record AccumulatorExtensionProof =
  aep_frozen_subtree_roots :: "HashValue list"
  aep_num_leaves :: LeafCount
  aep_leaves :: "HashValue list"

definition aep_verify ::
  "hasher \<Rightarrow> AccumulatorExtensionProof \<Rightarrow> HashValue \<Rightarrow> (InMemoryAccumulator, anyhow) result" where
  "aep_verify H p original_root =
     rbind (acc_new H (aep_frozen_subtree_roots p) (aep_num_leaves p)) (\<lambda>original_tree.
     rbind (ensure (acc_root_hash original_tree = original_root) (Msg ''Root hashes do not match.'')) (\<lambda>_.
     expect (acc_append H original_tree (aep_leaves p))))"

section \<open>TransactionAccumulatorSummary\<close>

definition summary_new :: "InMemoryAccumulator \<Rightarrow> (InMemoryAccumulator, anyhow) result" where
  "summary_new accumulator =
     rbind (ensure (\<not> acc_is_empty accumulator)
       (Msg ''empty accumulator: we can't verify consistency proofs from an empty accumulator'')) (\<lambda>_.
     Ok accumulator)"

definition verify_consistency :: "InMemoryAccumulator \<Rightarrow> LedgerInfo \<Rightarrow> (unit, anyhow) result" where
  "verify_consistency summary ledger_info =
     rbind (ensure (li_version ledger_info = acc_version summary)
              (Msg ''ledger info and accumulator must be at the same version'')) (\<lambda>_.
     rbind (ensure (li_transaction_accumulator_hash ledger_info = acc_root_hash summary)
              (Msg ''ledger info root hash and accumulator root hash must match'')) (\<lambda>_.
     Ok ()))"

definition try_from_genesis_proof ::
  "hasher \<Rightarrow> HashValue list \<Rightarrow> Version \<Rightarrow> (InMemoryAccumulator, anyhow) result" where
  "try_from_genesis_proof H genesis_proof target_version =
     acc_new H genesis_proof (saturating_add target_version 1)"

definition try_extend_with_proof ::
  "hasher \<Rightarrow> InMemoryAccumulator \<Rightarrow> HashValue list \<Rightarrow> LedgerInfo \<Rightarrow> (InMemoryAccumulator, anyhow) result" where
  "try_extend_with_proof H summary consistency_proof target_li =
     rbind (ensure (li_version target_li \<ge> acc_version summary)
              (Msg ''target ledger info version must be newer than our current accumulator summary version'')) (\<lambda>_.
     let num_new_txns = li_version target_li - acc_version summary
     in rbind (append_subtrees H summary consistency_proof num_new_txns) (\<lambda>new_accumulator.
        rbind (map_err (WithContext ''accumulator is not consistent with the target ledger info after applying consistency proof'')
                 (verify_consistency new_accumulator target_li)) (\<lambda>_.
        Ok new_accumulator)))"

section \<open>The tree of all leaves\<close>

text \<open>The next level of the tree: nodes with both children full, and with a placeholder added.\<close>

fun pairs :: "hasher \<Rightarrow> HashValue list \<Rightarrow> HashValue list" where
  "pairs H (a # b # ys) = H a b # pairs H ys"
| "pairs H _ = []"

definition pairs_pad :: "hasher \<Rightarrow> HashValue list \<Rightarrow> HashValue list" where
  "pairs_pad H ys = pairs H ys @
     (if odd (length ys) then [H (last ys) ACCUMULATOR_PLACEHOLDER_HASH] else [])"

lemma length_pairs [simp]: "length (pairs H ys) = length ys div 2"
  by (induction H ys rule: pairs.induct) auto

lemma length_pairs_pad [simp]: "length (pairs_pad H ys) = (length ys + 1) div 2"
  by (simp add: pairs_pad_def)

text \<open>The roots of the full subtrees, and the root of the tree with placeholders.\<close>

function frozen :: "hasher \<Rightarrow> HashValue list \<Rightarrow> HashValue list" where
  "frozen H ys =
     (if ys = [] then []
      else frozen H (pairs H ys) @ (if odd (length ys) then [last ys] else []))"
  by pat_completeness auto

termination frozen
  by (relation "measure (\<lambda>(_, ys). length ys)")
    (auto simp: length_greater_0_conv [symmetric] simp del: length_greater_0_conv)

function merkle_root :: "hasher \<Rightarrow> HashValue list \<Rightarrow> HashValue" where
  "merkle_root H ys =
     (if length ys \<le> 1 then (case ys of [] \<Rightarrow> ACCUMULATOR_PLACEHOLDER_HASH | y # _ \<Rightarrow> y)
      else merkle_root H (pairs_pad H ys))"
  by pat_completeness auto

termination merkle_root by (relation "measure (\<lambda>(_, ys). length ys)") auto

declare frozen.simps [simp del] merkle_root.simps [simp del]

definition acc_of :: "hasher \<Rightarrow> HashValue list \<Rightarrow> InMemoryAccumulator" where
  "acc_of H ys = \<lparr>acc_frozen_subtree_roots = frozen H ys, acc_num_leaves = of_nat (length ys),
     acc_root_hash = merkle_root H ys\<rparr>"

lemma pairs_append: "even (length xs) \<Longrightarrow> pairs H (xs @ ys) = pairs H xs @ pairs H ys"
  by (induction H xs rule: pairs.induct) auto

lemma pairs_snoc_odd: "odd (length xs) \<Longrightarrow> pairs H (xs @ [y]) = pairs H xs @ [H (last xs) y]"
  by (induction H xs rule: pairs.induct) auto

lemma pairs_snoc_even: "even (length xs) \<Longrightarrow> pairs H (xs @ [y]) = pairs H xs"
  by (simp add: pairs_append)

lemma frozen_Nil [simp]: "frozen H [] = []"
  by (simp add: frozen.simps)

lemma frozen_even: "even (length ys) \<Longrightarrow> frozen H ys = frozen H (pairs H ys)"
  by (subst frozen.simps) auto

lemma frozen_odd: "odd (length ys) \<Longrightarrow> frozen H ys = frozen H (pairs H ys) @ [last ys]"
  by (subst frozen.simps) (cases ys; simp)

lemma length_frozen: "length ys < 2 ^ 64 \<Longrightarrow> length (frozen H ys) = count_ones (of_nat (length ys))"
proof (induction H ys rule: frozen.induct)
  case (1 H ys)
  show ?case
  proof (cases "ys = []")
    case False
    with 1 have "length (frozen H (pairs H ys)) = count_ones (of_nat (length ys div 2))" by simp
    with 1(2) show ?thesis
      by (subst count_ones_rec, subst frozen.simps)
        (simp add: False bit_0_of_nat drop_bit_Suc_of_nat del: bit_0)
  qed simp
qed

lemma append_carries_frozen:
  "length ys < 2 ^ 64 \<Longrightarrow> append_carries H (trailing_zeros (NOT (of_nat (length ys)))) (y # rev (frozen H ys))
     = Some (rev (frozen H (ys @ [y])))"
proof (induction H ys arbitrary: y rule: frozen.induct)
  case (1 H ys)
  show ?case
  proof (cases "odd (length ys)")
    case True
    then have ne: "ys \<noteq> []" by auto
    have "trailing_zeros (NOT (of_nat (length ys))) =
        Suc (trailing_zeros (NOT (of_nat (length (pairs H ys)))))"
      using True 1(2) by (subst trailing_ones_rec) (simp add: bit_0_of_nat drop_bit_Suc_of_nat del: bit_0)
    moreover have "frozen H (ys @ [y]) = frozen H (pairs H ys @ [H (last ys) y])"
      using True by (simp add: frozen_even pairs_snoc_odd)
    ultimately show ?thesis
      using 1(1) [OF ne, of "H (last ys) y"] 1(2) True by (simp add: frozen_odd)
  next
    case False
    then have "trailing_zeros (NOT (of_nat (length ys))) = 0"
      using 1(2) by (subst trailing_ones_rec) (simp add: bit_0_of_nat del: bit_0)
    moreover have "frozen H (ys @ [y]) = frozen H ys @ [y]"
      using False by (simp add: frozen_odd pairs_snoc_even frozen_even [symmetric])
    ultimately show ?thesis by simp
  qed
qed

lemma append_one_frozen:
  "length ys < 2 ^ 64 \<Longrightarrow> append_one H (frozen H ys) (of_nat (length ys)) y = Some (frozen H (ys @ [y]))"
  by (simp add: append_one_def append_carries_frozen)

lemma append_loop_frozen:
  "length xs + length ys < 2 ^ 64 \<Longrightarrow>
     append_loop H (frozen H xs) (of_nat (length xs)) ys = Some (frozen H (xs @ ys), of_nat (length (xs @ ys)))"
proof (induction ys arbitrary: xs)
  case (Cons y ys)
  then show ?case using Cons.IH [of "xs @ [y]"] by (simp add: append_one_frozen add.commute)
qed simp

lemma frozen_not_Nil: "ys \<noteq> [] \<Longrightarrow> frozen H ys \<noteq> []"
proof (induction H ys rule: frozen.induct)
  case (1 H ys)
  show ?case
  proof (cases "odd (length ys)")
    case False
    with 1(2) have "0 < length ys div 2" by (cases "length ys") (auto elim: oddE)
    then have "pairs H ys \<noteq> []" using length_pairs [of H ys] by (metis length_greater_0_conv)
    with 1 False show ?thesis by (simp add: frozen_even)
  qed (simp add: frozen_odd)
qed

section \<open>The root hash\<close>

lemma merkle_root_single [simp]: "merkle_root H [] = ACCUMULATOR_PLACEHOLDER_HASH" "merkle_root H [y] = y"
  by (simp_all add: merkle_root.simps)

lemma merkle_root_step: "2 \<le> length ys \<Longrightarrow> merkle_root H ys = merkle_root H (pairs_pad H ys)"
  by (subst merkle_root.simps) simp

lemma crh_loop_merkle:
  "length ys < 2 ^ 64 \<Longrightarrow>
     crh_loop H (of_nat (length ys)) c (rev (frozen H ys)) = Some (merkle_root H (ys @ [c]))"
proof (induction H ys arbitrary: c rule: frozen.induct)
  case (1 H ys)
  show ?case
  proof (cases "ys = []")
    case True
    then show ?thesis by (subst crh_loop.simps) simp
  next
    case False
    then have pos: "(of_nat (length ys) :: u64) > 0"
      using 1(2) by (simp add: word_less_nat_alt unsigned_of_nat take_bit_nat_eq_self)
    have half: "drop_bit (Suc 0) (of_nat (length ys) :: u64) = of_nat (length (pairs H ys))"
      using 1(2) by (simp add: drop_bit_Suc_of_nat)
    have bit: "(of_nat (length ys) :: u64) AND 1 \<noteq> 0 \<longleftrightarrow> odd (length ys)"
      by (simp add: and_one_eq odd_iff_mod_2_eq_one [symmetric])
    have lt: "length (pairs H ys) < 2 ^ 64" using 1(2) by simp
    from False have step: "merkle_root H (ys @ [c]) = merkle_root H (pairs_pad H (ys @ [c]))"
      by (intro merkle_root_step) (simp add: Suc_le_eq)
    show ?thesis
    proof (cases "odd (length ys)")
      case True
      with False pos half bit 1(1) [OF False lt] show ?thesis
        by (subst crh_loop.simps)
          (simp add: frozen_odd step pairs_pad_def pairs_snoc_odd)
    next
      case even: False
      with False pos half bit 1(1) [OF False lt] show ?thesis
        by (subst crh_loop.simps)
          (simp add: frozen_even step pairs_pad_def pairs_snoc_even)
    qed
  qed
qed

lemma compute_root_hash_frozen:
  "length ys < 2 ^ 64 \<Longrightarrow> compute_root_hash H (frozen H ys) (of_nat (length ys)) = Some (merkle_root H ys)"
proof (induction H ys rule: frozen.induct)
  case (1 H ys)
  let ?n = "of_nat (length ys) :: u64"
  show ?case
  proof (cases "length ys \<le> 1")
    case True
    then show ?thesis by (cases ys) (auto simp: compute_root_hash_def frozen_odd)
  next
    case big: False
    then have ne: "ys \<noteq> []" by auto
    have n0: "?n \<noteq> 0" using ne 1(2) by (simp add: word_unat_eq_iff unsigned_of_nat take_bit_nat_eq_self)
    show ?thesis
    proof (cases "odd (length ys)")
      case True
      have "frozen H (pairs H ys) \<noteq> []"
        using big by (intro frozen_not_Nil) (auto simp: length_0_conv [symmetric] simp del: length_0_conv)
      then obtain r rs where "frozen H (pairs H ys) = r # rs" by (cases "frozen H (pairs H ys)") auto
      then obtain a b ts where fr: "frozen H ys = a # b # ts" using True by (cases rs) (simp_all add: frozen_odd)
      have "trailing_zeros ?n = 0"
        using True by (subst trailing_zeros_rec [OF n0]) (simp add: bit_0_of_nat del: bit_0)
      then have "compute_root_hash H (frozen H ys) ?n = crh_loop H ?n ACCUMULATOR_PLACEHOLDER_HASH (rev (frozen H ys))"
        by (simp add: compute_root_hash_def fr)
      also have "\<dots> = Some (merkle_root H (ys @ [ACCUMULATOR_PLACEHOLDER_HASH]))"
        using 1(2) by (rule crh_loop_merkle)
      also have "merkle_root H (ys @ [ACCUMULATOR_PLACEHOLDER_HASH]) = merkle_root H ys"
        using True big by (simp add: merkle_root_step pairs_pad_def pairs_snoc_odd)
      finally show ?thesis .
    next
      case False
      have "trailing_zeros ?n = Suc (trailing_zeros (drop_bit (Suc 0) ?n))"
        using False by (subst trailing_zeros_rec [OF n0]) (simp add: bit_0_of_nat del: bit_0)
      moreover have "drop_bit (Suc t) ?n = drop_bit t (of_nat (length (pairs H ys)))" for t
        using 1(2) drop_bit_drop_bit [of t "Suc 0" ?n] by (simp add: drop_bit_Suc_of_nat)
      ultimately have "compute_root_hash H (frozen H ys) ?n =
          compute_root_hash H (frozen H (pairs H ys)) (of_nat (length (pairs H ys)))"
        using False 1(2)
        by (simp add: compute_root_hash_def frozen_even drop_bit_Suc_of_nat split: list.splits)
      with 1(1) [OF ne] 1(2) False big show ?thesis
        by (simp add: merkle_root_step [of ys] pairs_pad_def)
    qed
  qed
qed

lemma acc_new_frozen:
  "length ys < 2 ^ 64 \<Longrightarrow> acc_new H (frozen H ys) (of_nat (length ys)) = Ok (acc_of H ys)"
  by (simp add: acc_new_def length_frozen compute_root_hash_frozen acc_of_def ensure_def)

lemma acc_append_acc_of:
  "length xs + length ys < 2 ^ 64 \<Longrightarrow> acc_append H (acc_of H xs) ys = Some (acc_of H (xs @ ys))"
  using acc_new_frozen [of "xs @ ys" H]
  by (simp add: acc_append_def acc_of_def [of H xs] append_loop_frozen)

lemma acc_default_acc_of: "acc_default H = Some (acc_of H [])"
  using acc_new_frozen [of "[]" H] by (simp add: acc_default_def)

section \<open>Appending subtrees\<close>

fun tz :: "nat \<Rightarrow> nat" where
  "tz n = (if n = 0 \<or> odd n then 0 else Suc (tz (n div 2)))"

declare tz.simps [simp del]

lemma tz_odd [simp]: "odd n \<Longrightarrow> tz n = 0"
  by (simp add: tz.simps)

lemma tz_even: "n > 0 \<Longrightarrow> even n \<Longrightarrow> tz n = Suc (tz (n div 2))"
  by (subst tz.simps) simp

lemma trailing_zeros_of_nat: "0 < n \<Longrightarrow> n < 2 ^ 64 \<Longrightarrow> trailing_zeros (of_nat n) = tz n"
proof (induction n rule: tz.induct)
  case (1 n)
  have n0: "(of_nat n :: u64) \<noteq> 0"
    using 1(2,3) by (simp add: word_unat_eq_iff unsigned_of_nat take_bit_nat_eq_self)
  show ?case
  proof (cases "odd n")
    case True
    then show ?thesis by (simp add: trailing_zeros_rec [OF n0] bit_0_of_nat del: bit_0)
  next
    case False
    with 1(2) have "0 < n div 2" by (auto elim: evenE)
    with False 1 show ?thesis
      by (simp add: trailing_zeros_rec [OF n0] bit_0_of_nat drop_bit_Suc_of_nat tz_even del: bit_0)
  qed
qed

lemma tz_mult_power: "0 < m \<Longrightarrow> tz (m * 2 ^ k) = k + tz m"
  by (induction k) (simp_all add: tz_even)

lemma tz_dvd: "2 ^ tz n dvd n"
proof (induction n rule: tz.induct)
  case (1 n)
  show ?case
  proof (cases "n = 0 \<or> odd n")
    case True
    then show ?thesis by (subst tz.simps) simp
  next
    case False
    with 1 have "2 ^ tz (n div 2) dvd n div 2" by simp
    then have "2 * 2 ^ tz (n div 2) dvd 2 * (n div 2)" by (rule mult_dvd_mono [OF dvd_refl])
    with False show ?thesis by (subst tz.simps) simp
  qed
qed

text \<open>The nodes \<open>k\<close> levels above the leaves.\<close>

definition level :: "hasher \<Rightarrow> nat \<Rightarrow> HashValue list \<Rightarrow> HashValue list" where
  "level H k ys = (pairs H ^^ k) ys"

lemma level_0 [simp]: "level H 0 ys = ys"
  by (simp add: level_def)

lemma level_Suc: "level H (Suc k) ys = level H k (pairs H ys)"
  by (simp add: level_def funpow_swap1)

lemma length_level: "length (level H k ys) = length ys div 2 ^ k"
  by (induction k arbitrary: ys) (simp_all add: level_Suc div_mult2_eq)

lemma dvd_Suc_power_half: "2 ^ Suc k dvd (n :: nat) \<Longrightarrow> even n \<and> 2 ^ k dvd n div 2"
  by (metis dvd_mult_left dvd_div_iff_mult power_Suc mult.commute zero_neq_numeral)

lemma level_append: "2 ^ k dvd length xs \<Longrightarrow> level H k (xs @ ys) = level H k xs @ level H k ys"
proof (induction k arbitrary: xs ys)
  case (Suc k)
  from dvd_Suc_power_half [OF Suc.prems] show ?case by (simp add: level_Suc pairs_append Suc.IH)
qed simp

lemma frozen_level: "2 ^ k dvd length ys \<Longrightarrow> frozen H ys = frozen H (level H k ys)"
proof (induction k arbitrary: ys)
  case (Suc k)
  from dvd_Suc_power_half [OF Suc.prems] show ?case
    by (simp add: level_Suc frozen_even [of ys] Suc.IH [of "pairs H ys"])
qed simp

lemma frozen_append_small:
  "2 ^ k dvd length xs \<Longrightarrow> length zs < 2 ^ k \<Longrightarrow> frozen H (xs @ zs) = frozen H xs @ frozen H zs"
proof (induction k arbitrary: xs zs)
  case (Suc k)
  from dvd_Suc_power_half [OF Suc.prems(1)] have e: "even (length xs)" "2 ^ k dvd length (pairs H xs)" by simp_all
  have IH: "frozen H (pairs H xs @ pairs H zs) = frozen H (pairs H xs) @ frozen H (pairs H zs)"
    using Suc.prems(2) by (intro Suc.IH [OF e(2)]) simp
  show ?case
  proof (cases "odd (length zs)")
    case True
    then have "zs \<noteq> []" by auto
    with True e IH show ?thesis by (simp add: frozen_odd frozen_even [of xs] pairs_append)
  next
    case False
    with e IH show ?thesis by (simp add: frozen_even pairs_append)
  qed
qed simp

lemma and_power_2: "n < 2 ^ 64 \<Longrightarrow> (of_nat n AND 2 ^ k :: u64) \<noteq> 0 \<longleftrightarrow> odd (n div 2 ^ k)"
proof -
  assume n: "n < 2 ^ 64"
  have "(of_nat n AND 2 ^ k :: u64) = (if bit (of_nat n :: u64) k then 2 ^ k else 0)"
    by (rule bit_eqI) (auto simp: bit_and_iff bit_exp_iff)
  moreover have "bit (of_nat n :: u64) k \<longleftrightarrow> odd (n div 2 ^ k) \<and> k < 64"
    by (auto simp: bit_of_nat_iff bit_iff_odd [of n])
  moreover have "64 \<le> k \<Longrightarrow> n div 2 ^ k = 0"
    using n by (metis div_eq_0_iff order_less_le_trans one_le_numeral power_increasing)
  moreover have "k < 64 \<Longrightarrow> (2 :: u64) ^ k \<noteq> 0" by simp
  ultimately show ?thesis by (cases "k < 64") auto
qed

lemma subtree_carry_frozen:
  "n < 2 ^ 64 \<Longrightarrow> n div 2 ^ k = length ys \<Longrightarrow>
   \<exists>st h. subtree_carry H (of_nat n) (2 ^ k) (rev (frozen H ys)) s =
       Some (st, h, 2 ^ (k + tz (length ys + 1))) \<and> h # st = rev (frozen H (ys @ [s]))"
proof (induction H ys arbitrary: k s rule: frozen.induct)
  case (1 H ys)
  note bit = and_power_2 [OF 1(2), of k, unfolded 1(3)]
  show ?case
  proof (cases "odd (length ys)")
    case True
    then have ne: "ys \<noteq> []" by auto
    have "n div 2 ^ Suc k = length (pairs H ys)"
      using 1(3) by (simp only: power_Suc2 div_mult2_eq length_pairs)
    from 1(1) [OF ne 1(2) this, of "H (last ys) s"] True bit show ?thesis
      by (simp add: frozen_odd [of ys] frozen_even [of "ys @ [s]"] pairs_snoc_odd tz_even mult.commute)
  next
    case False
    then have "frozen H (ys @ [s]) = frozen H ys @ [s]"
      by (simp add: frozen_odd pairs_snoc_even frozen_even [symmetric])
    then show ?thesis
      using False bit by (cases "rev (frozen H ys)") simp_all
  qed
qed

text \<open>The subtrees that take an accumulator of \<open>n\<close> leaves to one with the further leaves \<open>zs\<close>.\<close>

function extension_subtrees :: "hasher \<Rightarrow> nat \<Rightarrow> HashValue list \<Rightarrow> HashValue list" where
  "extension_subtrees H n zs =
     (if 0 < n \<and> 2 ^ tz n \<le> length zs
      then hd (level H (tz n) (take (2 ^ tz n) zs))
             # extension_subtrees H (n + 2 ^ tz n) (drop (2 ^ tz n) zs)
      else frozen H zs)"
  by pat_completeness auto

termination extension_subtrees
proof (relation "measure (\<lambda>(_, _, zs). length zs)", goal_cases)
  case (2 H n zs)
  moreover have "0 < (2 :: nat) ^ tz n" by simp
  ultimately have "zs \<noteq> []" by auto
  then show ?case by simp
qed simp

declare extension_subtrees.simps [simp del]

lemma power_2_le_of_nat:
  assumes "m < 2 ^ 64" and "2 ^ k < (2 :: nat) ^ 64"
  shows "(2 ^ k :: u64) \<le> of_nat m \<longleftrightarrow> 2 ^ k \<le> m"
proof -
  have eq: "(2 ^ k :: u64) = of_nat (2 ^ k)" by simp
  show ?thesis
    unfolding eq word_le_nat_alt unat_of_nat using assms by (simp del: of_nat_power)
qed

lemma tz_add_power: "0 < n \<Longrightarrow> tz (n + 2 ^ tz n) = tz n + tz (n div 2 ^ tz n + 1)"
proof -
  have "n + 2 ^ tz n = (n div 2 ^ tz n + 1) * 2 ^ tz n" using tz_dvd [of n] by simp
  then show ?thesis using tz_mult_power [of "n div 2 ^ tz n + 1" "tz n"] by (simp add: add.commute)
qed

lemma subtrees_loop_frozen:
  "n = length xs \<Longrightarrow> xs \<noteq> [] \<Longrightarrow> n + length zs < 2 ^ 64 \<Longrightarrow>
   \<exists>st n' r rest. subtrees_loop H (rev (frozen H xs)) (of_nat n) (of_nat (length zs))
        (2 ^ tz n) (extension_subtrees H n zs) = Ok (st, n', r, rest)
     \<and> rev st @ rest = frozen H (xs @ zs) \<and> n' + r = of_nat (length (xs @ zs))"
proof (induction H n zs arbitrary: xs rule: extension_subtrees.induct)
  case (1 H n zs)
  let ?k = "tz n" and ?ext = "extension_subtrees H"
  have pos: "0 < n" using 1(2,3) by simp
  have "2 ^ ?k \<le> n" using tz_dvd pos by (rule dvd_imp_le)
  then have k: "2 ^ ?k < (2 :: nat) ^ 64" using 1(4) by linarith
  have zs64: "length zs < 2 ^ 64" using 1(4) by simp
  note le = power_2_le_of_nat [OF zs64 k]
  show ?case
  proof (cases "2 ^ ?k \<le> length zs")
    case False
    then have "?ext n zs = frozen H zs" by (subst extension_subtrees.simps) simp
    moreover have "frozen H (xs @ zs) = frozen H xs @ frozen H zs"
      using False tz_dvd [of n] 1(2) by (intro frozen_append_small [of ?k]) auto
    ultimately show ?thesis
      using False le 1(2) by (cases "frozen H zs") auto
  next
    case True
    let ?t = "take (2 ^ ?k) zs" and ?d = "drop (2 ^ ?k) zs"
    have ext: "?ext n zs = hd (level H ?k ?t) # ?ext (n + 2 ^ ?k) ?d"
      using True pos by (subst extension_subtrees.simps) simp
    have lt: "length ?t = 2 ^ ?k" using True by simp
    then have lv: "level H ?k ?t = [hd (level H ?k ?t)]"
      using length_level [of H ?k ?t] by (cases "level H ?k ?t") auto
    have dvd: "2 ^ ?k dvd length xs" using tz_dvd [of n] 1(2) by simp
    have fx: "frozen H xs = frozen H (level H ?k xs)" using dvd by (rule frozen_level)
    have ft: "frozen H (xs @ ?t) = frozen H (level H ?k xs @ [hd (level H ?k ?t)])"
      using frozen_level [of ?k "xs @ ?t" H] dvd lt level_append [OF dvd, of H ?t] lv by simp
    have "n < 2 ^ 64" using 1(4) by simp
    moreover have "n div 2 ^ ?k = length (level H ?k xs)" by (simp add: length_level 1(2))
    ultimately obtain st h where c: "subtree_carry H (of_nat n) (2 ^ ?k) (rev (frozen H xs))
          (hd (level H ?k ?t)) = Some (st, h, 2 ^ (?k + tz (n div 2 ^ ?k + 1)))"
      and st: "h # st = rev (frozen H (xs @ ?t))"
      using subtree_carry_frozen [of n ?k "level H ?k xs" H "hd (level H ?k ?t)"] fx ft
      by (auto simp: length_level 1(2))
    have "n + 2 ^ ?k = length (xs @ ?t)" using lt 1(2) by simp
    moreover have "n + 2 ^ ?k + length ?d < 2 ^ 64" using True 1(4) by simp
    ultimately obtain st' n' r rest where IH: "subtrees_loop H (rev (frozen H (xs @ ?t)))
        (of_nat (n + 2 ^ ?k)) (of_nat (length ?d)) (2 ^ tz (n + 2 ^ ?k))
        (?ext (n + 2 ^ ?k) ?d) = Ok (st', n', r, rest)"
      "rev st' @ rest = frozen H (xs @ zs)" "n' + r = of_nat (length (xs @ zs))"
      using 1(1) [of "xs @ ?t"] True pos 1(3) by (force simp: append_assoc)
    have "of_nat (length zs) - 2 ^ ?k = (of_nat (length ?d) :: u64)"
      using True by (simp add: of_nat_diff)
    moreover have "of_nat n + 2 ^ ?k = (of_nat (n + 2 ^ ?k) :: u64)" by simp
    ultimately have "subtrees_loop H (rev (frozen H xs)) (of_nat n) (of_nat (length zs))
        (2 ^ ?k) (?ext n zs) = Ok (st', n', r, rest)"
      unfolding ext using True le c IH(1) st tz_add_power [OF pos]
      by (simp del: of_nat_add)
    with IH(2,3) show ?thesis by blast
  qed
qed

lemma append_subtrees_acc_of:
  assumes "length xs + length zs \<le> 2 ^ 63"
  shows "append_subtrees H (acc_of H xs) (extension_subtrees H (length xs) zs) (of_nat (length zs)) =
    Ok (acc_of H (xs @ zs))"
proof -
  have max: "(of_nat (length zs) :: u64) \<le> MAX_ACCUMULATOR_LEAVES - of_nat (length xs)"
  proof -
    have "MAX_ACCUMULATOR_LEAVES - of_nat (length xs) = (of_nat (2 ^ 63 - length xs) :: u64)"
      using assms by (simp add: MAX_ACCUMULATOR_LEAVES_def MAX_ACCUMULATOR_PROOF_DEPTH_def of_nat_diff)
    then show ?thesis
      using assms by (simp only: word_le_nat_alt) (simp add: unsigned_of_nat take_bit_nat_eq_self del: of_nat_diff)
  qed
  show ?thesis
  proof (cases "xs = []")
    case True
    then show ?thesis
      using max assms acc_new_frozen [of zs H]
      by (simp add: append_subtrees_def acc_of_def [of H "[]"] extension_subtrees.simps ensure_def)
  next
    case False
    have n0: "(of_nat (length xs) :: u64) \<noteq> 0"
      using False assms by (simp add: word_unat_eq_iff unsigned_of_nat take_bit_nat_eq_self)
    have tzx: "trailing_zeros (of_nat (length xs)) = tz (length xs)"
      using False assms by (intro trailing_zeros_of_nat) auto
    obtain st n' r rest where "subtrees_loop H (rev (frozen H xs)) (of_nat (length xs))
        (of_nat (length zs)) (2 ^ tz (length xs)) (extension_subtrees H (length xs) zs) =
        Ok (st, n', r, rest)" "rev st @ rest = frozen H (xs @ zs)" "n' + r = of_nat (length (xs @ zs))"
      using subtrees_loop_frozen [OF refl False, of zs H] assms by auto
    with max n0 tzx acc_new_frozen [of "xs @ zs" H] assms show ?thesis
      by (simp add: append_subtrees_def acc_of_def [of H xs] ensure_def)
  qed
qed

section \<open>Binding\<close>

text \<open>
  The pairs of hashes that a computation feeds to \<open>H\<close>. Two computations that give the same hash
  took the same path as long as \<open>H\<close> has no collision among the pairs they hashed.
\<close>

function crh_queries :: "hasher \<Rightarrow> u64 \<Rightarrow> HashValue \<Rightarrow> HashValue list \<Rightarrow> (HashValue \<times> HashValue) set" where
  "crh_queries H b c it =
     (if b > 0 then
        if b AND 1 \<noteq> 0 then
          (case it of [] \<Rightarrow> {} | r # rs \<Rightarrow> insert (r, c) (crh_queries H (drop_bit 1 b) (H r c) rs))
        else insert (c, ACCUMULATOR_PLACEHOLDER_HASH)
               (crh_queries H (drop_bit 1 b) (H c ACCUMULATOR_PLACEHOLDER_HASH) it)
      else {})"
  by pat_completeness auto

termination crh_queries
  by (relation "measure (\<lambda>(_, b, _, _). unat b)")
    (auto simp: unat_drop_bit_1 [unfolded One_nat_def] word_less_nat_alt)

declare crh_queries.simps [simp del]

definition root_queries :: "hasher \<Rightarrow> HashValue list \<Rightarrow> LeafCount \<Rightarrow> (HashValue \<times> HashValue) set" where
  "root_queries H roots n =
     (if length roots \<le> 1 then {}
      else crh_queries H (drop_bit (trailing_zeros n) n) ACCUMULATOR_PLACEHOLDER_HASH (rev roots))"

fun carry_queries :: "hasher \<Rightarrow> LeafCount \<Rightarrow> u64 \<Rightarrow> HashValue list \<Rightarrow> HashValue
    \<Rightarrow> (HashValue \<times> HashValue) set" where
  "carry_queries H n m [] c = {}"
| "carry_queries H n m (l # rs) c =
     (if n AND m \<noteq> 0 then insert (l, c) (carry_queries H n (push_bit 1 m) rs (H l c)) else {})"

fun subtrees_queries :: "hasher \<Rightarrow> HashValue list \<Rightarrow> LeafCount \<Rightarrow> LeafCount \<Rightarrow> u64 \<Rightarrow> HashValue list
    \<Rightarrow> (HashValue \<times> HashValue) set" where
  "subtrees_queries H roots n r sz [] = root_queries H (rev roots) (n + r)"
| "subtrees_queries H roots n r sz (s # ss) =
     (if r \<ge> sz then
        (case subtree_carry H n sz roots s of
           None \<Rightarrow> {}
         | Some (roots', h, m) \<Rightarrow>
             carry_queries H n sz roots s \<union> subtrees_queries H (h # roots') (n + sz) (r - sz) m ss)
      else root_queries H (rev roots @ s # ss) (n + r))"

definition append_subtrees_queries :: "hasher \<Rightarrow> InMemoryAccumulator \<Rightarrow> HashValue list \<Rightarrow> LeafCount
    \<Rightarrow> (HashValue \<times> HashValue) set" where
  "append_subtrees_queries H acc subtrees k =
     subtrees_queries H (rev (acc_frozen_subtree_roots acc)) (acc_num_leaves acc) k
       (push_bit (trailing_zeros (acc_num_leaves acc)) 1) subtrees"

definition collision_free :: "hasher \<Rightarrow> (HashValue \<times> HashValue) set \<Rightarrow> bool" where
  "collision_free H Q \<longleftrightarrow> inj_on (\<lambda>(a, b). H a b) Q"

lemma collision_freeD:
  "collision_free H Q \<Longrightarrow> (a, b) \<in> Q \<Longrightarrow> (c, d) \<in> Q \<Longrightarrow> H a b = H c d \<Longrightarrow> a = c \<and> b = d"
  by (auto simp: collision_free_def inj_on_def)

lemma collision_free_mono: "collision_free H Q \<Longrightarrow> R \<subseteq> Q \<Longrightarrow> collision_free H R"
  unfolding collision_free_def by (rule inj_on_subset)

lemma bit_0_and_1: "(b AND 1 :: u64) \<noteq> 0 \<longleftrightarrow> bit b 0"
  by (metis and_one_eq bit_0 even_iff_mod_2_eq_zero)

lemma crh_loop_0 [simp]: "crh_loop H 0 c it = Some c"
  by (subst crh_loop.simps) simp

lemma crh_loop_inj:
  "crh_loop H b c it = Some h \<Longrightarrow> crh_loop H b c' it' = Some h \<Longrightarrow>
   collision_free H (crh_queries H b c it \<union> crh_queries H b c' it') \<Longrightarrow>
   length it = count_ones b \<Longrightarrow> length it' = count_ones b \<Longrightarrow> c = c' \<and> it = it'"
proof (induction H b c it arbitrary: c' it' rule: crh_loop.induct)
  case (1 H b c it)
  let ?P = ACCUMULATOR_PLACEHOLDER_HASH
  show ?case
  proof (cases "b = 0")
    case True
    with 1(3-) show ?thesis by simp
  next
    case False
    then have pos: "b > 0" by (simp add: word_gt_0)
    have co: "count_ones b = (if bit b 0 then 1 else 0) + count_ones (drop_bit 1 b)"
      using count_ones_rec [of b] by simp
    show ?thesis
    proof (cases "b AND 1 \<noteq> 0")
      case True
      then have b0: "bit b 0" by (simp only: bit_0_and_1)
      obtain r rs where it: "it = r # rs" using 1(6) co b0 by (cases it) auto
      obtain r' rs' where it': "it' = r' # rs'" using 1(7) co b0 by (cases it') auto
      have q: "crh_queries H b c it = insert (r, c) (crh_queries H (drop_bit 1 b) (H r c) rs)"
        "crh_queries H b c' it' = insert (r', c') (crh_queries H (drop_bit 1 b) (H r' c') rs')"
        using pos True it it' by (subst crh_queries.simps; simp)+
      have "H r c = H r' c' \<and> rs = rs'"
      proof (rule 1(1) [OF pos True it])
        show "crh_loop H (drop_bit 1 b) (H r c) rs = Some h"
          using 1(3) pos True it by (subst (asm) crh_loop.simps) simp
        show "crh_loop H (drop_bit 1 b) (H r' c') rs' = Some h"
          using 1(4) pos True it' by (subst (asm) crh_loop.simps) simp
        show "collision_free H (crh_queries H (drop_bit 1 b) (H r c) rs \<union> crh_queries H (drop_bit 1 b) (H r' c') rs')"
          using 1(5) unfolding q by (rule collision_free_mono) auto
      qed (use 1(6,7) co b0 it it' in simp_all)
      moreover from this have "r = r' \<and> c = c'"
        using 1(5) unfolding q by (intro collision_freeD [OF 1(5)]) (auto simp: q)
      ultimately show ?thesis using it it' by simp
    next
      case even: False
      then have b0: "\<not> bit b 0" using bit_0_and_1 [of b] by blast
      have q: "crh_queries H b c it = insert (c, ?P) (crh_queries H (drop_bit 1 b) (H c ?P) it)"
        "crh_queries H b c' it' = insert (c', ?P) (crh_queries H (drop_bit 1 b) (H c' ?P) it')"
        using pos even by (subst crh_queries.simps; simp)+
      have "H c ?P = H c' ?P \<and> it = it'"
      proof (rule 1(2) [OF pos even])
        show "crh_loop H (drop_bit 1 b) (H c ?P) it = Some h"
          using 1(3) pos even by (subst (asm) crh_loop.simps) simp
        show "crh_loop H (drop_bit 1 b) (H c' ?P) it' = Some h"
          using 1(4) pos even by (subst (asm) crh_loop.simps) simp
        show "collision_free H (crh_queries H (drop_bit 1 b) (H c ?P) it \<union> crh_queries H (drop_bit 1 b) (H c' ?P) it')"
          using 1(5) unfolding q by (rule collision_free_mono) auto
      qed (use 1(6,7) co b0 in simp_all)
      moreover have "(c, ?P) \<in> crh_queries H b c it" "(c', ?P) \<in> crh_queries H b c' it'"
        by (simp_all add: q)
      ultimately have "c = c'" "it = it'" using collision_freeD [OF 1(5)] by blast+
      then show ?thesis by simp
    qed
  qed
qed

lemma count_ones_drop_trailing: "n \<noteq> 0 \<Longrightarrow> count_ones (drop_bit (trailing_zeros n) n) = count_ones n"
proof (induction "trailing_zeros n" arbitrary: n)
  case (Suc t)
  have b0: "\<not> bit n 0" and t: "t = trailing_zeros (drop_bit 1 n)"
    using Suc(2) trailing_zeros_rec [OF Suc(3)] by (auto split: if_splits simp del: bit_0)
  have "drop_bit 1 n \<noteq> 0"
  proof
    assume z: "drop_bit 1 n = 0"
    have "\<not> bit n i" for i
      using b0 bit_drop_bit_Suc [of n "i - 1"] z by (cases i) auto
    with Suc(3) show False by (simp add: bit_eq_iff)
  qed
  with Suc(1) [OF t] have "count_ones (drop_bit t (drop_bit 1 n)) = count_ones (drop_bit 1 n)"
    using t by simp
  moreover have "drop_bit (trailing_zeros n) n = drop_bit t (drop_bit 1 n)"
    using Suc(2) by (simp flip: Suc(2))
  ultimately show ?case using count_ones_rec [of n] b0 by simp
qed simp

lemma compute_root_hash_inj:
  assumes "compute_root_hash H rs n = Some h" and "compute_root_hash H rs' n = Some h"
    and "length rs = count_ones n" and "length rs' = count_ones n"
    and cf: "collision_free H (root_queries H rs n \<union> root_queries H rs' n)"
  shows "rs = rs'"
proof (cases "length rs \<le> 1")
  case True
  with assms show ?thesis
    by (cases rs; cases rs') (auto simp: compute_root_hash_def split: list.splits)
next
  case False
  then have n0: "n \<noteq> 0" using assms(3) by (intro notI) simp
  from False assms(3,4) have l: "1 < length rs" "1 < length rs'" by simp_all
  have big: "compute_root_hash H ts n = crh_loop H (drop_bit (trailing_zeros n) n) ACCUMULATOR_PLACEHOLDER_HASH (rev ts)"
    if "1 < length ts" for ts
    using that by (cases ts rule: pairs.cases [of "(H, ts)" for ts, simplified]) (auto simp: compute_root_hash_def split: list.splits)
  have "rev rs = rev rs'"
    using crh_loop_inj [OF assms(1) [unfolded big [OF l(1)]] assms(2) [unfolded big [OF l(2)]]]
      cf l assms(3,4) count_ones_drop_trailing [OF n0]
    by (simp add: root_queries_def)
  then show ?thesis by simp
qed

lemma subtree_carry_inj:
  assumes "length st = length st'"
    and "subtree_carry H n m st c = Some (t, h, k)" and "subtree_carry H n m st' c' = Some (t', h', k')"
    and "collision_free H (carry_queries H n m st c \<union> carry_queries H n m st' c')"
  shows "length t = length t' \<and> k = k' \<and> (t = t' \<and> h = h' \<longrightarrow> st = st' \<and> c = c')"
  using assms
proof (induction st st' arbitrary: m c c' rule: list_induct2)
  case (Cons l st l' st')
  show ?case
  proof (cases "n AND m \<noteq> 0")
    case True
    let ?q = "carry_queries H n (push_bit 1 m) st (H l c)" and ?q' = "carry_queries H n (push_bit 1 m) st' (H l' c')"
    have cf: "collision_free H (?q \<union> ?q')"
      by (rule collision_free_mono [OF Cons.prems(3)]) (use True in auto)
    have "H l c = H l' c' \<Longrightarrow> l = l' \<and> c = c'"
      by (rule collision_freeD [OF Cons.prems(3)]) (use True in auto)
    with Cons.IH [OF _ _ cf] Cons.prems(1,2) True show ?thesis by auto
  qed (use Cons.prems Cons.hyps in auto)
qed (auto split: if_splits)

lemma subtrees_loop_inj:
  assumes "length st = length st'"
    and "subtrees_loop H st n r sz ss = Ok (u, k, q, rest)"
    and "subtrees_loop H st' n r sz ss' = Ok (u', k', q', rest')"
    and "compute_root_hash H (rev u @ rest) (k + q) = Some h"
    and "compute_root_hash H (rev u' @ rest') (k' + q') = Some h"
    and "length (rev u @ rest) = count_ones (k + q)"
    and "length (rev u' @ rest') = count_ones (k' + q')"
    and "collision_free H (subtrees_queries H st n r sz ss \<union> subtrees_queries H st' n r sz ss')"
  shows "st = st' \<and> ss = ss'"
  using assms
proof (induction ss arbitrary: st st' n r sz ss')
  case Nil
  then have r: "\<not> sz \<le> r" and ss': "u' = st'" "k' = n" "q' = r" "rest' = ss'"
    by (auto split: if_splits elim: subtrees_loop.elims)
  have "rev st = rev st' @ ss'"
    by (rule compute_root_hash_inj [of H _ "n + r" h])
      (use Nil r ss' in \<open>auto intro: collision_free_mono simp: subtrees_queries.simps split: if_splits\<close>)
  with Nil(1) show ?case by (metis append_Nil2 append_eq_append_conv length_rev rev_rev_ident)
next
  case (Cons s ss)
  show ?case
  proof (cases "sz \<le> r")
    case False
    then have u: "u = st" "k = n" "q = r" "rest = s # ss" "u' = st'" "k' = n" "q' = r" "rest' = ss'"
      using Cons.prems(2,3) by (auto split: if_splits elim: subtrees_loop.elims)
    have "rev st @ s # ss = rev st' @ ss'"
      by (rule compute_root_hash_inj [of H _ "n + r" h])
        (use Cons.prems False u in \<open>cases ss'; auto intro: collision_free_mono split: if_splits\<close>)+
    with Cons.prems(1) show ?thesis by (metis append_eq_append_conv length_rev rev_rev_ident)
  next
    case True
    then obtain s' ts where ss': "ss' = s' # ts" using Cons.prems(3) by (cases ss') auto
    obtain t g m where c: "subtree_carry H n sz st s = Some (t, g, m)"
      using Cons.prems(2) True by (auto split: option.splits)
    obtain t' g' m' where c': "subtree_carry H n sz st' s' = Some (t', g', m')"
      using Cons.prems(3) True ss' by (auto split: option.splits)
    have "collision_free H (carry_queries H n sz st s \<union> carry_queries H n sz st' s')"
      by (rule collision_free_mono [OF Cons.prems(8)]) (use True ss' c c' in auto)
    note inj = subtree_carry_inj [OF Cons.prems(1) c c' this]
    have "g # t = g' # t' \<and> ss = ts"
    proof (rule Cons.IH [of "g # t" "g' # t'" "n + sz" "r - sz" m ts])
      show "collision_free H (subtrees_queries H (g # t) (n + sz) (r - sz) m ss \<union>
          subtrees_queries H (g' # t') (n + sz) (r - sz) m ts)"
        by (rule collision_free_mono [OF Cons.prems(8)]) (use True ss' c c' inj in auto)
    qed (use Cons.prems True ss' c c' inj in auto)
    with inj ss' show ?thesis by auto
  qed
qed

lemma append_subtrees_Ok_binding:
  assumes n: "0 < n" "n + k \<le> 2 ^ 63" "length ys = n + k"
    and acc: "acc_num_leaves acc = of_nat n" "length (acc_frozen_subtree_roots acc) = count_ones (of_nat n)"
    and ok: "append_subtrees H acc subs (of_nat k) = Ok acc'" "acc_root_hash acc' = merkle_root H ys"
    and cf: "collision_free H (append_subtrees_queries H acc subs (of_nat k) \<union>
      append_subtrees_queries H (acc_of H (take n ys)) (extension_subtrees H n (drop n ys)) (of_nat k))"
  shows "acc_frozen_subtree_roots acc = frozen H (take n ys) \<and> subs = extension_subtrees H n (drop n ys)"
proof -
  let ?xs = "take n ys" and ?zs = "drop n ys" and ?n = "of_nat n :: u64"
  let ?sz = "push_bit (trailing_zeros ?n) 1 :: u64"
  have len: "length ?xs = n" "length ?zs = k" using n by simp_all
  have n0: "?n \<noteq> 0" using n by (simp add: word_unat_eq_iff unsigned_of_nat take_bit_nat_eq_self)
  obtain u j q rest where l1: "subtrees_loop H (rev (acc_frozen_subtree_roots acc)) ?n (of_nat k) ?sz subs = Ok (u, j, q, rest)"
      "acc_new H (rev u @ rest) (j + q) = Ok acc'"
    using ok(1) n0 acc(1) by (auto simp: append_subtrees_def split: if_splits)
  have "append_subtrees H (acc_of H ?xs) (extension_subtrees H n ?zs) (of_nat k) = Ok (acc_of H ys)"
    using append_subtrees_acc_of [of ?xs ?zs H] n len by simp
  then obtain u' j' q' rest' where l2: "subtrees_loop H (rev (frozen H ?xs)) ?n (of_nat k) ?sz (extension_subtrees H n ?zs) = Ok (u', j', q', rest')"
      "acc_new H (rev u' @ rest') (j' + q') = Ok (acc_of H ys)"
    using n0 len by (auto simp: append_subtrees_def acc_of_def [of H ?xs] split: if_splits)
  have "rev (acc_frozen_subtree_roots acc) = rev (frozen H ?xs) \<and> subs = extension_subtrees H n ?zs"
  proof (rule subtrees_loop_inj [OF _ l1(1) l2(1), of "merkle_root H ys"])
    show "length (rev (acc_frozen_subtree_roots acc)) = length (rev (frozen H ?xs))"
      using acc(2) n len length_frozen [of ?xs H] by simp
    show "collision_free H (subtrees_queries H (rev (acc_frozen_subtree_roots acc)) ?n (of_nat k) ?sz subs
        \<union> subtrees_queries H (rev (frozen H ?xs)) ?n (of_nat k) ?sz (extension_subtrees H n ?zs))"
      using cf acc(1) len by (simp add: append_subtrees_queries_def acc_of_def)
  qed (use l1(2) l2(2) ok(2) n length_frozen [of ys H] in \<open>auto simp: acc_new_def acc_of_def\<close>)
  then show ?thesis by simp
qed

section \<open>Inclusion proofs\<close>

fun path_queries :: "hasher \<Rightarrow> HashValue \<Rightarrow> u64 \<Rightarrow> HashValue list \<Rightarrow> (HashValue \<times> HashValue) set" where
  "path_queries H e i [] = {}"
| "path_queries H e i (s # ss) =
     insert (if i mod 2 = 0 then (e, s) else (s, e))
       (path_queries H (fst (accumulator_proof_step H (e, i) s)) (i div 2) ss)"

definition level_queries :: "HashValue list \<Rightarrow> (HashValue \<times> HashValue) set" where
  "level_queries ys = {(ys ! (2 * j), if 2 * j + 1 < length ys then ys ! (2 * j + 1)
     else ACCUMULATOR_PLACEHOLDER_HASH) | j. 2 * j < length ys}"

definition padded_level :: "hasher \<Rightarrow> nat \<Rightarrow> HashValue list \<Rightarrow> HashValue list" where
  "padded_level H k ys = (pairs_pad H ^^ k) ys"

text \<open>The number of levels above the leaves, and all the pairs hashed in the tree.\<close>

function depth :: "nat \<Rightarrow> nat" where
  "depth n = (if n \<le> 1 then 0 else Suc (depth ((n + 1) div 2)))"
  by pat_completeness auto

termination depth by (relation "measure id") auto

declare depth.simps [simp del]

definition tree_queries :: "hasher \<Rightarrow> HashValue list \<Rightarrow> (HashValue \<times> HashValue) set" where
  "tree_queries H ys = (\<Union>k < depth (length ys). level_queries (padded_level H k ys))"

lemma depth_le_1 [simp]: "n \<le> 1 \<Longrightarrow> depth n = 0"
  by (simp add: depth.simps)

lemma depth_step: "2 \<le> n \<Longrightarrow> depth n = Suc (depth ((n + 1) div 2))"
  by (subst depth.simps) simp

lemma padded_level_0 [simp]: "padded_level H 0 ys = ys"
  by (simp add: padded_level_def)

lemma padded_level_Suc: "padded_level H (Suc k) ys = padded_level H k (pairs_pad H ys)"
  by (simp add: padded_level_def funpow_swap1)

lemma padded_level_Suc': "padded_level H (Suc k) ys = pairs_pad H (padded_level H k ys)"
  by (simp add: padded_level_def)

lemma nth_pairs: "j < length ys div 2 \<Longrightarrow> pairs H ys ! j = H (ys ! (2 * j)) (ys ! (2 * j + 1))"
proof (induction H ys arbitrary: j rule: pairs.induct)
  case (1 H a b ys)
  then show ?case by (cases j) auto
qed auto

lemma nth_pairs_pad: "2 * j < length ys \<Longrightarrow> pairs_pad H ys ! j = H (ys ! (2 * j))
    (if 2 * j + 1 < length ys then ys ! (2 * j + 1) else ACCUMULATOR_PLACEHOLDER_HASH)"
proof (cases "2 * j + 1 < length ys")
  case True
  then have "j < length ys div 2" by linarith
  with True show ?thesis by (simp add: pairs_pad_def nth_append nth_pairs)
next
  case False
  assume "2 * j < length ys"
  with False have l: "length ys = 2 * j + 1" by simp
  then have "last ys = ys ! (2 * j)" by (subst last_conv_nth) auto
  with l show ?thesis by (simp add: pairs_pad_def nth_append)
qed

lemma tree_queries_step:
  "2 \<le> length ys \<Longrightarrow> tree_queries H ys = level_queries ys \<union> tree_queries H (pairs_pad H ys)"
proof -
  assume l: "2 \<le> length ys"
  have "tree_queries H ys = (\<Union>k \<in> {..<Suc (depth (length (pairs_pad H ys)))}. level_queries (padded_level H k ys))"
    using l by (simp add: tree_queries_def depth_step)
  also have "{..<Suc (depth (length (pairs_pad H ys)))} = insert 0 (Suc ` {..<depth (length (pairs_pad H ys))})"
    by (rule lessThan_Suc_eq_insert_0)
  finally show ?thesis by (simp add: tree_queries_def padded_level_Suc del: length_pairs_pad)
qed

lemma even_unat_mod: "(i :: u64) mod 2 = 0 \<longleftrightarrow> even (unat i)"
  by (simp add: word_unat_eq_iff unat_mod even_iff_mod_2_eq_zero)

lemma accumulator_proof_same_depth:
  "fst (foldl (accumulator_proof_step H) (e, i) sibs) = merkle_root H ys \<Longrightarrow>
   length sibs = depth (length ys) \<Longrightarrow> unat i < length ys \<Longrightarrow>
   collision_free H (tree_queries H ys \<union> path_queries H e i sibs) \<Longrightarrow> ys ! unat i = e"
proof (induction H ys arbitrary: e i sibs rule: merkle_root.induct)
  case (1 H ys)
  show ?case
  proof (cases "length ys \<le> 1")
    case True
    with 1(3,4) have "ys = [merkle_root H ys]" "sibs = []" "unat i = 0" by (cases ys; simp)+
    with 1(2) show ?thesis by (metis foldl_Nil fst_conv nth_Cons_0)
  next
    case False
    then have l: "2 \<le> length ys" by simp
    then obtain s ss where sibs: "sibs = s # ss" using 1(3) by (cases sibs) (auto simp: depth_step)
    let ?j = "unat i div 2"
    obtain e' where e': "accumulator_proof_step H (e, i) s = (e', i div 2)" "e' = (if i mod 2 = 0 then H e s else H s e)"
      by (simp add: accumulator_proof_step_def)
    let ?sib = "if 2 * ?j + 1 < length ys then ys ! (2 * ?j + 1) else ACCUMULATOR_PLACEHOLDER_HASH"
    have "pairs_pad H ys ! unat (i div 2) = e'"
    proof (rule 1(1))
      show "\<not> length ys \<le> 1" using False .
      show "fst (foldl (accumulator_proof_step H) (e', i div 2) ss) = merkle_root H (pairs_pad H ys)"
        using 1(2) sibs e'(1) by (simp add: merkle_root_step [OF l])
      show "length ss = depth (length (pairs_pad H ys))" using 1(3) sibs l by (simp add: depth_step)
      show "unat (i div 2) < length (pairs_pad H ys)" using 1(4) l by (simp add: unat_div)
      show "collision_free H (tree_queries H (pairs_pad H ys) \<union> path_queries H e' (i div 2) ss)"
        by (rule collision_free_mono [OF 1(5)]) (use sibs e'(1) tree_queries_step [OF l, of H] in auto)
    qed
    moreover have "pairs_pad H ys ! ?j = H (ys ! (2 * ?j)) ?sib" using 1(4) by (intro nth_pairs_pad) simp
    ultimately have eq: "H (ys ! (2 * ?j)) ?sib = (if i mod 2 = 0 then H e s else H s e)"
      using e'(2) by (simp add: unat_div)
    have q1: "(ys ! (2 * ?j), ?sib) \<in> tree_queries H ys \<union> path_queries H e i sibs"
      using 1(4) unfolding tree_queries_step [OF l, of H] level_queries_def by auto
    have q2: "(if i mod 2 = 0 then (e, s) else (s, e)) \<in> tree_queries H ys \<union> path_queries H e i sibs"
      using sibs by simp
    show ?thesis
    proof (cases "i mod 2 = 0")
      case True
      with eq collision_freeD [OF 1(5) q1] q2 have "ys ! (2 * ?j) = e" by simp
      with True show ?thesis by (simp add: even_unat_mod)
    next
      case odd: False
      with eq collision_freeD [OF 1(5) q1, of s e] q2 have "?sib = e" by simp
      moreover have "2 * ?j + 1 = unat i" using odd by (simp add: even_unat_mod)
      ultimately show ?thesis using 1(4) by (simp split: if_splits)
    qed
  qed
qed

text \<open>A proof of another length would make a leaf hash out of an inner node or the reverse.\<close>

definition outputs :: "hasher \<Rightarrow> (HashValue \<times> HashValue) set \<Rightarrow> HashValue set" where
  "outputs H Q = (\<lambda>(a, b). H a b) ` Q"

definition domain_separated ::
  "hasher \<Rightarrow> HashValue list \<Rightarrow> HashValue \<Rightarrow> (HashValue \<times> HashValue) set \<Rightarrow> bool" where
  "domain_separated H ys e Q \<longleftrightarrow>
     e \<noteq> ACCUMULATOR_PLACEHOLDER_HASH \<and> e \<notin> outputs H (tree_queries H ys) \<and>
     (\<forall>y \<in> insert ACCUMULATOR_PLACEHOLDER_HASH (set ys). y \<notin> outputs H Q)"

definition nodes_at :: "hasher \<Rightarrow> HashValue list \<Rightarrow> nat \<Rightarrow> HashValue set" where
  "nodes_at H ys k = insert ACCUMULATOR_PLACEHOLDER_HASH (set (padded_level H k ys))"

lemma node_children:
  assumes "v \<in> set (padded_level H (Suc k) ys)"
  obtains a b where "v = H a b" and "(a, b) \<in> level_queries (padded_level H k ys)"
    and "a \<in> nodes_at H ys k" and "b \<in> nodes_at H ys k"
proof -
  let ?l = "padded_level H k ys"
  obtain j where j: "j < length (pairs_pad H ?l)" "v = pairs_pad H ?l ! j"
    using assms unfolding padded_level_Suc' by (auto simp: in_set_conv_nth)
  then have "2 * j < length ?l" by simp
  let ?b = "if 2 * j + 1 < length ?l then ?l ! (2 * j + 1) else ACCUMULATOR_PLACEHOLDER_HASH"
  show thesis
  proof (rule that)
    show "v = H (?l ! (2 * j)) ?b" using j(2) nth_pairs_pad [OF \<open>2 * j < length ?l\<close>, of H] by simp
    show "(?l ! (2 * j), ?b) \<in> level_queries ?l" using \<open>2 * j < length ?l\<close> unfolding level_queries_def by blast
    show "?l ! (2 * j) \<in> nodes_at H ys k" "?b \<in> nodes_at H ys k"
      using \<open>2 * j < length ?l\<close> by (simp_all add: nodes_at_def)
  qed
qed

lemma outputs_mono: "Q \<subseteq> R \<Longrightarrow> outputs H Q \<subseteq> outputs H R"
  by (auto simp: outputs_def)

lemma outputsI: "(a, b) \<in> Q \<Longrightarrow> H a b \<in> outputs H Q"
  by (force simp: outputs_def)

lemma path_queries_append:
  "path_queries H e i (ss @ ts) = path_queries H e i ss \<union>
     (case foldl (accumulator_proof_step H) (e, i) ss of (w, j) \<Rightarrow> path_queries H w j ts)"
  by (induction ss arbitrary: e i) (auto simp: accumulator_proof_step_def)

lemma peel_path:
  "fst (foldl (accumulator_proof_step H) (e, i) sibs) \<in> nodes_at H ys (k + length sibs) \<Longrightarrow>
   k + length sibs \<le> depth (length ys) \<Longrightarrow>
   collision_free H (tree_queries H ys \<union> path_queries H e i sibs) \<Longrightarrow>
   ACCUMULATOR_PLACEHOLDER_HASH \<notin> outputs H (path_queries H e i sibs) \<Longrightarrow> e \<in> nodes_at H ys k"
proof (induction sibs arbitrary: k rule: rev_induct)
  case (snoc s ss)
  obtain w j where w: "foldl (accumulator_proof_step H) (e, i) ss = (w, j)" by fastforce
  obtain c d where q: "(c, d) = (if j mod 2 = 0 then (w, s) else (s, w))" by (cases "j mod 2 = 0") auto
  have path: "path_queries H e i (ss @ [s]) = insert (c, d) (path_queries H e i ss)"
    by (simp add: path_queries_append w q)
  have v: "fst (foldl (accumulator_proof_step H) (e, i) (ss @ [s])) = H c d"
    using q by (simp add: w accumulator_proof_step_def split: if_splits)
  have "H c d \<in> outputs H (path_queries H e i (ss @ [s]))" unfolding path by (intro outputsI) simp
  with snoc.prems(4) have "H c d \<noteq> ACCUMULATOR_PLACEHOLDER_HASH" by metis
  with snoc.prems(1) v have "H c d \<in> set (padded_level H (Suc (k + length ss)) ys)"
    by (simp add: nodes_at_def)
  then obtain a b where ab: "H c d = H a b"
      "(a, b) \<in> level_queries (padded_level H (k + length ss) ys)"
      "a \<in> nodes_at H ys (k + length ss)" "b \<in> nodes_at H ys (k + length ss)"
    by (rule node_children)
  have "(a, b) \<in> tree_queries H ys" using ab(2) snoc.prems(2) by (auto simp: tree_queries_def)
  then have "c = a \<and> d = b"
    using collision_freeD [OF snoc.prems(3), of c d a b] ab(1) path by auto
  then have "w \<in> nodes_at H ys (k + length ss)" using ab(3,4) q by (auto split: if_splits)
  then show ?case
    using snoc.prems(2-4) w path outputs_mono [of "path_queries H e i ss" "path_queries H e i (ss @ [s])" H]
    by (intro snoc.IH) (auto intro: collision_free_mono)
qed simp

lemma merkle_root_level: "ys \<noteq> [] \<Longrightarrow> merkle_root H ys \<in> set (padded_level H (depth (length ys)) ys)"
proof (induction H ys rule: merkle_root.induct)
  case (1 H ys)
  show ?case
  proof (cases "length ys \<le> 1")
    case True
    with 1(2) show ?thesis by (cases ys) auto
  next
    case False
    then have l: "2 \<le> length ys" by simp
    have "pairs_pad H ys \<noteq> []" using l length_pairs_pad [of H ys] by (auto simp del: length_pairs_pad)
    with 1(1) [OF False] show ?thesis
      by (simp add: merkle_root_step [OF l] depth_step [OF l] padded_level_Suc)
  qed
qed

lemma accumulator_proof_depth:
  assumes ne: "ys \<noteq> []" and root: "fst (foldl (accumulator_proof_step H) (e, i) sibs) = merkle_root H ys"
    and cf: "collision_free H (tree_queries H ys \<union> path_queries H e i sibs)"
    and ds: "domain_separated H ys e (path_queries H e i sibs)"
  shows "length sibs = depth (length ys)"
proof (rule ccontr)
  assume ne_depth: "length sibs \<noteq> depth (length ys)"
  let ?d = "depth (length ys)"
  have top: "merkle_root H ys \<in> nodes_at H ys ?d" using merkle_root_level [OF ne] by (simp add: nodes_at_def)
  show False
  proof (cases "length sibs < ?d")
    case True
    then obtain k where k: "?d = Suc k + length sibs" by (metis add.commute add_Suc_right less_natE)
    have "e \<in> nodes_at H ys (Suc k)"
      using peel_path [of H e i sibs ys "Suc k"] root top k cf ds by (simp add: domain_separated_def)
    with ds have "e \<in> set (padded_level H (Suc k) ys)" by (simp add: domain_separated_def nodes_at_def)
    then obtain a b where "e = H a b" "(a, b) \<in> level_queries (padded_level H k ys)" by (rule node_children)
    with k have "e \<in> outputs H (tree_queries H ys)" by (force simp: outputs_def tree_queries_def)
    with ds show False by (simp add: domain_separated_def)
  next
    case False
    let ?ss = "take (length sibs - ?d) sibs" and ?ts = "drop (length sibs - ?d) sibs"
    have split: "sibs = ?ss @ ?ts" "length ?ts = ?d" "?ss \<noteq> []" using False ne_depth by auto
    obtain w j where w: "foldl (accumulator_proof_step H) (e, i) ?ss = (w, j)" by fastforce
    have sub: "path_queries H w j ?ts \<subseteq> path_queries H e i sibs" "path_queries H e i ?ss \<subseteq> path_queries H e i sibs"
      using path_queries_append [of H e i ?ss ?ts] w split(1) by auto
    have "w \<in> nodes_at H ys 0"
    proof (rule peel_path [of H w j ?ts])
      show "fst (foldl (accumulator_proof_step H) (w, j) ?ts) \<in> nodes_at H ys (0 + length ?ts)"
        using root top w split by (metis foldl_append add_0)
      show "collision_free H (tree_queries H ys \<union> path_queries H w j ?ts)"
        by (rule collision_free_mono [OF cf]) (use sub in auto)
      show "ACCUMULATOR_PLACEHOLDER_HASH \<notin> outputs H (path_queries H w j ?ts)"
        using ds outputs_mono [OF sub(1), of H] by (auto simp: domain_separated_def)
    qed (use split in simp)
    moreover obtain rs r where rs: "?ss = rs @ [r]" using split(3) by (metis rev_exhaust)
    moreover obtain x l where x: "foldl (accumulator_proof_step H) (e, i) rs = (x, l)" by fastforce
    ultimately have "w \<in> outputs H (path_queries H e i ?ss)"
      using w by (auto simp: path_queries_append accumulator_proof_step_def intro: outputsI split: if_splits)
    then have "w \<in> outputs H (path_queries H e i sibs)" using outputs_mono [OF sub(2)] by blast
    with \<open>w \<in> nodes_at H ys 0\<close> ds show False by (auto simp: domain_separated_def nodes_at_def)
  qed
qed

section \<open>Properties\<close>

text \<open>
  C11: Appending leaves to the accumulator of a list of leaves never panics and gives the
  accumulator of the longer list: the roots of its full subtrees, its length, and the root hash of
  the padded Merkle tree over all leaves.
\<close>

theorem accumulator_append_correct:
  assumes "length xs + length ys < 2 ^ 64"
  shows "acc_append H (acc_of H xs) ys = Some (acc_of H (xs @ ys))"
  by (rule acc_append_acc_of [OF assms])

definition sample_hasher :: hasher where
  "sample_hasher a b = 2 * a + 3 * b + 100"

theorem accumulator_append_correct_witness:
  "acc_append sample_hasher (acc_of sample_hasher [5]) [7, 9] = Some (acc_of sample_hasher [5, 7, 9])"
  using accumulator_append_correct [of "[5]" "[7, 9]" sample_hasher] by simp

text \<open>
  C10: Extending an accumulator by the roots of the subtrees of the new leaves gives the same
  accumulator as appending the leaves one by one, up to the maximum of \<open>2^63\<close> leaves.
\<close>

theorem append_subtrees_correct:
  assumes "length xs + length zs \<le> 2 ^ 63"
  shows "append_subtrees H (acc_of H xs) (extension_subtrees H (length xs) zs) (of_nat (length zs)) =
    Ok (acc_of H (xs @ zs))"
  by (rule append_subtrees_acc_of [OF assms])

theorem append_subtrees_correct_witness:
  "append_subtrees sample_hasher (acc_of sample_hasher [5])
     (extension_subtrees sample_hasher (length [5 :: HashValue]) [7, 9]) (of_nat (length [7 :: HashValue, 9])) =
   Ok (acc_of sample_hasher ([5] @ [7, 9]))"
  by (rule append_subtrees_correct) simp

text \<open>
  C8: A consistency proof is convincing. If extending an accumulator of \<open>n\<close> leaves by whatever
  subtrees a server sent reproduces the root hash of a ledger, then the accumulator is that of the
  first \<open>n\<close> leaves of this ledger and the subtrees are those of the others, unless the two
  computations contain a hash collision.
\<close>

theorem consistency_proof_sound:
  assumes "0 < n" and "n + k \<le> 2 ^ 63" and "length ys = n + k"
    and "acc_num_leaves acc = of_nat n" and "length (acc_frozen_subtree_roots acc) = count_ones (of_nat n)"
    and "append_subtrees H acc subs (of_nat k) = Ok acc'" and "acc_root_hash acc' = merkle_root H ys"
    and "collision_free H (append_subtrees_queries H acc subs (of_nat k) \<union>
      append_subtrees_queries H (acc_of H (take n ys)) (extension_subtrees H n (drop n ys)) (of_nat k))"
  shows "acc_frozen_subtree_roots acc = frozen H (take n ys) \<and> subs = extension_subtrees H n (drop n ys)"
  by (rule append_subtrees_Ok_binding [OF assms])

lemma sample_evals:
  "frozen sample_hasher [5] = [5]" "merkle_root sample_hasher [5] = 5"
  "merkle_root sample_hasher [5, 7] = 131" "tz (Suc 0) = 0"
  "extension_subtrees sample_hasher (Suc 0) [7] = [7]"
  by (simp_all add: frozen_odd merkle_root_step pairs_pad_def sample_hasher_def
      extension_subtrees.simps)

lemma bit_count_evals: "count_ones 1 = 1" "count_ones 2 = 1" "trailing_zeros 1 = 0"
proof -
  show one: "count_ones 1 = 1" by (subst count_ones_rec) simp
  show "count_ones 2 = 1" using one by (subst count_ones_rec) (simp add: drop_bit_Suc bit_0)
  show "trailing_zeros 1 = 0" by (subst trailing_zeros_rec) simp_all
qed

theorem consistency_proof_sound_witness:
  "acc_frozen_subtree_roots (acc_of sample_hasher [5]) = frozen sample_hasher (take 1 [5, 7]) \<and>
   [7] = extension_subtrees sample_hasher 1 (drop 1 [5, 7])"
  by (rule consistency_proof_sound [where k = 1 and acc' = "\<lparr>acc_frozen_subtree_roots = [131],
        acc_num_leaves = 2, acc_root_hash = 131\<rparr>"])
    (simp_all add: acc_of_def sample_evals append_subtrees_def append_subtrees_queries_def
      collision_free_def MAX_ACCUMULATOR_LEAVES_def MAX_ACCUMULATOR_PROOF_DEPTH_def ensure_def
      bit_count_evals acc_new_def compute_root_hash_def root_queries_def
      sample_hasher_def)

text \<open>
  C9: An inclusion proof is sound. An element that \<open>AccumulatorProof::verify\<close> accepts at an index
  of a ledger is the leaf at this index, whatever siblings were sent and however many, unless the
  computation contains a hash collision or confuses a leaf hash with the hash of an inner node.
\<close>

theorem accumulator_proof_sound:
  assumes "accumulator_proof_verify H siblings (merkle_root H ys) element index = Ok ()"
    and "unat index < length ys"
    and "collision_free H (tree_queries H ys \<union> path_queries H element index siblings)"
    and "domain_separated H ys element (path_queries H element index siblings)"
  shows "ys ! unat index = element"
proof (rule accumulator_proof_same_depth [OF _ _ assms(2,3)])
  show root: "fst (foldl (accumulator_proof_step H) (element, index) siblings) = merkle_root H ys"
    using assms(1) by (simp add: accumulator_proof_verify_def Let_def)
  show "length siblings = depth (length ys)"
    using assms(2) by (intro accumulator_proof_depth [OF _ root assms(3,4)]) auto
qed

theorem accumulator_proof_sound_witness: "[5, 7] ! unat (0 :: u64) = (5 :: HashValue)"
  by (rule accumulator_proof_sound [where H = sample_hasher and siblings = "[7]"])
    (simp_all add: accumulator_proof_verify_def sample_evals accumulator_proof_step_def
      MAX_ACCUMULATOR_PROOF_DEPTH_def sample_hasher_def collision_free_def tree_queries_step
      tree_queries_def level_queries_def domain_separated_def outputs_def ensure_def
      placeholder_hash_value depth_step less_Suc_eq)

text \<open>
  C17: \<open>AccumulatorProof::verify\<close> looks only at as many low bits of the index as there are
  siblings: an index and the same index plus a multiple of \<open>2 ^ length siblings\<close> are accepted
  alike. Callers that do not bound the index by the number of leaves learn nothing from its high bits.
\<close>

theorem accumulator_proof_index_alias:
  assumes "unat i mod 2 ^ length siblings = unat j mod 2 ^ length siblings"
  shows "accumulator_proof_verify H siblings root e i = accumulator_proof_verify H siblings root e j"
proof -
  have "fst (foldl (accumulator_proof_step H) (e, i) siblings) = fst (foldl (accumulator_proof_step H) (e, j) siblings)"
    using assms
  proof (induction siblings arbitrary: e i j)
    case (Cons s ss)
    have split: "x mod 2 = y mod 2 \<and> p = q" if "2 * p + x mod 2 = 2 * q + y mod 2" for p q x y :: nat
      using that by presburger
    have "2 * (unat i div 2 mod 2 ^ length ss) + unat i mod 2 = 2 * (unat j div 2 mod 2 ^ length ss) + unat j mod 2"
      using Cons.prems by (simp add: mod_mult2_eq)
    from split [OF this] have "unat i mod 2 = unat j mod 2"
      and "unat (i div 2) mod 2 ^ length ss = unat (j div 2) mod 2 ^ length ss"
      by (simp_all add: unat_div)
    then show ?case
      using Cons.IH [of "i div 2" "j div 2"] by (simp add: accumulator_proof_step_def even_unat_mod even_iff_mod_2_eq_zero)
  qed simp
  then show ?thesis by (simp add: accumulator_proof_verify_def)
qed

theorem accumulator_proof_index_alias_witness:
  "accumulator_proof_verify sample_hasher [7, 9] 1 5 1 = accumulator_proof_verify sample_hasher [7, 9] 1 5 5"
  by (rule accumulator_proof_index_alias) simp

end
