(* ===== verification/EpochChange.thy ===== *)
theory EpochChange
  imports LedgerTypes
begin

text \<open>
  Trust in a validator set: \<open>Waypoint\<close> (\<open>src/types/src/waypoint.rs\<close>), the trait \<open>Verifier\<close> and
  \<open>EpochChangeProof\<close> (\<open>src/types/src/epoch_change.rs\<close>).

  A \<open>dyn Verifier\<close> is a record of its three methods. The hash of the fields of a ledger info that
  a waypoint commits to is a parameter. An accepted \<open>EpochChangeProof\<close> is shown to be a chain of
  epoch-ending ledger infos, each accepted by the validator set the previous one announced, and two
  accepted proofs never disagree on the validator set of an epoch.
\<close>

section \<open>The trait Verifier\<close>

record dyn_verifier =
  dv_verify :: "LedgerInfoWithSignatures \<Rightarrow> (unit, anyhow) result"
  dv_epoch_change_verification_required :: "u64 \<Rightarrow> bool"
  dv_is_ledger_info_stale :: "LedgerInfo \<Rightarrow> bool"

definition es_dyn :: "LedgerInfo sig_scheme \<Rightarrow> EpochState \<Rightarrow> dyn_verifier" where
  "es_dyn S es =
     \<lparr>dv_verify = es_verify S es,
      dv_epoch_change_verification_required = es_epoch_change_verification_required es,
      dv_is_ledger_info_stale = es_is_ledger_info_stale es\<rparr>"

section \<open>Waypoint\<close>

record Waypoint =
  wp_version :: Version
  wp_value :: HashValue

record Ledger2WaypointConverter =
  l2w_epoch :: u64
  l2w_root_hash :: HashValue
  l2w_version :: Version
  l2w_timestamp_usecs :: u64
  l2w_next_epoch_state :: "EpochState option"

definition l2w_new :: "LedgerInfo \<Rightarrow> Ledger2WaypointConverter" where
  "l2w_new ledger_info =
     \<lparr>l2w_epoch = li_epoch ledger_info,
      l2w_root_hash = li_transaction_accumulator_hash ledger_info,
      l2w_version = li_version ledger_info,
      l2w_timestamp_usecs = li_timestamp_usecs ledger_info,
      l2w_next_epoch_state = li_next_epoch_state ledger_info\<rparr>"

definition wp_new_any :: "(Ledger2WaypointConverter \<Rightarrow> HashValue) \<Rightarrow> LedgerInfo \<Rightarrow> Waypoint" where
  "wp_new_any H ledger_info =
     \<lparr>wp_version = li_version ledger_info, wp_value = H (l2w_new ledger_info)\<rparr>"

definition wp_new_epoch_boundary ::
  "(Ledger2WaypointConverter \<Rightarrow> HashValue) \<Rightarrow> LedgerInfo \<Rightarrow> (Waypoint, anyhow) result" where
  "wp_new_epoch_boundary H ledger_info =
     rbind (ensure (ends_epoch ledger_info) (Msg ''No validator set'')) (\<lambda>_.
     Ok (wp_new_any H ledger_info))"

definition wp_verify ::
  "(Ledger2WaypointConverter \<Rightarrow> HashValue) \<Rightarrow> Waypoint \<Rightarrow> LedgerInfo \<Rightarrow> (unit, anyhow) result" where
  "wp_verify H wp ledger_info =
     rbind (ensure (li_version ledger_info = wp_version wp) (Msg ''Waypoint version mismatch'')) (\<lambda>_.
     rbind (ensure (H (l2w_new ledger_info) = wp_value wp) (Msg ''Waypoint value mismatch'')) (\<lambda>_.
     Ok ()))"

definition wp_is_ledger_info_stale :: "Waypoint \<Rightarrow> LedgerInfo \<Rightarrow> bool" where
  "wp_is_ledger_info_stale wp ledger_info \<longleftrightarrow> li_version ledger_info < wp_version wp"

definition wp_dyn :: "(Ledger2WaypointConverter \<Rightarrow> HashValue) \<Rightarrow> Waypoint \<Rightarrow> dyn_verifier" where
  "wp_dyn H wp =
     \<lparr>dv_verify = (\<lambda>l. wp_verify H wp (lis_ledger_info l)),
      dv_epoch_change_verification_required = (\<lambda>_. True),
      dv_is_ledger_info_stale = wp_is_ledger_info_stale wp\<rparr>"

section \<open>Waypoints as text\<close>

text \<open>\<open>{:02x}\<close> of each byte, most significant first.\<close>

definition hex_digit :: "nat \<Rightarrow> char" where
  "hex_digit d = ''0123456789abcdef'' ! d"

definition to_hex :: "HashValue \<Rightarrow> string" where
  "to_hex h = map (\<lambda>i. hex_digit (unat (take_bit 4 (drop_bit (4 * i) h)))) (rev [0..<64])"

text \<open>\<open>Display\<close> and \<open>FromStr\<close> of \<open>u64\<close> in the standard library.\<close>

fun show_decimal :: "nat \<Rightarrow> string" where
  "show_decimal n =
     (if n < 10 then [hex_digit n] else show_decimal (n div 10) @ [hex_digit (n mod 10)])"

declare show_decimal.simps [simp del]

definition digit_value :: "char \<Rightarrow> nat option" where
  "digit_value c =
     (if of_char CHR ''0'' \<le> (of_char c :: nat) \<and> (of_char c :: nat) \<le> of_char CHR ''9''
      then Some (of_char c - of_char CHR ''0'') else None)"

fun parse_digits :: "nat \<Rightarrow> string \<Rightarrow> nat option" where
  "parse_digits acc [] = Some acc"
| "parse_digits acc (c # cs) =
     (case digit_value c of
        None \<Rightarrow> None
      | Some d \<Rightarrow> if acc * 10 + d < 2 ^ 64 then parse_digits (acc * 10 + d) cs else None)"

definition parse_u64 :: "string \<Rightarrow> u64 option" where
  "parse_u64 s =
     (let digits = (if s \<noteq> [] \<and> hd s = CHR ''+'' then tl s else s)
      in if digits = [] then None else map_option of_nat (parse_digits 0 digits))"

definition wp_to_string :: "Waypoint \<Rightarrow> string" where
  "wp_to_string wp = show_decimal (unat (wp_version wp)) @ CHR '':'' # to_hex (wp_value wp)"

text \<open>The parser of hexadecimal digits is a third-party crate: the parameter \<open>from_hex\<close>.\<close>

definition wp_from_str :: "(string \<Rightarrow> HashValue option) \<Rightarrow> string \<Rightarrow> (Waypoint, anyhow) result" where
  "wp_from_str from_hex s =
     (let first_part = takeWhile (\<lambda>c. c \<noteq> CHR '':'') s;
          rest = dropWhile (\<lambda>c. c \<noteq> CHR '':'') s
      in rbind (ok_or (parse_u64 first_part) (Msg ''ParseIntError'')) (\<lambda>version.
         rbind (ok_or (case rest of [] \<Rightarrow> None
                       | _ # cs \<Rightarrow> Some (takeWhile (\<lambda>c. c \<noteq> CHR '':'') cs))
                  (Msg ''Failed to parse waypoint string'')) (\<lambda>second_part.
         rbind (ok_or (from_hex second_part) (Msg ''unable to parse HashValue'')) (\<lambda>value.
         Ok \<lparr>wp_version = version, wp_value = value\<rparr>))))"

section \<open>EpochChangeProof\<close>

record EpochChangeProof =
  ecp_ledger_info_with_sigs :: "LedgerInfoWithSignatures list"
  ecp_more :: bool

definition ecp_epoch :: "EpochChangeProof \<Rightarrow> (u64, anyhow) result" where
  "ecp_epoch p =
     ok_or (case ecp_ledger_info_with_sigs p of [] \<Rightarrow> None
            | li # _ \<Rightarrow> Some (li_epoch (lis_ledger_info li)))
       (Msg ''Empty EpochChangeProof'')"

text \<open>The loop of \<open>verify\<close>: \<open>verifier_ref\<close> is the verifier of the next ledger info.\<close>

fun ecp_loop ::
  "LedgerInfo sig_scheme \<Rightarrow> dyn_verifier \<Rightarrow> LedgerInfoWithSignatures list \<Rightarrow> (unit, anyhow) result" where
  "ecp_loop S verifier_ref [] = Ok ()"
| "ecp_loop S verifier_ref (l # ls) =
     rbind (dv_verify verifier_ref l) (\<lambda>_.
     rbind (ok_or (li_next_epoch_state (lis_ledger_info l))
              (Msg ''LedgerInfo doesn't carry a ValidatorSet'')) (\<lambda>es.
     ecp_loop S (es_dyn S es) ls))"

definition ecp_verify ::
  "LedgerInfo sig_scheme \<Rightarrow> EpochChangeProof \<Rightarrow> dyn_verifier
     \<Rightarrow> (LedgerInfoWithSignatures, anyhow) result" where
  "ecp_verify S p verifier =
     (let lis = ecp_ledger_info_with_sigs p
      in rbind (ensure (lis \<noteq> []) (Msg ''The EpochChangeProof is empty'')) (\<lambda>_.
         rbind (ensure (\<not> dv_is_ledger_info_stale verifier (lis_ledger_info (last lis)))
                  (Msg ''The EpochChangeProof is stale as our verifier is already ahead of the entire EpochChangeProof'')) (\<lambda>_.
         rbind (ecp_loop S verifier
                  (dropWhile (\<lambda>l. dv_is_ledger_info_stale verifier (lis_ledger_info l)) lis)) (\<lambda>_.
         Ok (last lis)))))"

section \<open>Chains of epoch changes\<close>

text \<open>\<open>epoch_end S es l es'\<close>: the validators of \<open>es\<close> accepted \<open>l\<close>, which announces \<open>es'\<close>.\<close>

definition epoch_end ::
  "LedgerInfo sig_scheme \<Rightarrow> EpochState \<Rightarrow> LedgerInfoWithSignatures \<Rightarrow> EpochState \<Rightarrow> bool" where
  "epoch_end S es l es' \<longleftrightarrow>
     es_verify S es l = Ok () \<and> li_next_epoch_state (lis_ledger_info l) = Some es'"

inductive epoch_chain ::
  "LedgerInfo sig_scheme \<Rightarrow> EpochState \<Rightarrow> LedgerInfoWithSignatures list \<Rightarrow> EpochState \<Rightarrow> bool"
  for S where
  chain_Nil: "epoch_chain S es [] es"
| chain_Cons: "epoch_end S es l es1 \<Longrightarrow> epoch_chain S es1 ls es2 \<Longrightarrow> epoch_chain S es (l # ls) es2"

inductive_simps epoch_chain_simps [simp]:
  "epoch_chain S es [] es'"
  "epoch_chain S es (l # ls) es'"

lemma es_dyn_simps [simp]:
  "dv_verify (es_dyn S es) = es_verify S es"
  "dv_epoch_change_verification_required (es_dyn S es) = es_epoch_change_verification_required es"
  "dv_is_ledger_info_stale (es_dyn S es) = es_is_ledger_info_stale es"
  by (simp_all add: es_dyn_def)

lemma ecp_loop_chain:
  "ecp_loop S (es_dyn S es) ls = Ok () \<longleftrightarrow> (\<exists>es'. epoch_chain S es ls es')"
  by (induction ls arbitrary: es) (fastforce simp: epoch_end_def)+

lemma epoch_chain_last:
  "epoch_chain S es ls es' \<Longrightarrow> ls \<noteq> [] \<Longrightarrow>
     li_next_epoch_state (lis_ledger_info (last ls)) = Some es'"
  by (induction rule: epoch_chain.induct) (auto simp: epoch_end_def elim: epoch_chain.cases)

lemma ecp_verify_Ok:
  assumes "ecp_verify S p v = Ok l"
  defines "rest \<equiv> dropWhile (\<lambda>l. dv_is_ledger_info_stale v (lis_ledger_info l)) (ecp_ledger_info_with_sigs p)"
  shows "rest \<noteq> []" and "l = last rest" and "ecp_loop S v rest = Ok ()"
    and "\<not> dv_is_ledger_info_stale v (lis_ledger_info l)"
proof -
  let ?stale = "\<lambda>l. dv_is_ledger_info_stale v (lis_ledger_info l)"
  from assms(1) have ne: "ecp_ledger_info_with_sigs p \<noteq> []"
    and fresh: "\<not> ?stale (last (ecp_ledger_info_with_sigs p))"
    and l: "l = last (ecp_ledger_info_with_sigs p)"
    and loop: "ecp_loop S v rest = Ok ()"
    by (auto simp: ecp_verify_def rest_def Let_def)
  from ne fresh show "rest \<noteq> []"
    unfolding rest_def dropWhile_eq_Nil_conv using last_in_set by blast
  then show "l = last rest" 
    unfolding l rest_def by (metis last_appendR takeWhile_dropWhile_id)
  show "ecp_loop S v rest = Ok ()" by (rule loop)
  show "\<not> ?stale l" using fresh l by simp
qed

lemma ecp_verify_chain:
  assumes "ecp_verify S p (es_dyn S es) = Ok l"
  obtains stale rest es' where "ecp_ledger_info_with_sigs p = stale @ rest"
    and "\<forall>l' \<in> set stale. li_epoch (lis_ledger_info l') < es_epoch es"
    and "rest \<noteq> []" and "l = last rest" and "epoch_chain S es rest es'"
    and "li_next_epoch_state (lis_ledger_info l) = Some es'"
proof -
  let ?stale = "\<lambda>l. dv_is_ledger_info_stale (es_dyn S es) (lis_ledger_info l)"
  let ?rest = "dropWhile ?stale (ecp_ledger_info_with_sigs p)"
  let ?pre = "takeWhile ?stale (ecp_ledger_info_with_sigs p)"
  note ok = ecp_verify_Ok [OF assms]
  obtain es' where es': "epoch_chain S es ?rest es'" using ok(3) by (auto simp: ecp_loop_chain)
  from epoch_chain_last [OF this ok(1)] ok(2)
  have "li_next_epoch_state (lis_ledger_info l) = Some es'" by simp
  moreover have "\<forall>l' \<in> set ?pre. li_epoch (lis_ledger_info l') < es_epoch es"
    by (auto dest!: set_takeWhileD simp: es_is_ledger_info_stale_def)
  ultimately show thesis using that [of ?pre ?rest es'] ok es' by simp
qed

section \<open>Agreement on validator sets\<close>

text \<open>
  \<open>unforgeable S vv byz hsigned\<close>: a signature that verifies under the key of a validator outside
  \<open>byz\<close> is on a message that validator signed. \<open>trustworthy\<close>: a well-formed validator set of
  which at most a third of the voting power is in \<open>byz\<close>.
\<close>

definition unforgeable ::
  "'m sig_scheme \<Rightarrow> ValidatorVerifier \<Rightarrow> AccountAddress set \<Rightarrow> (AccountAddress \<Rightarrow> 'm set) \<Rightarrow> bool" where
  "unforgeable S vv byz hsigned \<longleftrightarrow> (\<forall>a pk m sg. a \<notin> byz \<longrightarrow> get_public_key vv a = Some pk \<longrightarrow>
     verify_struct_signature S pk m sg \<longrightarrow> m \<in> hsigned a)"

definition trustworthy ::
  "'m sig_scheme \<Rightarrow> AccountAddress set \<Rightarrow> (AccountAddress \<Rightarrow> 'm set) \<Rightarrow> ValidatorVerifier \<Rightarrow> bool" where
  "trustworthy S byz hsigned vv \<longleftrightarrow> vv_valid vv \<and> unforgeable S vv byz hsigned
     \<and> 3 * voting_power vv (byz \<inter> validators vv) \<le> voting_power vv (validators vv)"

text \<open>
  What a correct validator does at the end of an epoch: it announces a trustworthy validator set
  for the next epoch, and never two different ones for the same epoch.
\<close>

definition correct_epoch_ends ::
  "LedgerInfo sig_scheme \<Rightarrow> AccountAddress set \<Rightarrow> (AccountAddress \<Rightarrow> LedgerInfo set) \<Rightarrow> bool" where
  "correct_epoch_ends S byz hsigned \<longleftrightarrow> (\<forall>a. a \<notin> byz \<longrightarrow> (\<forall>m \<in> hsigned a. \<forall>es.
     li_next_epoch_state m = Some es \<longrightarrow>
       unat (es_epoch es) = unat (li_epoch m) + 1 \<and> trustworthy S byz hsigned (es_verifier es) \<and>
       (\<forall>m' \<in> hsigned a. \<forall>es'. li_next_epoch_state m' = Some es' \<longrightarrow> li_epoch m' = li_epoch m \<longrightarrow> es' = es)))"

lemma trustworthy_common_signer:
  assumes t: "trustworthy S byz hsigned vv"
    and q: "quorum_signed S vv m sigs" "quorum_signed S vv m' sigs'"
  obtains a where "a \<notin> byz" and "m \<in> hsigned a" and "m' \<in> hsigned a" and "a \<in> validators vv"
proof -
  from t q have "vv_valid vv" "vq.quorum vv (fset (fmdom sigs))" "vq.quorum vv (fset (fmdom sigs'))"
    "3 * sum (power_of vv) (byz \<inter> validators vv) \<le> sum (power_of vv) (validators vv)"
    by (simp_all add: trustworthy_def quorum_signed_def voting_power_def)
  then obtain a where a: "a |\<in>| fmdom sigs" "a |\<in>| fmdom sigs'" "a \<notin> byz" "a \<in> validators vv"
    by (rule vq.quorum_inter_outside) auto
  from a(1,2) obtain sg sg' where "fmlookup sigs a = Some sg" "fmlookup sigs' a = Some sg'"
    by (auto simp: fmlookup_dom_iff)
  with t q a(3) have "m \<in> hsigned a" "m' \<in> hsigned a"
    unfolding trustworthy_def quorum_signed_def unforgeable_def by metis+
  with a that show thesis by blast
qed

lemma epoch_end_unique:
  assumes "batch_sound S" and "correct_epoch_ends S byz hsigned"
    and t: "trustworthy S byz hsigned (es_verifier es)"
    and e: "epoch_end S es l1 es1" "epoch_end S es l2 es2"
  shows "es1 = es2" and "unat (es_epoch es1) = unat (es_epoch es) + 1"
    and "trustworthy S byz hsigned (es_verifier es1)"
proof -
  have v: "vv_valid (es_verifier es)" using t by (simp add: trustworthy_def)
  note ok = es_verify_Ok [OF v assms(1)]
  from e have q: "quorum_signed S (es_verifier es) (lis_ledger_info l1) (lis_signatures l1)"
      "quorum_signed S (es_verifier es) (lis_ledger_info l2) (lis_signatures l2)"
    and ep: "li_epoch (lis_ledger_info l1) = es_epoch es" "li_epoch (lis_ledger_info l2) = es_epoch es"
    by (simp_all add: epoch_end_def ok)
  obtain a where "a \<notin> byz" "lis_ledger_info l1 \<in> hsigned a" "lis_ledger_info l2 \<in> hsigned a"
    using trustworthy_common_signer [OF t q] by blast
  with assms(2) e ep show "es1 = es2" "unat (es_epoch es1) = unat (es_epoch es) + 1"
    "trustworthy S byz hsigned (es_verifier es1)"
    unfolding correct_epoch_ends_def epoch_end_def by metis+
qed

lemma epoch_chain_epochs:
  assumes "epoch_chain S es ls es'" and "batch_sound S" and "correct_epoch_ends S byz hsigned"
    and "trustworthy S byz hsigned (es_verifier es)"
  shows "unat (es_epoch es') = unat (es_epoch es) + length ls"
  using assms
proof (induction rule: epoch_chain.induct)
  case (chain_Cons es l es1 ls es2)
  from epoch_end_unique [OF chain_Cons.prems chain_Cons.hyps(1,1)] chain_Cons.IH chain_Cons.prems
  show ?case by simp
qed simp

lemma epoch_chain_unique:
  assumes "batch_sound S" and "correct_epoch_ends S byz hsigned"
    and "trustworthy S byz hsigned (es_verifier es)"
    and "epoch_chain S es ls1 es1" and "epoch_chain S es ls2 es2" and "length ls1 = length ls2"
  shows "es1 = es2"
  using assms(3-)
proof (induction ls1 arbitrary: es ls2)
  case (Cons l1 ls1)
  then obtain l2 ls2' where ls2: "ls2 = l2 # ls2'" by (cases ls2) auto
  from Cons.prems(2) obtain f1 where f1: "epoch_end S es l1 f1" "epoch_chain S f1 ls1 es1" by auto
  from Cons.prems(3) ls2 obtain f2 where f2: "epoch_end S es l2 f2" "epoch_chain S f2 ls2' es2" by auto
  note u = epoch_end_unique [OF assms(1,2) Cons.prems(1) f1(1) f2(1)]
  show ?case
    using Cons.IH [OF u(3) f1(2), of ls2'] f2(2) u(1) Cons.prems(4) ls2 by simp
qed simp

section \<open>Round trip of the textual form\<close>

lemma digit_value_hex_digit: "d < 10 \<Longrightarrow> digit_value (hex_digit d) = Some d"
  by (auto simp: less_Suc_eq numeral_eq_Suc hex_digit_def digit_value_def)

lemma parse_digits_snoc:
  "parse_digits acc (cs @ [c]) = (case parse_digits acc cs of None \<Rightarrow> None | Some a \<Rightarrow> parse_digits a [c])"
  by (induction cs arbitrary: acc) (auto split: option.splits)

lemma parse_show_decimal: "n < 2 ^ 64 \<Longrightarrow> parse_digits 0 (show_decimal n) = Some n"
proof (induction n rule: show_decimal.induct)
  case (1 n)
  show ?case
  proof (cases "n < 10")
    case True
    then show ?thesis by (subst show_decimal.simps) (simp add: digit_value_hex_digit)
  next
    case False
    with 1 have "parse_digits 0 (show_decimal (n div 10)) = Some (n div 10)" by simp
    moreover have "n div 10 * 10 + n mod 10 = n" by (simp add: div_mult_mod_eq)
    ultimately show ?thesis
      using False 1(2) by (subst show_decimal.simps) (simp add: parse_digits_snoc digit_value_hex_digit)
  qed
qed

lemma hex_digit_plain: "d < 16 \<Longrightarrow> hex_digit d \<noteq> CHR '':'' \<and> hex_digit d \<noteq> CHR ''+''"
  by (auto simp: less_Suc_eq numeral_eq_Suc hex_digit_def)

lemma show_decimal_plain: "c \<in> set (show_decimal n) \<Longrightarrow> c \<noteq> CHR '':'' \<and> c \<noteq> CHR ''+''"
proof (induction n rule: show_decimal.induct)
  case (1 n)
  from 1(2) consider "n < 10" "c = hex_digit n" | "\<not> n < 10" "c \<in> set (show_decimal (n div 10))"
    | "c = hex_digit (n mod 10)"
    by (subst (asm) show_decimal.simps) (auto split: if_splits)
  then show ?case using 1(1) hex_digit_plain [of n] hex_digit_plain [of "n mod 10"] by cases auto
qed

lemma show_decimal_not_Nil: "show_decimal n \<noteq> []"
  by (subst show_decimal.simps) simp

lemma to_hex_plain: "c \<in> set (to_hex h) \<Longrightarrow> c \<noteq> CHR '':''"
proof -
  have "unat (take_bit 4 (drop_bit (4 * i) h)) < 16" for i
    using take_bit_nat_less_exp [of 4 "unat (drop_bit (4 * i) h)"] by (simp add: unsigned_take_bit_eq)
  from hex_digit_plain [OF this] show "c \<in> set (to_hex h) \<Longrightarrow> c \<noteq> CHR '':''"
    by (auto simp: to_hex_def)
qed

lemma parse_u64_show_decimal: "parse_u64 (show_decimal (unat v)) = Some v"
proof -
  have "hd (show_decimal (unat v)) \<noteq> CHR ''+''"
    using show_decimal_plain hd_in_set [OF show_decimal_not_Nil] by blast
  moreover have "unat v < 2 ^ 64" using unsigned_less [of v, where ?'a = nat] by simp
  ultimately show ?thesis
    using parse_show_decimal [of "unat v"] show_decimal_not_Nil [of "unat v"]
    by (simp add: parse_u64_def)
qed

lemma takeWhile_no_colon:
  assumes "\<And>c. c \<in> set cs \<Longrightarrow> c \<noteq> CHR '':''"
  shows "takeWhile (\<lambda>c. c \<noteq> CHR '':'') cs = cs"
    and "dropWhile (\<lambda>c. c \<noteq> CHR '':'') (cs @ CHR '':'' # ds) = CHR '':'' # ds"
    and "takeWhile (\<lambda>c. c \<noteq> CHR '':'') (cs @ CHR '':'' # ds) = cs"
  using assms by (induction cs) auto

section \<open>Properties\<close>

text \<open>An epoch of four validators that ends by announcing the same validators for the next one.\<close>

definition first_epoch :: EpochState where
  "first_epoch = \<lparr>es_epoch = 1, es_verifier = four_verifier\<rparr>"

definition first_epoch_end :: LedgerInfo where
  "first_epoch_end = \<lparr>li_commit_info = bi_empty\<lparr>bi_epoch := 1, bi_version := 10,
     bi_next_epoch_state := Some \<lparr>es_epoch = 2, es_verifier = four_verifier\<rparr>\<rparr>,
     li_consensus_data_hash = 7\<rparr>"

definition first_epoch_proof :: EpochChangeProof where
  "first_epoch_proof = \<lparr>ecp_ledger_info_with_sigs = [\<lparr>lis_ledger_info = first_epoch_end,
     lis_signatures = fmap_of_list [(1, 11), (2, 12), (3, 13)]\<rparr>], ecp_more = False\<rparr>"

definition first_epoch_scheme :: "LedgerInfo sig_scheme" where
  "first_epoch_scheme = key_scheme (\<lambda>m. m = first_epoch_end)"

lemma first_epoch_verify:
  "ecp_verify first_epoch_scheme first_epoch_proof (es_dyn first_epoch_scheme first_epoch) =
     Ok (hd (ecp_ledger_info_with_sigs first_epoch_proof))"
  by (simp add: ecp_verify_def first_epoch_proof_def first_epoch_def es_is_ledger_info_stale_def
      es_verify_def lis_verify_signatures_def first_epoch_scheme_def four_defs)
    (simp add: first_epoch_end_def bi_empty_def)

lemma first_epoch_trustworthy:
  "trustworthy first_epoch_scheme {4} (\<lambda>_. {first_epoch_end}) four_verifier"
  by (simp add: trustworthy_def unforgeable_def first_epoch_scheme_def key_scheme_eval four_voting_power)

lemma first_epoch_correct: "correct_epoch_ends first_epoch_scheme {4} (\<lambda>_. {first_epoch_end})"
  using first_epoch_trustworthy
  by (simp add: correct_epoch_ends_def first_epoch_end_def bi_empty_def)

text \<open>
  C15: An accepted \<open>EpochChangeProof\<close> starts with ledger infos older than the trusted epoch, which
  are skipped, followed by a nonempty chain in which every ledger info is accepted by the validator
  set announced by the one before it; the result is the last of them, and it announces the
  validator set the chain ends in.
\<close>

theorem epoch_change_proof_is_chain:
  assumes "ecp_verify S p (es_dyn S es) = Ok l"
  shows "\<exists>stale rest es'. ecp_ledger_info_with_sigs p = stale @ rest
    \<and> (\<forall>l' \<in> set stale. li_epoch (lis_ledger_info l') < es_epoch es)
    \<and> rest \<noteq> [] \<and> l = last rest \<and> epoch_chain S es rest es'
    \<and> li_next_epoch_state (lis_ledger_info l) = Some es'"
  by (rule ecp_verify_chain [OF assms]) blast

theorem epoch_change_proof_is_chain_witness:
  "\<exists>rest es'. rest \<noteq> [] \<and> epoch_chain first_epoch_scheme first_epoch rest es'"
  using epoch_change_proof_is_chain [OF first_epoch_verify] by blast

text \<open>
  C7: Clients that start from the same trusted validator set never come to trust different
  validator sets for the same epoch, whatever \<open>EpochChangeProof\<close>s they accept: with at most a
  third of the voting power of each epoch in faulty hands, two accepted proofs that lead to the
  same epoch lead to the same \<open>EpochState\<close>.
\<close>

theorem epoch_change_proofs_agree:
  assumes "batch_sound S" and "correct_epoch_ends S byz hsigned"
    and "trustworthy S byz hsigned (es_verifier es)"
    and "ecp_verify S p1 (es_dyn S es) = Ok l1"
    and "li_next_epoch_state (lis_ledger_info l1) = Some es1"
    and "ecp_verify S p2 (es_dyn S es) = Ok l2"
    and "li_next_epoch_state (lis_ledger_info l2) = Some es2"
    and "es_epoch es1 = es_epoch es2"
  shows "es1 = es2"
proof -
  obtain ls1 where c1: "epoch_chain S es ls1 es1"
    using ecp_verify_chain [OF assms(4)] assms(5) by (metis option.inject)
  obtain ls2 where c2: "epoch_chain S es ls2 es2"
    using ecp_verify_chain [OF assms(6)] assms(7) by (metis option.inject)
  from epoch_chain_epochs [OF c1 assms(1-3)] epoch_chain_epochs [OF c2 assms(1-3)] assms(8)
  have "length ls1 = length ls2" by simp
  then show ?thesis by (rule epoch_chain_unique [OF assms(1-3) c1 c2])
qed

theorem epoch_change_proofs_agree_witness:
  "\<lparr>es_epoch = 2, es_verifier = four_verifier\<rparr> = \<lparr>es_epoch = 2, es_verifier = four_verifier\<rparr>"
  by (rule epoch_change_proofs_agree [where es = first_epoch and S = first_epoch_scheme
        and byz = "{4}" and hsigned = "\<lambda>_. {first_epoch_end}"
        and ?p1.0 = first_epoch_proof and ?p2.0 = first_epoch_proof,
        OF _ first_epoch_correct _ first_epoch_verify _ first_epoch_verify])
    (simp_all add: first_epoch_scheme_def first_epoch_proof_def first_epoch_end_def first_epoch_def
      first_epoch_trustworthy [unfolded first_epoch_scheme_def first_epoch_end_def])

text \<open>
  C16: Printing a waypoint and parsing it back gives the waypoint: version in decimal, a colon,
  the hash in hexadecimal. \<open>from_hex\<close> is required to invert \<open>to_hex\<close> on this hash only.
\<close>

theorem waypoint_string_roundtrip:
  assumes "from_hex (to_hex (wp_value wp)) = Some (wp_value wp)"
  shows "wp_from_str from_hex (wp_to_string wp) = Ok wp"
proof -
  let ?d = "show_decimal (unat (wp_version wp))" and ?h = "to_hex (wp_value wp)"
  have d: "c \<in> set ?d \<Longrightarrow> c \<noteq> CHR '':''" for c using show_decimal_plain by blast
  have h: "takeWhile (\<lambda>c. c \<noteq> CHR '':'') ?h = ?h" by (rule takeWhile_no_colon(1)) (rule to_hex_plain)
  show ?thesis
    using assms by (simp add: wp_from_str_def wp_to_string_def Let_def parse_u64_show_decimal
        takeWhile_no_colon [OF d] h)
qed

theorem waypoint_string_roundtrip_witness:
  "wp_from_str (\<lambda>s. if s = to_hex 5 then Some 5 else None)
     (wp_to_string \<lparr>wp_version = 123, wp_value = 5\<rparr>) = Ok \<lparr>wp_version = 123, wp_value = 5\<rparr>"
  by (rule waypoint_string_roundtrip) simp

end
