(* ===== verification/ConsensusTypes.thy ===== *)
theory ConsensusTypes
  imports Accumulator EpochChange
begin

text \<open>
  The messages of consensus, \<open>src/consensus/consensus-types/src\<close>: blocks, votes, timeouts, quorum
  and timeout certificates, and the checks a receiver makes on them.

  Signatures and hashes over the BCS bytes of a struct are the fields of \<open>consensus_crypto\<close>, which
  every operation that needs one takes as its argument \<open>C\<close>. The clock that \<open>verify_well_formed\<close>
  reads is the argument \<open>now\<close>, in microseconds. The \<open>id\<close> of a block is a field of the struct, set
  to the hash of the block data by every constructor.
\<close>

section \<open>Transactions\<close>

text \<open>
  \<open>src/types/src/transaction/mod.rs\<close>. The payload and the authenticator are enums that consensus
  and mempool only store, compare and measure: they are kept as bytes.
\<close>

record RawTransaction =
  rt_sender :: AccountAddress
  rt_sequence_number :: u64
  rt_payload :: "8 word list"
  rt_max_gas_amount :: u64
  rt_gas_unit_price :: u64
  rt_gas_currency_code :: string
  rt_expiration_timestamp_secs :: u64
  rt_chain_id :: "8 word"

record SignedTransaction =
  st_raw_txn :: RawTransaction
  st_authenticator :: "8 word list"

type_synonym Author = AccountAddress
type_synonym Payload = "SignedTransaction list"

section \<open>VoteData and QuorumCert\<close>

record VoteData =
  vd_proposed :: BlockInfo
  vd_parent :: BlockInfo

record QuorumCert =
  qc_vote_data :: VoteData
  qc_signed_ledger_info :: LedgerInfoWithSignatures

definition qc_certified_block :: "QuorumCert \<Rightarrow> BlockInfo" where
  [simp]: "qc_certified_block qc = vd_proposed (qc_vote_data qc)"

definition qc_parent_block :: "QuorumCert \<Rightarrow> BlockInfo" where
  [simp]: "qc_parent_block qc = vd_parent (qc_vote_data qc)"

definition qc_ledger_info :: "QuorumCert \<Rightarrow> LedgerInfoWithSignatures" where
  [simp]: "qc_ledger_info qc = qc_signed_ledger_info qc"

definition qc_commit_info :: "QuorumCert \<Rightarrow> BlockInfo" where
  [simp]: "qc_commit_info qc = li_commit_info (lis_ledger_info (qc_ledger_info qc))"

definition qc_ends_epoch :: "QuorumCert \<Rightarrow> bool" where
  "qc_ends_epoch qc = ends_epoch (lis_ledger_info (qc_signed_ledger_info qc))"

section \<open>Blocks\<close>

datatype BlockType =
    Proposal Payload Author
  | NilBlock
  | Genesis

record BlockData =
  bd_epoch :: u64
  bd_round :: Round
  bd_timestamp_usecs :: u64
  bd_quorum_cert :: QuorumCert
  bd_block_type :: BlockType

record Block =
  blk_id :: HashValue
  blk_block_data :: BlockData
  blk_signature :: "Ed25519Signature option"

section \<open>Votes, timeouts and vote proposals\<close>

record Timeout =
  to_epoch :: u64
  to_round :: Round

record Vote =
  vote_vote_data :: VoteData
  vote_author :: Author
  vote_ledger_info :: LedgerInfo
  vote_signature :: Ed25519Signature
  vote_timeout_signature :: "Ed25519Signature option"

record TimeoutCertificate =
  tc_timeout :: Timeout
  tc_signatures :: "(Author, Ed25519Signature) fmap"

record TwoChainTimeout =
  tct_epoch :: u64
  tct_round :: Round
  tct_quorum_cert :: QuorumCert

record TimeoutSigningRepr =
  tsr_epoch :: u64
  tsr_round :: Round
  tsr_hqc_round :: Round

record TwoChainTimeoutCertificate =
  tctc_timeout :: TwoChainTimeout
  tctc_signatures :: "(Author, Round \<times> Ed25519Signature) fmap"

record VoteProposal =
  vp_accumulator_extension_proof :: AccumulatorExtensionProof
  vp_block :: Block
  vp_next_epoch_state :: "EpochState option"

record MaybeSignedVoteProposal =
  mvp_vote_proposal :: VoteProposal
  mvp_signature :: "Ed25519Signature option"

section \<open>Signatures and hashes\<close>

record consensus_crypto =
  cc_ledger_info :: "LedgerInfo sig_scheme"
  cc_block_data :: "BlockData sig_scheme"
  cc_timeout :: "Timeout sig_scheme"
  cc_timeout_repr :: "TimeoutSigningRepr sig_scheme"
  cc_vote_proposal :: "VoteProposal sig_scheme"
  hash_vote_data :: "VoteData \<Rightarrow> HashValue"
  hash_block_data :: "BlockData \<Rightarrow> HashValue"
  hash_ledger_info :: "LedgerInfo \<Rightarrow> HashValue"
  hash_node :: hasher
  hash_waypoint :: "Ledger2WaypointConverter \<Rightarrow> HashValue"
  public_key_of :: "Ed25519PrivateKey \<Rightarrow> Ed25519PublicKey"

section \<open>Operations on VoteData and QuorumCert\<close>

definition vd_verify :: "VoteData \<Rightarrow> (unit, anyhow) result" where
  "vd_verify vd =
     rbind (ensure (bi_epoch (vd_parent vd) = bi_epoch (vd_proposed vd))
              (Msg ''Parent and proposed epochs do not match'')) (\<lambda>_.
     rbind (ensure (bi_round (vd_parent vd) < bi_round (vd_proposed vd))
              (Msg ''Proposed round is less than parent round'')) (\<lambda>_.
     rbind (ensure (bi_timestamp_usecs (vd_parent vd) \<le> bi_timestamp_usecs (vd_proposed vd))
              (Msg ''Proposed happened before parent'')) (\<lambda>_.
     rbind (ensure (bi_version (vd_proposed vd) = 0
                    \<or> bi_version (vd_parent vd) \<le> bi_version (vd_proposed vd))
              (Msg ''Proposed version is less than parent version'')) (\<lambda>_.
     Ok ()))))"

text \<open>\<open>None\<close> is the panic on an overflowing epoch.\<close>

definition certificate_for_genesis_from_ledger_info ::
  "consensus_crypto \<Rightarrow> LedgerInfo \<Rightarrow> HashValue \<Rightarrow> QuorumCert option" where
  "certificate_for_genesis_from_ledger_info C ledger_info genesis_id =
     map_option (\<lambda>next_epoch.
       let ancestor = \<lparr>bi_epoch = next_epoch, bi_round = 0, bi_id = genesis_id,
             bi_executed_state_id = li_transaction_accumulator_hash ledger_info,
             bi_version = li_version ledger_info,
             bi_timestamp_usecs = li_timestamp_usecs ledger_info, bi_next_epoch_state = None\<rparr>;
           vote_data = \<lparr>vd_proposed = ancestor, vd_parent = ancestor\<rparr>;
           li = \<lparr>li_commit_info = ancestor, li_consensus_data_hash = hash_vote_data C vote_data\<rparr>
       in \<lparr>qc_vote_data = vote_data,
           qc_signed_ledger_info = \<lparr>lis_ledger_info = li, lis_signatures = fmempty\<rparr>\<rparr>)
     (checked_add (li_epoch ledger_info) 1)"

definition qc_verify :: "consensus_crypto \<Rightarrow> QuorumCert \<Rightarrow> ValidatorVerifier \<Rightarrow> (unit, anyhow) result" where
  "qc_verify C qc validator =
     rbind (ensure (li_consensus_data_hash (lis_ledger_info (qc_ledger_info qc))
                    = hash_vote_data C (qc_vote_data qc))
              (Msg ''Quorum Cert's hash mismatch LedgerInfo'')) (\<lambda>_.
     if bi_round (qc_certified_block qc) = 0 then
       rbind (ensure (qc_parent_block qc = qc_certified_block qc)
                (Msg ''Genesis QC has inconsistent parent block with certified block'')) (\<lambda>_.
       rbind (ensure (qc_certified_block qc = li_commit_info (lis_ledger_info (qc_ledger_info qc)))
                (Msg ''Genesis QC has inconsistent commit block with certified block'')) (\<lambda>_.
       rbind (ensure (fmdom (lis_signatures (qc_ledger_info qc)) = {||})
                (Msg ''Genesis QC should not carry signatures'')) (\<lambda>_.
       Ok ())))
     else
       rbind (map_err (\<lambda>e. WithContext ''Fail to verify QuorumCert'' (FromVerifyError e))
                (lis_verify_signatures (cc_ledger_info C) (qc_ledger_info qc) validator)) (\<lambda>_.
       rbind (vd_verify (qc_vote_data qc)) (\<lambda>_.
       Ok ())))"

section \<open>Operations on blocks\<close>

definition bd_author :: "BlockData \<Rightarrow> Author option" where
  "bd_author bd = (case bd_block_type bd of Proposal _ author \<Rightarrow> Some author | _ \<Rightarrow> None)"

definition bd_parent_id :: "BlockData \<Rightarrow> HashValue" where
  "bd_parent_id bd = bi_id (qc_certified_block (bd_quorum_cert bd))"

definition bd_payload :: "BlockData \<Rightarrow> Payload option" where
  "bd_payload bd = (case bd_block_type bd of Proposal payload _ \<Rightarrow> Some payload | _ \<Rightarrow> None)"

definition bd_is_genesis_block :: "BlockData \<Rightarrow> bool" where
  "bd_is_genesis_block bd \<longleftrightarrow> bd_block_type bd = Genesis"

definition bd_is_nil_block :: "BlockData \<Rightarrow> bool" where
  "bd_is_nil_block bd \<longleftrightarrow> bd_block_type bd = NilBlock"

definition bd_new_genesis :: "u64 \<Rightarrow> QuorumCert \<Rightarrow> BlockData" where
  "bd_new_genesis timestamp_usecs quorum_cert =
     \<lparr>bd_epoch = bi_epoch (qc_certified_block quorum_cert) + 1, bd_round = 0,
      bd_timestamp_usecs = timestamp_usecs, bd_quorum_cert = quorum_cert,
      bd_block_type = Genesis\<rparr>"

text \<open>\<open>None\<close> is the failed \<open>assert!\<close>.\<close>

definition bd_new_genesis_from_ledger_info :: "LedgerInfo \<Rightarrow> BlockData option" where
  "bd_new_genesis_from_ledger_info ledger_info =
     (if \<not> ends_epoch ledger_info then None
      else
        let ancestor = \<lparr>bi_epoch = li_epoch ledger_info, bi_round = 0, bi_id = 0,
              bi_executed_state_id = li_transaction_accumulator_hash ledger_info,
              bi_version = li_version ledger_info,
              bi_timestamp_usecs = li_timestamp_usecs ledger_info, bi_next_epoch_state = None\<rparr>;
            genesis_quorum_cert =
              \<lparr>qc_vote_data = \<lparr>vd_proposed = ancestor, vd_parent = ancestor\<rparr>,
               qc_signed_ledger_info =
                 \<lparr>lis_ledger_info = \<lparr>li_commit_info = ancestor, li_consensus_data_hash = 0\<rparr>,
                  lis_signatures = fmempty\<rparr>\<rparr>
        in Some (bd_new_genesis (li_timestamp_usecs ledger_info) genesis_quorum_cert))"

definition bd_new_nil :: "Round \<Rightarrow> QuorumCert \<Rightarrow> BlockData" where
  "bd_new_nil rnd quorum_cert =
     \<lparr>bd_epoch = bi_epoch (qc_certified_block quorum_cert), bd_round = rnd,
      bd_timestamp_usecs = bi_timestamp_usecs (qc_certified_block quorum_cert),
      bd_quorum_cert = quorum_cert, bd_block_type = NilBlock\<rparr>"

definition bd_new_proposal :: "Payload \<Rightarrow> Author \<Rightarrow> Round \<Rightarrow> u64 \<Rightarrow> QuorumCert \<Rightarrow> BlockData" where
  "bd_new_proposal payload author rnd timestamp_usecs quorum_cert =
     \<lparr>bd_epoch = bi_epoch (qc_certified_block quorum_cert), bd_round = rnd,
      bd_timestamp_usecs = timestamp_usecs, bd_quorum_cert = quorum_cert,
      bd_block_type = Proposal payload author\<rparr>"

definition blk_author :: "Block \<Rightarrow> Author option" where
  [simp]: "blk_author b = bd_author (blk_block_data b)"

definition blk_epoch :: "Block \<Rightarrow> u64" where
  [simp]: "blk_epoch b = bd_epoch (blk_block_data b)"

definition blk_quorum_cert :: "Block \<Rightarrow> QuorumCert" where
  [simp]: "blk_quorum_cert b = bd_quorum_cert (blk_block_data b)"

definition blk_parent_id :: "Block \<Rightarrow> HashValue" where
  [simp]: "blk_parent_id b = bi_id (qc_certified_block (bd_quorum_cert (blk_block_data b)))"

definition blk_payload :: "Block \<Rightarrow> Payload option" where
  [simp]: "blk_payload b = bd_payload (blk_block_data b)"

definition blk_round :: "Block \<Rightarrow> Round" where
  [simp]: "blk_round b = bd_round (blk_block_data b)"

definition blk_timestamp_usecs :: "Block \<Rightarrow> u64" where
  [simp]: "blk_timestamp_usecs b = bd_timestamp_usecs (blk_block_data b)"

definition blk_is_genesis_block :: "Block \<Rightarrow> bool" where
  [simp]: "blk_is_genesis_block b = bd_is_genesis_block (blk_block_data b)"

definition blk_is_nil_block :: "Block \<Rightarrow> bool" where
  [simp]: "blk_is_nil_block b = bd_is_nil_block (blk_block_data b)"

definition gen_block_info :: "Block \<Rightarrow> HashValue \<Rightarrow> Version \<Rightarrow> EpochState option \<Rightarrow> BlockInfo" where
  "gen_block_info b executed_state_id version next_epoch_state =
     \<lparr>bi_epoch = blk_epoch b, bi_round = blk_round b, bi_id = blk_id b,
      bi_executed_state_id = executed_state_id, bi_version = version,
      bi_timestamp_usecs = blk_timestamp_usecs b, bi_next_epoch_state = next_epoch_state\<rparr>"

definition make_genesis_block_from_ledger_info :: "consensus_crypto \<Rightarrow> LedgerInfo \<Rightarrow> Block option" where
  "make_genesis_block_from_ledger_info C ledger_info =
     map_option (\<lambda>block_data.
       \<lparr>blk_id = hash_block_data C block_data, blk_block_data = block_data, blk_signature = None\<rparr>)
     (bd_new_genesis_from_ledger_info ledger_info)"

definition blk_new_nil :: "consensus_crypto \<Rightarrow> Round \<Rightarrow> QuorumCert \<Rightarrow> Block" where
  "blk_new_nil C rnd quorum_cert =
     (let block_data = bd_new_nil rnd quorum_cert
      in \<lparr>blk_id = hash_block_data C block_data, blk_block_data = block_data, blk_signature = None\<rparr>)"

definition new_proposal_from_block_data_and_signature ::
  "consensus_crypto \<Rightarrow> BlockData \<Rightarrow> Ed25519Signature \<Rightarrow> Block" where
  "new_proposal_from_block_data_and_signature C block_data signature =
     \<lparr>blk_id = hash_block_data C block_data, blk_block_data = block_data,
      blk_signature = Some signature\<rparr>"

definition validate_signature ::
  "consensus_crypto \<Rightarrow> Block \<Rightarrow> ValidatorVerifier \<Rightarrow> (unit, anyhow) result" where
  "validate_signature C b validator =
     (case bd_block_type (blk_block_data b) of
        Genesis \<Rightarrow> Err (Msg ''We should not accept genesis from others'')
      | NilBlock \<Rightarrow> qc_verify C (blk_quorum_cert b) validator
      | Proposal _ author \<Rightarrow>
          rbind (ok_or (blk_signature b) (Msg ''Missing signature in Proposal'')) (\<lambda>signature.
          rbind (map_err FromVerifyError
                   (vv_verify (cc_block_data C) validator author (blk_block_data b) signature)) (\<lambda>_.
          qc_verify C (blk_quorum_cert b) validator)))"

definition TIMEBOUND :: u64 where
  "TIMEBOUND = 300000000"

definition blk_verify_well_formed :: "u64 \<Rightarrow> Block \<Rightarrow> (unit, anyhow) result" where
  "blk_verify_well_formed now b =
     rbind (ensure (\<not> blk_is_genesis_block b) (Msg ''We must not accept genesis from others'')) (\<lambda>_.
     let parent = qc_certified_block (blk_quorum_cert b)
     in rbind (ensure (bi_round parent < blk_round b)
                 (Msg ''Block must have a greater round than parent's block'')) (\<lambda>_.
        rbind (ensure (bi_epoch parent = blk_epoch b)
                 (Msg ''block's parent should be in the same epoch'')) (\<lambda>_.
        rbind (if has_reconfiguration parent
               then ensure (case blk_payload b of None \<Rightarrow> True | Some p \<Rightarrow> p = [])
                      (Msg ''Reconfiguration suffix should not carry payload'')
               else Ok ()) (\<lambda>_.
        rbind (if blk_is_nil_block b \<or> has_reconfiguration parent
               then ensure (blk_timestamp_usecs b = bi_timestamp_usecs parent)
                      (Msg ''Nil/reconfig suffix block must have same timestamp as parent'')
               else
                 rbind (ensure (blk_timestamp_usecs b > bi_timestamp_usecs parent)
                          (Msg ''Blocks must have strictly increasing timestamps'')) (\<lambda>_.
                 ensure (blk_timestamp_usecs b \<le> saturating_add now TIMEBOUND)
                   (Msg ''Blocks must not be too far in the future''))) (\<lambda>_.
        rbind (ensure (\<not> qc_ends_epoch (blk_quorum_cert b))
                 (Msg ''Block cannot be proposed in an epoch that has ended'')) (\<lambda>_.
        Ok ()))))))"

record BlockMetadata =
  bm_id :: HashValue
  bm_round :: u64
  bm_timestamp_usecs :: u64
  bm_previous_block_votes :: "AccountAddress list"
  bm_proposer :: AccountAddress

text \<open>The write set payload of a genesis transaction is kept as bytes, like the payloads above.\<close>

datatype Transaction =
    UserTransaction SignedTransaction
  | GenesisTransaction "8 word list"
  | BlockMetadataTxn BlockMetadata

definition block_metadata_from :: "Block \<Rightarrow> BlockMetadata" where
  "block_metadata_from b =
     \<lparr>bm_id = blk_id b, bm_round = blk_round b, bm_timestamp_usecs = blk_timestamp_usecs b,
      bm_previous_block_votes = btree_keys (lis_signatures (qc_ledger_info (blk_quorum_cert b))),
      bm_proposer = (case blk_author b of Some a \<Rightarrow> a | None \<Rightarrow> 0)\<rparr>"

definition transactions_to_execute :: "Block \<Rightarrow> Transaction list" where
  "transactions_to_execute b =
     BlockMetadataTxn (block_metadata_from b) #
       map UserTransaction (case blk_payload b of Some p \<Rightarrow> p | None \<Rightarrow> [])"

section \<open>Operations on votes and timeouts\<close>

definition vote_new_with_signature :: "VoteData \<Rightarrow> Author \<Rightarrow> LedgerInfo \<Rightarrow> Ed25519Signature \<Rightarrow> Vote" where
  "vote_new_with_signature vote_data author ledger_info signature =
     \<lparr>vote_vote_data = vote_data, vote_author = author, vote_ledger_info = ledger_info,
      vote_signature = signature, vote_timeout_signature = None\<rparr>"

definition add_timeout_signature :: "Ed25519Signature \<Rightarrow> Vote \<Rightarrow> Vote" where
  "add_timeout_signature signature v =
     (case vote_timeout_signature v of
        Some _ \<Rightarrow> v
      | None \<Rightarrow> v\<lparr>vote_timeout_signature := Some signature\<rparr>)"

definition vote_timeout :: "Vote \<Rightarrow> Timeout" where
  "vote_timeout v = \<lparr>to_epoch = bi_epoch (vd_proposed (vote_vote_data v)),
     to_round = bi_round (vd_proposed (vote_vote_data v))\<rparr>"

definition vote_epoch :: "Vote \<Rightarrow> u64" where
  "vote_epoch v = bi_epoch (vd_proposed (vote_vote_data v))"

definition vote_is_timeout :: "Vote \<Rightarrow> bool" where
  "vote_is_timeout v \<longleftrightarrow> vote_timeout_signature v \<noteq> None"

definition vote_verify :: "consensus_crypto \<Rightarrow> Vote \<Rightarrow> ValidatorVerifier \<Rightarrow> (unit, anyhow) result" where
  "vote_verify C v validator =
     rbind (ensure (li_consensus_data_hash (vote_ledger_info v) = hash_vote_data C (vote_vote_data v))
              (Msg ''Vote's hash mismatch with LedgerInfo'')) (\<lambda>_.
     rbind (map_err (\<lambda>e. WithContext ''Failed to verify Vote'' (FromVerifyError e))
              (vv_verify (cc_ledger_info C) validator (vote_author v) (vote_ledger_info v)
                 (vote_signature v))) (\<lambda>_.
     rbind (case vote_timeout_signature v of
              Some timeout_signature \<Rightarrow>
                map_err (\<lambda>e. WithContext ''Failed to verify Timeout Vote'' (FromVerifyError e))
                  (vv_verify (cc_timeout C) validator (vote_author v) (vote_timeout v)
                     timeout_signature)
            | None \<Rightarrow> Ok ()) (\<lambda>_.
     rbind (vd_verify (vote_vote_data v)) (\<lambda>_.
     Ok ()))))"

definition tc_new :: "Timeout \<Rightarrow> TimeoutCertificate" where
  "tc_new timeout = \<lparr>tc_timeout = timeout, tc_signatures = fmempty\<rparr>"

definition tc_verify ::
  "consensus_crypto \<Rightarrow> TimeoutCertificate \<Rightarrow> ValidatorVerifier \<Rightarrow> (unit, anyhow) result" where
  "tc_verify C tc validator =
     rbind (map_err (\<lambda>e. WithContext ''Failed to verify TimeoutCertificate'' (FromVerifyError e))
              (verify_aggregated_struct_signature (cc_timeout C) validator (tc_timeout tc)
                 (tc_signatures tc))) (\<lambda>_.
     Ok ())"

definition tc_epoch :: "TimeoutCertificate \<Rightarrow> u64" where
  [simp]: "tc_epoch tc = to_epoch (tc_timeout tc)"

definition tc_round :: "TimeoutCertificate \<Rightarrow> Round" where
  [simp]: "tc_round tc = to_round (tc_timeout tc)"

definition tc_add_signature :: "Author \<Rightarrow> Ed25519Signature \<Rightarrow> TimeoutCertificate \<Rightarrow> TimeoutCertificate" where
  "tc_add_signature author signature tc =
     tc\<lparr>tc_signatures := or_insert author signature (tc_signatures tc)\<rparr>"

definition tc_remove_signature :: "Author \<Rightarrow> TimeoutCertificate \<Rightarrow> TimeoutCertificate" where
  "tc_remove_signature author tc = tc\<lparr>tc_signatures := fmdrop author (tc_signatures tc)\<rparr>"

definition tct_hqc_round :: "TwoChainTimeout \<Rightarrow> Round" where
  [simp]: "tct_hqc_round t = bi_round (qc_certified_block (tct_quorum_cert t))"

definition signing_format :: "TwoChainTimeout \<Rightarrow> TimeoutSigningRepr" where
  "signing_format t =
     \<lparr>tsr_epoch = tct_epoch t, tsr_round = tct_round t, tsr_hqc_round = tct_hqc_round t\<rparr>"

definition tctc_new :: "TwoChainTimeout \<Rightarrow> TwoChainTimeoutCertificate" where
  "tctc_new timeout = \<lparr>tctc_timeout = timeout, tctc_signatures = fmempty\<rparr>"

definition tctc_verify ::
  "consensus_crypto \<Rightarrow> TwoChainTimeoutCertificate \<Rightarrow> ValidatorVerifier \<Rightarrow> (unit, anyhow) result" where
  "tctc_verify C tc vals =
     (let hqc_round = tct_hqc_round (tctc_timeout tc)
      in rbind (ensure (hqc_round < tct_round (tctc_timeout tc))
                  (Msg ''Timeout round should be larger than the QC round'')) (\<lambda>_.
         rbind (qc_verify C (tct_quorum_cert (tctc_timeout tc)) vals) (\<lambda>_.
         rbind (map_err FromVerifyError
                  (check_voting_power vals (btree_keys (tctc_signatures tc)))) (\<lambda>_.
         rbind (rfold (\<lambda>signed_round (author, qc_round, signature).
                  let t = \<lparr>tsr_epoch = tct_epoch (tctc_timeout tc),
                           tsr_round = tct_round (tctc_timeout tc), tsr_hqc_round = qc_round\<rparr>
                  in rbind (map_err (\<lambda>e. WithContext ''Failed to verify TimeoutSigningRepr'' (FromVerifyError e))
                              (vv_verify (cc_timeout_repr C) vals author t signature)) (\<lambda>_.
                     Ok (max signed_round qc_round)))
                  0 (btree_iter (tctc_signatures tc))) (\<lambda>signed_round.
         rbind (ensure (hqc_round = signed_round) (Msg ''Inconsistent hqc round'')) (\<lambda>_.
         Ok ()))))))"

definition tctc_round :: "TwoChainTimeoutCertificate \<Rightarrow> Round" where
  [simp]: "tctc_round tc = tct_round (tctc_timeout tc)"

definition highest_hqc_round :: "TwoChainTimeoutCertificate \<Rightarrow> Round" where
  [simp]: "highest_hqc_round tc = tct_hqc_round (tctc_timeout tc)"

definition tctc_add ::
  "Author \<Rightarrow> TwoChainTimeout \<Rightarrow> Ed25519Signature \<Rightarrow> TwoChainTimeoutCertificate
     \<Rightarrow> TwoChainTimeoutCertificate" where
  "tctc_add author timeout signature tc =
     (let hqc_round = tct_hqc_round timeout;
          tc' = (if tct_hqc_round timeout > tct_hqc_round (tctc_timeout tc)
                 then tc\<lparr>tctc_timeout := timeout\<rparr> else tc)
      in tc'\<lparr>tctc_signatures := fmupd author (hqc_round, signature) (tctc_signatures tc')\<rparr>)"

section \<open>Vote proposals\<close>

definition vote_data_ordering_only :: "VoteProposal \<Rightarrow> VoteData" where
  "vote_data_ordering_only vp =
     \<lparr>vd_proposed = gen_block_info (vp_block vp) ACCUMULATOR_PLACEHOLDER_HASH 0 (vp_next_epoch_state vp),
      vd_parent = qc_certified_block (blk_quorum_cert (vp_block vp))\<rparr>"

definition vote_data_with_extension_proof :: "VoteProposal \<Rightarrow> InMemoryAccumulator \<Rightarrow> VoteData" where
  "vote_data_with_extension_proof vp new_tree =
     \<lparr>vd_proposed = gen_block_info (vp_block vp) (acc_root_hash new_tree) (acc_version new_tree)
        (vp_next_epoch_state vp),
      vd_parent = qc_certified_block (blk_quorum_cert (vp_block vp))\<rparr>"

section \<open>SafetyData\<close>

record SafetyData =
  sd_epoch :: u64
  sd_last_voted_round :: u64
  sd_preferred_round :: u64
  sd_one_chain_round :: u64
  sd_last_vote :: "Vote option"

section \<open>SyncInfo\<close>

record SyncInfo =
  si_highest_quorum_cert :: QuorumCert
  si_highest_ordered_cert :: "QuorumCert option"
  si_highest_ledger_info :: "LedgerInfoWithSignatures option"
  si_highest_timeout_cert :: "TimeoutCertificate option"

definition si_new_decoupled :: "QuorumCert \<Rightarrow> QuorumCert \<Rightarrow> LedgerInfoWithSignatures option
    \<Rightarrow> TimeoutCertificate option \<Rightarrow> SyncInfo" where
  "si_new_decoupled highest_quorum_cert highest_ordered_cert highest_ledger_info highest_timeout_cert =
     \<lparr>si_highest_quorum_cert = highest_quorum_cert,
      si_highest_ordered_cert =
        (if highest_ordered_cert \<noteq> highest_quorum_cert then Some highest_ordered_cert else None),
      si_highest_ledger_info = highest_ledger_info,
      si_highest_timeout_cert =
        (case highest_timeout_cert of
           Some tc \<Rightarrow> if tc_round tc > bi_round (qc_certified_block highest_quorum_cert)
                      then Some tc else None
         | None \<Rightarrow> None)\<rparr>"

definition si_new :: "QuorumCert \<Rightarrow> QuorumCert \<Rightarrow> TimeoutCertificate option \<Rightarrow> SyncInfo" where
  "si_new highest_quorum_cert highest_ordered_cert highest_timeout_cert =
     si_new_decoupled highest_quorum_cert highest_ordered_cert None highest_timeout_cert"

definition highest_ordered_cert :: "SyncInfo \<Rightarrow> QuorumCert" where
  "highest_ordered_cert si =
     (case si_highest_ordered_cert si of Some qc \<Rightarrow> qc | None \<Rightarrow> si_highest_quorum_cert si)"

definition highest_ledger_info :: "SyncInfo \<Rightarrow> LedgerInfoWithSignatures" where
  "highest_ledger_info si =
     (case si_highest_ledger_info si of
        Some li \<Rightarrow> li
      | None \<Rightarrow> qc_ledger_info (highest_ordered_cert si))"

definition highest_certified_round :: "SyncInfo \<Rightarrow> Round" where
  "highest_certified_round si = bi_round (qc_certified_block (si_highest_quorum_cert si))"

definition highest_timeout_round :: "SyncInfo \<Rightarrow> Round" where
  "highest_timeout_round si =
     (case si_highest_timeout_cert si of Some tc \<Rightarrow> tc_round tc | None \<Rightarrow> 0)"

definition highest_ordered_round :: "SyncInfo \<Rightarrow> Round" where
  "highest_ordered_round si = bi_round (qc_commit_info (highest_ordered_cert si))"

definition highest_ledger_info_round :: "SyncInfo \<Rightarrow> Round" where
  "highest_ledger_info_round si = bi_round (lis_commit_info (highest_ledger_info si))"

definition highest_round :: "SyncInfo \<Rightarrow> Round" where
  "highest_round si = max (highest_certified_round si) (highest_timeout_round si)"

definition si_epoch :: "SyncInfo \<Rightarrow> u64" where
  "si_epoch si = bi_epoch (qc_certified_block (si_highest_quorum_cert si))"

definition si_verify :: "consensus_crypto \<Rightarrow> SyncInfo \<Rightarrow> ValidatorVerifier \<Rightarrow> (unit, anyhow) result" where
  "si_verify C si validator =
     (let epoch = bi_epoch (qc_certified_block (si_highest_quorum_cert si));
          hoc = highest_ordered_cert si
      in rbind (ensure (epoch = bi_epoch (qc_certified_block hoc))
                  (Msg ''Multi epoch in SyncInfo - HOC and HQC'')) (\<lambda>_.
         rbind (case si_highest_timeout_cert si of
                  Some tc \<Rightarrow> ensure (epoch = tc_epoch tc) (Msg ''Multi epoch in SyncInfo - TC and HQC'')
                | None \<Rightarrow> Ok ()) (\<lambda>_.
         rbind (ensure (bi_round (qc_certified_block (si_highest_quorum_cert si))
                        \<ge> bi_round (qc_certified_block hoc)) (Msg ''HQC has lower round than HOC'')) (\<lambda>_.
         rbind (ensure (bi_round (qc_certified_block hoc) \<ge> highest_ledger_info_round si)
                  (Msg ''HOC has lower round than HLI'')) (\<lambda>_.
         rbind (ensure (qc_commit_info hoc \<noteq> bi_empty) (Msg ''HOC has no committed block'')) (\<lambda>_.
         rbind (ensure (lis_commit_info (highest_ledger_info si) \<noteq> bi_empty)
                  (Msg ''HLI has empty commit info'')) (\<lambda>_.
         rbind (map_err (WithContext ''Fail to verify SyncInfo'')
           (rbind (qc_verify C (si_highest_quorum_cert si) validator) (\<lambda>_.
            rbind (case si_highest_ordered_cert si of
                     Some cert \<Rightarrow> qc_verify C cert validator
                   | None \<Rightarrow> Ok ()) (\<lambda>_.
            rbind (case si_highest_timeout_cert si of
                     Some tc \<Rightarrow> tc_verify C tc validator
                   | None \<Rightarrow> Ok ()) (\<lambda>_.
            case si_highest_ledger_info si of
              Some hli \<Rightarrow>
                if bi_round (lis_commit_info hli) > 0
                then map_err FromVerifyError (lis_verify_signatures (cc_ledger_info C) hli validator)
                else Ok ()
            | None \<Rightarrow> Ok ()))))) (\<lambda>_.
         Ok ()))))))))"

definition has_newer_certificates :: "SyncInfo \<Rightarrow> SyncInfo \<Rightarrow> bool" where
  "has_newer_certificates si other \<longleftrightarrow>
     highest_certified_round si > highest_certified_round other
     \<or> highest_timeout_round si > highest_timeout_round other
     \<or> highest_ordered_round si > highest_ordered_round other
     \<or> highest_ledger_info_round si > highest_ledger_info_round other"

section \<open>Messages\<close>

record ProposalMsg =
  pm_proposal :: Block
  pm_sync_info :: SyncInfo

definition pm_verify_well_formed :: "u64 \<Rightarrow> ProposalMsg \<Rightarrow> (unit, anyhow) result" where
  "pm_verify_well_formed now pm =
     rbind (ensure (\<not> blk_is_nil_block (pm_proposal pm)) (Msg ''Proposal for a NIL block'')) (\<lambda>_.
     rbind (map_err (WithContext ''Fail to verify ProposalMsg's block'')
              (blk_verify_well_formed now (pm_proposal pm))) (\<lambda>_.
     rbind (ensure (blk_round (pm_proposal pm) > 0) (Msg ''Proposal has an incorrect round of 0'')) (\<lambda>_.
     rbind (ensure (blk_epoch (pm_proposal pm) = si_epoch (pm_sync_info pm))
              (Msg ''ProposalMsg has different epoch number from SyncInfo'')) (\<lambda>_.
     rbind (ensure (blk_parent_id (pm_proposal pm)
                    = bi_id (qc_certified_block (si_highest_quorum_cert (pm_sync_info pm))))
              (Msg ''Proposal HQC in SyncInfo certifies another block than the block parent'')) (\<lambda>_.
     rbind (ok_or (checked_sub (blk_round (pm_proposal pm)) 1) (Msg ''proposal round overflowed!'')) (\<lambda>previous_round.
     let highest_certified_round =
           max (bi_round (qc_certified_block (blk_quorum_cert (pm_proposal pm))))
             (case si_highest_timeout_cert (pm_sync_info pm) of Some tc \<Rightarrow> tc_round tc | None \<Rightarrow> 0)
     in rbind (ensure (previous_round = highest_certified_round)
                 (Msg ''Proposal does not have a certified round'')) (\<lambda>_.
        rbind (ensure (blk_author (pm_proposal pm) \<noteq> None) (Msg ''Proposal does not define an author'')) (\<lambda>_.
        Ok ()))))))))"

definition pm_verify ::
  "consensus_crypto \<Rightarrow> u64 \<Rightarrow> ProposalMsg \<Rightarrow> ValidatorVerifier \<Rightarrow> (unit, anyhow) result" where
  "pm_verify C now pm validator =
     rbind (validate_signature C (pm_proposal pm) validator) (\<lambda>_.
     rbind (case si_highest_timeout_cert (pm_sync_info pm) of
              Some tc \<Rightarrow> tc_verify C tc validator
            | None \<Rightarrow> Ok ()) (\<lambda>_.
     pm_verify_well_formed now pm))"

definition pm_proposer :: "ProposalMsg \<Rightarrow> Author option" where
  "pm_proposer pm = blk_author (pm_proposal pm)"

record VoteMsg =
  vm_vote :: Vote
  vm_sync_info :: SyncInfo

definition vm_verify :: "consensus_crypto \<Rightarrow> VoteMsg \<Rightarrow> ValidatorVerifier \<Rightarrow> (unit, anyhow) result" where
  "vm_verify C vm validator =
     rbind (ensure (vote_epoch (vm_vote vm) = si_epoch (vm_sync_info vm))
              (Msg ''VoteMsg has different epoch'')) (\<lambda>_.
     vote_verify C (vm_vote vm) validator)"

datatype BlockRetrievalStatus = Succeeded | IdNotFound | NotEnoughBlocks

record BlockRetrievalResponse =
  brr_status :: BlockRetrievalStatus
  brr_blocks :: "Block list"

definition brr_verify ::
  "consensus_crypto \<Rightarrow> u64 \<Rightarrow> BlockRetrievalResponse \<Rightarrow> HashValue \<Rightarrow> u64 \<Rightarrow> ValidatorVerifier
     \<Rightarrow> (unit, anyhow) result" where
  "brr_verify C now r block_id num_blocks sig_verifier =
     rbind (ensure (brr_status r \<noteq> Succeeded \<or> of_nat (length (brr_blocks r)) = num_blocks)
              (Msg ''not enough blocks returned'')) (\<lambda>_.
     map_ok (\<lambda>_. ())
       (rfold (\<lambda>expected_id block.
          rbind (validate_signature C block sig_verifier) (\<lambda>_.
          rbind (blk_verify_well_formed now block) (\<lambda>_.
          rbind (ensure (blk_id block = expected_id) (Msg ''blocks doesn't form a chain'')) (\<lambda>_.
          Ok (blk_parent_id block))))) block_id (brr_blocks r)))"

section \<open>What accepted certificates mean\<close>

lemma qc_verify_hash:
  "qc_verify C qc vv = Ok () \<Longrightarrow>
     li_consensus_data_hash (lis_ledger_info (qc_signed_ledger_info qc)) = hash_vote_data C (qc_vote_data qc)"
  by (auto simp: qc_verify_def)

lemma qc_verify_Ok:
  assumes "qc_verify C qc vv = Ok ()" and "bi_round (qc_certified_block qc) \<noteq> 0"
    and "vv_valid vv" and "batch_sound (cc_ledger_info C)"
  shows "quorum_signed (cc_ledger_info C) vv (lis_ledger_info (qc_signed_ledger_info qc))
      (lis_signatures (qc_signed_ledger_info qc))"
    and "bi_round (qc_parent_block qc) < bi_round (qc_certified_block qc)"
    and "bi_epoch (qc_parent_block qc) = bi_epoch (qc_certified_block qc)"
  using assms batch_verify_iff [OF assms(3,4)]
  by (auto simp: qc_verify_def lis_verify_signatures_def vd_verify_def)

text \<open>An accepted 2-chain timeout certificate: a quorum whose signed rounds are at most its own.\<close>

lemma tctc_fold_Ok:
  assumes "rfold (\<lambda>signed_round (author, qc_round, signature).
       rbind (map_err f (vv_verify S vv author (t qc_round) signature)) (\<lambda>_. Ok (max signed_round qc_round)))
       (acc :: u64) xs = Ok r"
  shows "acc \<le> r" and "(a, q, sg) \<in> set xs \<Longrightarrow>
      q \<le> r \<and> (\<exists>pk. get_public_key vv a = Some pk \<and> verify_struct_signature S pk (t q) sg)"
  using assms
proof (induction xs arbitrary: acc)
  case (Cons x xs)
  obtain a' q' sg' where x: "x = (a', q', sg')" by (cases x)
  { case 1
    with Cons.IH(1) [of "max acc q'"] x show ?case by (auto simp: max.bounded_iff) }
  { case 2
    with Cons.IH [of "max acc q'"] x show ?case by (auto simp: max.bounded_iff) }
qed auto

lemma tctc_verify_Ok:
  assumes "tctc_verify C tc vv = Ok ()" and "vv_valid vv"
  shows "vq.quorum vv (fset (fmdom (tctc_signatures tc)))"
    and "fmlookup (tctc_signatures tc) a = Some (q, sg) \<Longrightarrow> q \<le> highest_hqc_round tc \<and>
      (\<exists>pk. get_public_key vv a = Some pk \<and> verify_struct_signature (cc_timeout_repr C) pk
         \<lparr>tsr_epoch = tct_epoch (tctc_timeout tc), tsr_round = tctc_round tc, tsr_hqc_round = q\<rparr> sg)"
proof -
  have "check_voting_power vv (btree_keys (tctc_signatures tc)) = Ok ()"
    using assms(1) by (auto simp: tctc_verify_def Let_def)
  with check_voting_power_quorum [OF assms(2), of "btree_keys (tctc_signatures tc)"]
  show "vq.quorum vv (fset (fmdom (tctc_signatures tc)))" by simp
  assume "fmlookup (tctc_signatures tc) a = Some (q, sg)"
  then have mem: "(a, q, sg) \<in> set (btree_iter (tctc_signatures tc))" by (simp add: set_btree_iter)
  obtain r where fold: "rfold (\<lambda>signed_round (author, qc_round, signature).
       rbind (map_err (\<lambda>e. WithContext ''Failed to verify TimeoutSigningRepr'' (FromVerifyError e))
         (vv_verify (cc_timeout_repr C) vv author \<lparr>tsr_epoch = tct_epoch (tctc_timeout tc),
            tsr_round = tct_round (tctc_timeout tc), tsr_hqc_round = qc_round\<rparr> signature))
         (\<lambda>_. Ok (max signed_round qc_round))) 0 (btree_iter (tctc_signatures tc)) = Ok r"
    and "highest_hqc_round tc = r"
    using assms(1) by (auto simp: tctc_verify_def Let_def)
  with tctc_fold_Ok(2) [OF fold mem] show "q \<le> highest_hqc_round tc \<and>
      (\<exists>pk. get_public_key vv a = Some pk \<and> verify_struct_signature (cc_timeout_repr C) pk
         \<lparr>tsr_epoch = tct_epoch (tctc_timeout tc), tsr_round = tctc_round tc, tsr_hqc_round = q\<rparr> sg)"
    by simp
qed

end
