(* ===== verification/SecureStorage.thy ===== *)
theory SecureStorage
  imports ConsensusTypes
begin

text \<open>
  The secure storage that consensus keeps its safety data and keys in, \<open>src/secure/storage/src\<close>.

  A backend stores the JSON text of typed values. The model stores the values themselves, as a
  \<open>stored_value\<close> with one constructor for every type that the validator stores, and reading at a
  type is reading the value and matching its constructor: the JSON forms of two different types
  of this list never parse as one another.

  \<open>storage_api\<close> is the pair of traits \<open>KVStorage\<close> and \<open>CryptoStorage\<close>, through which a client uses
  any backend. The locale \<open>kv_storage\<close> is the contract that safety rules rely on, with writes that
  may fail before or after taking effect; \<open>InMemoryStorage\<close> is the backend that is modelled in
  full and it is shown to meet the contract.
\<close>

section \<open>Errors and values\<close>

text \<open>Texts of errors that other crates produce are dropped.\<close>

datatype StorageError =
    EntropyError
  | StorageInternalError
  | KeyAlreadyExists string
  | KeyNotSet string
  | PermissionDenied
  | StorageSerializationError
  | KeyVersionNotFound string string

datatype stored_value =
    StoredSafetyData SafetyData
  | StoredAuthor Author
  | StoredWaypoint Waypoint
  | StoredPrivateKey Ed25519PrivateKey

record GetResponse =
  gr_last_update :: u64
  gr_value :: stored_value

record PublicKeyResponse =
  pkr_last_update :: u64
  pkr_public_key :: Ed25519PublicKey

section \<open>Reading at a type\<close>

definition as_safety_data :: "stored_value \<Rightarrow> (SafetyData, StorageError) result" where
  "as_safety_data v = (case v of StoredSafetyData d \<Rightarrow> Ok d | _ \<Rightarrow> Err StorageSerializationError)"

definition as_author :: "stored_value \<Rightarrow> (Author, StorageError) result" where
  "as_author v = (case v of StoredAuthor a \<Rightarrow> Ok a | _ \<Rightarrow> Err StorageSerializationError)"

definition as_waypoint :: "stored_value \<Rightarrow> (Waypoint, StorageError) result" where
  "as_waypoint v = (case v of StoredWaypoint w \<Rightarrow> Ok w | _ \<Rightarrow> Err StorageSerializationError)"

definition as_private_key :: "stored_value \<Rightarrow> (Ed25519PrivateKey, StorageError) result" where
  "as_private_key v = (case v of StoredPrivateKey k \<Rightarrow> Ok k | _ \<Rightarrow> Err StorageSerializationError)"

lemmas stored_value_readers = as_safety_data_def as_author_def as_waypoint_def as_private_key_def

lemma as_safety_data_Ok [simp]: "as_safety_data v = Ok d \<longleftrightarrow> v = StoredSafetyData d"
  by (cases v) (auto simp: as_safety_data_def)

lemma as_private_key_Ok [simp]: "as_private_key v = Ok k \<longleftrightarrow> v = StoredPrivateKey k"
  by (cases v) (auto simp: as_private_key_def)

section \<open>The storage interface\<close>

text \<open>
  A message is signed by handing the storage the function that signs it with a private key, in
  place of the generic message type of \<open>sign_using_version\<close>.
\<close>

record 'st storage_api =
  kv_get :: "'st \<Rightarrow> string \<Rightarrow> (GetResponse, StorageError) result"
  kv_set :: "string \<Rightarrow> stored_value \<Rightarrow> ('st, unit, StorageError) st_result"
  cs_export_private_key_for_version ::
    "'st \<Rightarrow> string \<Rightarrow> Ed25519PublicKey \<Rightarrow> (Ed25519PrivateKey, StorageError) result"
  cs_import_private_key :: "string \<Rightarrow> Ed25519PrivateKey \<Rightarrow> ('st, unit, StorageError) st_result"
  cs_get_public_key :: "'st \<Rightarrow> string \<Rightarrow> (PublicKeyResponse, StorageError) result"
  cs_sign_using_version ::
    "'st \<Rightarrow> string \<Rightarrow> Ed25519PublicKey \<Rightarrow> (Ed25519PrivateKey \<Rightarrow> Ed25519Signature)
       \<Rightarrow> (Ed25519Signature, StorageError) result"

text \<open>
  The contract. \<open>contents\<close> is what is durably stored. A read returns what is stored; a write that
  reports success has taken effect; a write that fails has either taken effect or not, and reports
  an error; importing a key touches no other entry.
\<close>

locale kv_storage =
  fixes A :: "'st storage_api"
    and contents :: "'st \<Rightarrow> string \<Rightarrow> stored_value option"
  assumes get_stored: "kv_get A s k = Ok g \<Longrightarrow> contents s k = Some (gr_value g)"
    and set_Ok: "kv_set A k v s = (Ok u, s') \<Longrightarrow> contents s' = (contents s)(k \<mapsto> v)"
    and set_fails: "kv_set A k v s = (r, s') \<Longrightarrow>
      contents s' = contents s \<or> contents s' = (contents s)(k \<mapsto> v)"
    and set_returns: "fst (kv_set A k v s) \<noteq> Panic"
    and import_other: "cs_import_private_key A k key s = (r, s') \<Longrightarrow> k' \<noteq> k \<Longrightarrow>
      contents s' k' = contents s k'"
begin

lemma set_other:
  assumes "kv_set A k v s = (r, s')" and "k' \<noteq> k"
  shows "contents s' k' = contents s k'"
  using set_fails [OF assms(1)] assms(2) by auto

text \<open>What is read after a successful write is what was written, whatever other keys are written
  in between.\<close>

lemma get_after_set:
  assumes "kv_set A k v s = (Ok u, s1)" and "kv_set A k' v' s1 = (r, s2)" and "k' \<noteq> k"
    and "kv_get A s2 k = Ok g"
  shows "gr_value g = v"
proof -
  from get_stored [OF assms(4)] have "contents s2 k = Some (gr_value g)" .
  moreover from set_other [OF assms(2)] assms(3) have "contents s2 k = contents s1 k" by simp
  ultimately show ?thesis using set_Ok [OF assms(1)] by simp
qed

end

section \<open>InMemoryStorage\<close>

text \<open>The time service is the current time in seconds, a field that its owner advances.\<close>

record InMemoryStorage =
  ims_data :: "(string, GetResponse) fmap"
  ims_time_service :: u64

definition ims_new_with_time_service :: "u64 \<Rightarrow> InMemoryStorage" where
  "ims_new_with_time_service time_service =
     \<lparr>ims_data = fmempty, ims_time_service = time_service\<rparr>"

definition ims_get :: "InMemoryStorage \<Rightarrow> string \<Rightarrow> (GetResponse, StorageError) result" where
  "ims_get s key = ok_or (fmlookup (ims_data s) key) (KeyNotSet key)"

definition ims_set :: "string \<Rightarrow> stored_value \<Rightarrow> (InMemoryStorage, unit, StorageError) st_result" where
  "ims_set key value s =
     (let now = ims_time_service s
      in (Ok (), s\<lparr>ims_data := fmupd key \<lparr>gr_last_update = now, gr_value = value\<rparr> (ims_data s)\<rparr>))"

section \<open>CryptoKVStorage\<close>

text \<open>The implementation of \<open>CryptoStorage\<close> by a key-value store, on \<open>InMemoryStorage\<close>.\<close>

definition get_previous_version_name :: "string \<Rightarrow> string" where
  "get_previous_version_name name = name @ ''_previous''"

definition export_private_key ::
  "InMemoryStorage \<Rightarrow> string \<Rightarrow> (Ed25519PrivateKey, StorageError) result" where
  "export_private_key s name = rbind (ims_get s name) (\<lambda>v. as_private_key (gr_value v))"

definition export_private_key_for_version ::
  "consensus_crypto \<Rightarrow> InMemoryStorage \<Rightarrow> string \<Rightarrow> Ed25519PublicKey
     \<Rightarrow> (Ed25519PrivateKey, StorageError) result" where
  "export_private_key_for_version C s name version =
     rbind (export_private_key s name) (\<lambda>current_private_key.
     if public_key_of C current_private_key = version then Ok current_private_key
     else
       case export_private_key s (get_previous_version_name name) of
         Ok previous_private_key \<Rightarrow>
           if public_key_of C previous_private_key = version then Ok previous_private_key
           else Err (KeyVersionNotFound name (to_hex version))
       | Err (KeyNotSet _) \<Rightarrow> Err (KeyVersionNotFound name (to_hex version))
       | Err e \<Rightarrow> Err e
       | Panic \<Rightarrow> Panic)"

definition import_private_key ::
  "string \<Rightarrow> Ed25519PrivateKey \<Rightarrow> (InMemoryStorage, unit, StorageError) st_result" where
  "import_private_key name key = ims_set name (StoredPrivateKey key)"

text \<open>The fresh key pair that \<open>new_ed25519_key_pair\<close> draws is the argument \<open>private_key\<close>.\<close>

definition create_key ::
  "consensus_crypto \<Rightarrow> Ed25519PrivateKey \<Rightarrow> string
     \<Rightarrow> (InMemoryStorage, Ed25519PublicKey, StorageError) st_result" where
  "create_key C private_key name =
     sbind (import_private_key name private_key) (\<lambda>_.
     sret (public_key_of C private_key))"

definition storage_get_public_key ::
  "consensus_crypto \<Rightarrow> InMemoryStorage \<Rightarrow> string \<Rightarrow> (PublicKeyResponse, StorageError) result" where
  "storage_get_public_key C s name =
     rbind (ims_get s name) (\<lambda>response.
     rbind (as_private_key (gr_value response)) (\<lambda>key.
     Ok \<lparr>pkr_last_update = gr_last_update response, pkr_public_key = public_key_of C key\<rparr>))"

definition get_public_key_previous_version ::
  "consensus_crypto \<Rightarrow> InMemoryStorage \<Rightarrow> string \<Rightarrow> (Ed25519PublicKey, StorageError) result" where
  "get_public_key_previous_version C s name =
     (case export_private_key s (get_previous_version_name name) of
        Ok previous_private_key \<Rightarrow> Ok (public_key_of C previous_private_key)
      | Err (KeyNotSet _) \<Rightarrow> Err (KeyVersionNotFound name ''previous version'')
      | Err e \<Rightarrow> Err e
      | Panic \<Rightarrow> Panic)"

definition rotate_key ::
  "consensus_crypto \<Rightarrow> Ed25519PrivateKey \<Rightarrow> string
     \<Rightarrow> (InMemoryStorage, Ed25519PublicKey, StorageError) st_result" where
  "rotate_key C new_private_key name =
     sbind (sread (\<lambda>s. rbind (ims_get s name) (\<lambda>v. as_private_key (gr_value v)))) (\<lambda>private_key.
     sbind (ims_set (get_previous_version_name name) (StoredPrivateKey private_key)) (\<lambda>_.
     sbind (ims_set name (StoredPrivateKey new_private_key)) (\<lambda>_.
     sret (public_key_of C new_private_key))))"

definition storage_sign ::
  "InMemoryStorage \<Rightarrow> string \<Rightarrow> (Ed25519PrivateKey \<Rightarrow> Ed25519Signature)
     \<Rightarrow> (Ed25519Signature, StorageError) result" where
  "storage_sign s name message =
     rbind (export_private_key s name) (\<lambda>private_key. Ok (message private_key))"

definition sign_using_version ::
  "consensus_crypto \<Rightarrow> InMemoryStorage \<Rightarrow> string \<Rightarrow> Ed25519PublicKey
     \<Rightarrow> (Ed25519PrivateKey \<Rightarrow> Ed25519Signature) \<Rightarrow> (Ed25519Signature, StorageError) result" where
  "sign_using_version C s name version message =
     rbind (export_private_key_for_version C s name version) (\<lambda>private_key.
     Ok (message private_key))"

definition in_memory_api :: "consensus_crypto \<Rightarrow> InMemoryStorage storage_api" where
  "in_memory_api C =
     \<lparr>kv_get = ims_get, kv_set = ims_set,
      cs_export_private_key_for_version = export_private_key_for_version C,
      cs_import_private_key = import_private_key, cs_get_public_key = storage_get_public_key C,
      cs_sign_using_version = sign_using_version C\<rparr>"

definition ims_contents :: "InMemoryStorage \<Rightarrow> string \<Rightarrow> stored_value option" where
  "ims_contents s key = map_option gr_value (fmlookup (ims_data s) key)"

lemma ims_contents_set:
  "ims_contents (snd (ims_set key v s)) = (ims_contents s)(key \<mapsto> v)"
  by (rule ext) (simp add: ims_contents_def ims_set_def Let_def)

interpretation ims: kv_storage "in_memory_api C" ims_contents for C
proof unfold_locales
  fix s k v r s'
  assume "kv_set (in_memory_api C) k v s = (r, s')"
  then have "s' = snd (ims_set k v s)" by (simp add: in_memory_api_def)
  then show "ims_contents s' = ims_contents s \<or> ims_contents s' = (ims_contents s)(k \<mapsto> v)"
    by (simp add: ims_contents_set)
next
  fix s k v u s'
  assume "kv_set (in_memory_api C) k v s = (Ok u, s')"
  then have "s' = snd (ims_set k v s)" by (simp add: in_memory_api_def)
  then show "ims_contents s' = (ims_contents s)(k \<mapsto> v)" by (simp add: ims_contents_set)
next
  fix k key s r s' k'
  assume "cs_import_private_key (in_memory_api C) k key s = (r, s')" and "k' \<noteq> k"
  then have "s' = snd (ims_set k (StoredPrivateKey key) s)"
    by (simp add: in_memory_api_def import_private_key_def)
  with \<open>k' \<noteq> k\<close> show "ims_contents s' k' = ims_contents s k'" by (simp add: ims_contents_set)
qed (auto simp: in_memory_api_def ims_get_def ims_contents_def ims_set_def)

section \<open>Properties\<close>

lemma export_after_set:
  "export_private_key (snd (ims_set n (StoredPrivateKey k) s)) m =
     (if m = n then Ok k else export_private_key s m)"
  by (simp add: export_private_key_def ims_get_def ims_set_def Let_def)

lemma get_previous_version_name_neq [simp]: "get_previous_version_name name \<noteq> name"
  "name \<noteq> get_previous_version_name name"
  by (simp_all add: get_previous_version_name_def)

text \<open>
  C19: Rotating a key keeps the key it replaces for one more rotation: afterwards the new key and
  the previous one can both be exported by their version, and no other version can.
\<close>

theorem rotate_key_versions:
  assumes "export_private_key s name = Ok old_key"
  shows "\<exists>s'. rotate_key C new_key name s = (Ok (public_key_of C new_key), s')
    \<and> export_private_key_for_version C s' name v =
        (if v = public_key_of C new_key then Ok new_key
         else if v = public_key_of C old_key then Ok old_key
         else Err (KeyVersionNotFound name (to_hex v)))"
proof -
  let ?s1 = "snd (ims_set (get_previous_version_name name) (StoredPrivateKey old_key) s)"
  let ?s2 = "snd (ims_set name (StoredPrivateKey new_key) ?s1)"
  have "rotate_key C new_key name s = (Ok (public_key_of C new_key), ?s2)"
    using assms by (auto simp: rotate_key_def export_private_key_def sbind_def sread_def sret_def ims_set_def
        Let_def as_private_key_def)
  moreover have "export_private_key ?s2 name = Ok new_key"
    "export_private_key ?s2 (get_previous_version_name name) = Ok old_key"
    by (simp_all add: export_after_set)
  ultimately show ?thesis by (auto simp: export_private_key_for_version_def)
qed

definition rotation_store :: InMemoryStorage where
  "rotation_store = snd (ims_set ''consensus'' (StoredPrivateKey 5) (ims_new_with_time_service 0))"

theorem rotate_key_versions_witness:
  "\<forall>C. \<exists>s'. rotate_key C 6 ''consensus'' rotation_store = (Ok (public_key_of C 6), s')
    \<and> export_private_key_for_version C s' ''consensus'' (public_key_of C 6) = Ok 6"
proof
  fix C
  have "export_private_key rotation_store ''consensus'' = Ok 5"
    by (simp add: rotation_store_def export_after_set)
  from rotate_key_versions [OF this, of C 6 "public_key_of C 6"]
  show "\<exists>s'. rotate_key C 6 ''consensus'' rotation_store = (Ok (public_key_of C 6), s')
    \<and> export_private_key_for_version C s' ''consensus'' (public_key_of C 6) = Ok 6" by simp
qed

end
