(* ===== verification/SafetyRules.thy ===== *)
theory SafetyRules
  imports SecureStorage
begin

text \<open>
  The safety rules, \<open>src/consensus/safety-rules/src\<close>: the part of a validator that holds the
  consensus key and decides what it may sign.

  \<open>PersistentSafetyStorage\<close>, \<open>ConfigurableValidatorSigner\<close> and \<open>SafetyRules\<close> are records over the
  state \<open>'st\<close> of a storage backend, which is used through its interface \<open>A :: 'st storage_api\<close>;
  \<open>C\<close> carries the signature schemes and hashes, and \<open>now\<close> is the clock in microseconds. Every
  public method is modelled as its \<open>guarded_\<close> body, which \<open>run_and_log\<close> wraps with logging and
  counters only.
\<close>

section \<open>Errors\<close>

text \<open>A text that renders another error or value is replaced by what it renders.\<close>

datatype Error =
    IncorrectEpoch u64 u64
  | IncorrectRound u64
  | IncorrectLastVotedRound u64 u64
  | IncorrectPreferredRound u64 u64
  | InvalidAccumulatorExtension anyhow
  | InvalidEpochChangeProof anyhow
  | InternalError anyhow
  | InvalidLedgerInfo
  | InvalidProposal anyhow
  | InvalidQuorumCertificate anyhow
  | NotInitialized string
  | SecureStorageMissingDataError StorageError
  | SecureStorageUnexpectedError StorageError
  | SerializationError string
  | ValidatorKeyNotFound Error
  | ValidatorNotInSet AccountAddress
  | VoteProposalSignatureNotFound
  | NotSafeToVote u64 u64 u64 u64
  | NotSafeToTimeout u64 u64 u64 u64
  | InvalidTimeoutCertificate anyhow
  | InconsistentExecutionResult BlockInfo BlockInfo
  | InvalidOrderedLedgerInfo LedgerInfo

text \<open>\<open>From<dijets_secure_storage::Error>\<close>, applied by \<open>?\<close>: a denied permission panics.\<close>

definition from_storage_error :: "('a, StorageError) result \<Rightarrow> ('a, Error) result" where
  "from_storage_error r =
     (case r of
        Ok a \<Rightarrow> Ok a
      | Err PermissionDenied \<Rightarrow> Panic
      | Err (KeyVersionNotFound n v) \<Rightarrow> Err (SecureStorageMissingDataError (KeyVersionNotFound n v))
      | Err (KeyNotSet k) \<Rightarrow> Err (SecureStorageMissingDataError (KeyNotSet k))
      | Err e \<Rightarrow> Err (SecureStorageUnexpectedError e)
      | Panic \<Rightarrow> Panic)"

definition sfrom_storage_error :: "('s, 'a, StorageError) st_result \<Rightarrow> ('s, 'a, Error) st_result" where
  "sfrom_storage_error m = (\<lambda>s. case m s of (r, s') \<Rightarrow> (from_storage_error r, s'))"

section \<open>PersistentSafetyStorage\<close>

definition CONSENSUS_KEY :: string where "CONSENSUS_KEY = ''consensus''"
definition EXECUTION_KEY :: string where "EXECUTION_KEY = ''execution''"
definition OWNER_ACCOUNT :: string where "OWNER_ACCOUNT = ''owner_account''"
definition SAFETY_DATA :: string where "SAFETY_DATA = ''safety_data''"
definition WAYPOINT :: string where "WAYPOINT = ''waypoint''"

record 'st PersistentSafetyStorage =
  pss_enable_cached_safety_data :: bool
  pss_cached_safety_data :: "SafetyData option"
  pss_internal_store :: 'st

definition sd_new :: "u64 \<Rightarrow> u64 \<Rightarrow> u64 \<Rightarrow> u64 \<Rightarrow> Vote option \<Rightarrow> SafetyData" where
  "sd_new epoch last_voted_round preferred_round one_chain_round last_vote =
     \<lparr>sd_epoch = epoch, sd_last_voted_round = last_voted_round,
      sd_preferred_round = preferred_round, sd_one_chain_round = one_chain_round,
      sd_last_vote = last_vote\<rparr>"

text \<open>Of the errors of the first import only \<open>KeyAlreadyExists\<close> is looked at.\<close>

definition pss_initialize_store ::
  "'st storage_api \<Rightarrow> SafetyData \<Rightarrow> Author \<Rightarrow> Ed25519PrivateKey \<Rightarrow> Ed25519PrivateKey \<Rightarrow> Waypoint
     \<Rightarrow> ('st, unit, Error) st_result" where
  "pss_initialize_store A safety_data author consensus_private_key execution_private_key waypoint s0 =
     (case cs_import_private_key A CONSENSUS_KEY consensus_private_key s0 of
        (Err (KeyAlreadyExists _), s1) \<Rightarrow> (Ok (), s1)
      | (Panic, s1) \<Rightarrow> (Panic, s1)
      | (_, s1) \<Rightarrow>
          sbind (sfrom_storage_error
                   (cs_import_private_key A EXECUTION_KEY execution_private_key)) (\<lambda>_.
          sbind (sfrom_storage_error (kv_set A SAFETY_DATA (StoredSafetyData safety_data))) (\<lambda>_.
          sbind (sfrom_storage_error (kv_set A OWNER_ACCOUNT (StoredAuthor author))) (\<lambda>_.
          sbind (sfrom_storage_error (kv_set A WAYPOINT (StoredWaypoint waypoint))) (\<lambda>_.
          sret ())))) s1)"

text \<open>\<open>None\<close> is the panic of \<open>expect\<close>.\<close>

definition pss_initialize ::
  "'st storage_api \<Rightarrow> 'st \<Rightarrow> Author \<Rightarrow> Ed25519PrivateKey \<Rightarrow> Ed25519PrivateKey \<Rightarrow> Waypoint \<Rightarrow> bool
     \<Rightarrow> 'st PersistentSafetyStorage option" where
  "pss_initialize A internal_store author consensus_private_key execution_private_key waypoint
       enable_cached_safety_data =
     (let safety_data = sd_new 1 0 0 0 None
      in case pss_initialize_store A safety_data author consensus_private_key execution_private_key
                waypoint internal_store of
           (Ok _, s) \<Rightarrow> Some \<lparr>pss_enable_cached_safety_data = enable_cached_safety_data,
                               pss_cached_safety_data = Some safety_data, pss_internal_store = s\<rparr>
         | _ \<Rightarrow> None)"

definition pss_new :: "'st \<Rightarrow> bool \<Rightarrow> 'st PersistentSafetyStorage" where
  "pss_new internal_store enable_cached_safety_data =
     \<lparr>pss_enable_cached_safety_data = enable_cached_safety_data,
      pss_cached_safety_data = None, pss_internal_store = internal_store\<rparr>"

definition pss_author :: "'st storage_api \<Rightarrow> 'st PersistentSafetyStorage \<Rightarrow> (Author, Error) result" where
  "pss_author A p =
     from_storage_error (rbind (kv_get A (pss_internal_store p) OWNER_ACCOUNT)
       (\<lambda>v. as_author (gr_value v)))"

definition consensus_key_for_version ::
  "'st storage_api \<Rightarrow> 'st PersistentSafetyStorage \<Rightarrow> Ed25519PublicKey
     \<Rightarrow> (Ed25519PrivateKey, Error) result" where
  "consensus_key_for_version A p version =
     from_storage_error
       (cs_export_private_key_for_version A (pss_internal_store p) CONSENSUS_KEY version)"

definition pss_execution_public_key ::
  "'st storage_api \<Rightarrow> 'st PersistentSafetyStorage \<Rightarrow> (Ed25519PublicKey, Error) result" where
  "pss_execution_public_key A p =
     from_storage_error (map_ok pkr_public_key
       (cs_get_public_key A (pss_internal_store p) EXECUTION_KEY))"

definition pss_sign ::
  "'st storage_api \<Rightarrow> 'st PersistentSafetyStorage \<Rightarrow> string \<Rightarrow> Ed25519PublicKey
     \<Rightarrow> (Ed25519PrivateKey \<Rightarrow> Ed25519Signature) \<Rightarrow> (Ed25519Signature, Error) result" where
  "pss_sign A p key_name key_version message =
     from_storage_error
       (cs_sign_using_version A (pss_internal_store p) key_name key_version message)"

text \<open>
  With the cache disabled the value that \<open>?\<close> yields is returned as it is, so the type that is read
  from the storage is \<open>Result<SafetyData, Error>\<close>: a JSON object whose one key is \<open>Ok\<close> or \<open>Err\<close>.
  No value of the storage has that form.
\<close>

definition as_result_safety_data ::
  "stored_value \<Rightarrow> ((SafetyData, Error) result, StorageError) result" where
  "as_result_safety_data v = Err StorageSerializationError"

definition safety_data ::
  "'st storage_api \<Rightarrow> ('st PersistentSafetyStorage, SafetyData, Error) st_result" where
  "safety_data A p =
     (if \<not> pss_enable_cached_safety_data p
      then (rbind (from_storage_error (rbind (kv_get A (pss_internal_store p) SAFETY_DATA)
              (\<lambda>v. as_result_safety_data (gr_value v)))) (\<lambda>r. r), p)
      else
        case pss_cached_safety_data p of
          Some cached_safety_data \<Rightarrow> (Ok cached_safety_data, p)
        | None \<Rightarrow>
            (case from_storage_error (rbind (kv_get A (pss_internal_store p) SAFETY_DATA)
                    (\<lambda>v. as_safety_data (gr_value v))) of
               Ok d \<Rightarrow> (Ok d, p\<lparr>pss_cached_safety_data := Some d\<rparr>)
             | Err e \<Rightarrow> (Err e, p)
             | Panic \<Rightarrow> (Panic, p)))"

definition set_safety_data ::
  "'st storage_api \<Rightarrow> SafetyData \<Rightarrow> ('st PersistentSafetyStorage, unit, Error) st_result" where
  "set_safety_data A data p =
     (case kv_set A SAFETY_DATA (StoredSafetyData data) (pss_internal_store p) of
        (Ok _, s) \<Rightarrow> (Ok (), p\<lparr>pss_internal_store := s, pss_cached_safety_data := Some data\<rparr>)
      | (Err e, s) \<Rightarrow> (Err (SecureStorageUnexpectedError e),
                        p\<lparr>pss_internal_store := s, pss_cached_safety_data := None\<rparr>)
      | (Panic, s) \<Rightarrow> (Panic, p\<lparr>pss_internal_store := s\<rparr>))"

definition pss_waypoint ::
  "'st storage_api \<Rightarrow> 'st PersistentSafetyStorage \<Rightarrow> (Waypoint, Error) result" where
  "pss_waypoint A p =
     from_storage_error (rbind (kv_get A (pss_internal_store p) WAYPOINT)
       (\<lambda>v. as_waypoint (gr_value v)))"

definition set_waypoint ::
  "'st storage_api \<Rightarrow> Waypoint \<Rightarrow> ('st PersistentSafetyStorage, unit, Error) st_result" where
  "set_waypoint A waypoint =
     sfield pss_internal_store (\<lambda>s p. p\<lparr>pss_internal_store := s\<rparr>)
       (sfrom_storage_error (kv_set A WAYPOINT (StoredWaypoint waypoint)))"

section \<open>ConfigurableValidatorSigner\<close>

record ValidatorSigner =
  vs_author :: AccountAddress
  vs_private_key :: Ed25519PrivateKey

record ValidatorHandle =
  vh_author :: AccountAddress
  vh_key_version :: Ed25519PublicKey

datatype ConfigurableValidatorSigner = Signer ValidatorSigner | Handle ValidatorHandle

definition new_signer :: "AccountAddress \<Rightarrow> Ed25519PrivateKey \<Rightarrow> ConfigurableValidatorSigner" where
  "new_signer author consensus_key = Signer \<lparr>vs_author = author, vs_private_key = consensus_key\<rparr>"

definition new_handle :: "AccountAddress \<Rightarrow> Ed25519PublicKey \<Rightarrow> ConfigurableValidatorSigner" where
  "new_handle author key_version = Handle \<lparr>vh_author = author, vh_key_version = key_version\<rparr>"

definition cvs_author :: "ConfigurableValidatorSigner \<Rightarrow> AccountAddress" where
  "cvs_author cvs = (case cvs of Signer s \<Rightarrow> vs_author s | Handle h \<Rightarrow> vh_author h)"

definition cvs_public_key :: "consensus_crypto \<Rightarrow> ConfigurableValidatorSigner \<Rightarrow> Ed25519PublicKey" where
  "cvs_public_key C cvs =
     (case cvs of Signer s \<Rightarrow> public_key_of C (vs_private_key s) | Handle h \<Rightarrow> vh_key_version h)"

definition handle_sign ::
  "'st storage_api \<Rightarrow> 'm sig_scheme \<Rightarrow> ValidatorHandle \<Rightarrow> 'm \<Rightarrow> 'st PersistentSafetyStorage
     \<Rightarrow> (Ed25519Signature, Error) result" where
  "handle_sign A S h message storage =
     pss_sign A storage CONSENSUS_KEY (vh_key_version h) (\<lambda>key. sign_struct S key message)"

definition cvs_sign ::
  "'st storage_api \<Rightarrow> 'm sig_scheme \<Rightarrow> ConfigurableValidatorSigner \<Rightarrow> 'm
     \<Rightarrow> 'st PersistentSafetyStorage \<Rightarrow> (Ed25519Signature, Error) result" where
  "cvs_sign A S cvs message storage =
     (case cvs of
        Signer s \<Rightarrow> Ok (sign_struct S (vs_private_key s) message)
      | Handle h \<Rightarrow> handle_sign A S h message storage)"

section \<open>SafetyRules: state and checks\<close>

record 'st SafetyRules =
  sr_persistent_storage :: "'st PersistentSafetyStorage"
  sr_execution_public_key :: "Ed25519PublicKey option"
  sr_export_consensus_key :: bool
  sr_validator_signer :: "ConfigurableValidatorSigner option"
  sr_epoch_state :: "EpochState option"
  sr_decoupled_execution :: bool

record ConsensusState =
  cs_safety_data :: SafetyData
  cs_waypoint :: Waypoint
  cs_in_validator_set :: bool

definition next_round :: "Round \<Rightarrow> (Round, Error) result" where
  "next_round rnd = ok_or (checked_add rnd 1) (IncorrectRound rnd)"

text \<open>\<open>None\<close> is the panic of \<open>expect\<close>.\<close>

definition sr_new ::
  "'st storage_api \<Rightarrow> 'st PersistentSafetyStorage \<Rightarrow> bool \<Rightarrow> bool \<Rightarrow> bool \<Rightarrow> 'st SafetyRules option" where
  "sr_new A persistent_storage verify_vote_proposal_signature export_consensus_key
       decoupled_execution =
     (let make = (\<lambda>key. \<lparr>sr_persistent_storage = persistent_storage, sr_execution_public_key = key,
            sr_export_consensus_key = export_consensus_key, sr_validator_signer = None,
            sr_epoch_state = None, sr_decoupled_execution = decoupled_execution\<rparr>)
      in if verify_vote_proposal_signature \<and> \<not> decoupled_execution
         then (case pss_execution_public_key A persistent_storage of
                 Ok key \<Rightarrow> Some (make (Some key))
               | _ \<Rightarrow> None)
         else Some (make None))"

text \<open>The methods of the field \<open>persistent_storage\<close>.\<close>

definition on_storage ::
  "('st PersistentSafetyStorage, 'a, Error) st_result \<Rightarrow> ('st SafetyRules, 'a, Error) st_result" where
  "on_storage m = sfield sr_persistent_storage (\<lambda>p s. s\<lparr>sr_persistent_storage := p\<rparr>) m"

definition sr_signer :: "'st SafetyRules \<Rightarrow> (ConfigurableValidatorSigner, Error) result" where
  "sr_signer s = ok_or (sr_validator_signer s) (NotInitialized ''validator_signer'')"

definition sr_sign ::
  "'st storage_api \<Rightarrow> 'm sig_scheme \<Rightarrow> 'm \<Rightarrow> 'st SafetyRules \<Rightarrow> (Ed25519Signature, Error) result" where
  "sr_sign A S message s =
     rbind (sr_signer s) (\<lambda>signer. cvs_sign A S signer message (sr_persistent_storage s))"

definition epoch_state :: "'st SafetyRules \<Rightarrow> (EpochState, Error) result" where
  "epoch_state s = ok_or (sr_epoch_state s) (NotInitialized ''epoch_state'')"

definition observe_qc :: "QuorumCert \<Rightarrow> SafetyData \<Rightarrow> bool \<times> SafetyData" where
  "observe_qc qc sd =
     (let one_chain = bi_round (qc_certified_block qc);
          two_chain = bi_round (qc_parent_block qc);
          (updated1, sd1) = (if one_chain > sd_one_chain_round sd
                             then (True, sd\<lparr>sd_one_chain_round := one_chain\<rparr>) else (False, sd))
      in if two_chain > sd_preferred_round sd1
         then (True, sd1\<lparr>sd_preferred_round := two_chain\<rparr>) else (updated1, sd1))"

definition extension_check :: "consensus_crypto \<Rightarrow> VoteProposal \<Rightarrow> (VoteData, Error) result" where
  "extension_check C vote_proposal =
     (let proposed_block = vp_block vote_proposal
      in rbind (map_err InvalidAccumulatorExtension
                  (aep_verify (hash_node C) (vp_accumulator_extension_proof vote_proposal)
                     (bi_executed_state_id (qc_certified_block (blk_quorum_cert proposed_block)))))
           (\<lambda>new_tree. Ok (vote_data_with_extension_proof vote_proposal new_tree)))"

definition construct_ledger_info :: "Block \<Rightarrow> HashValue \<Rightarrow> (LedgerInfo, Error) result" where
  "construct_ledger_info proposed_block consensus_data_hash =
     (let block2 = blk_round proposed_block;
          block1 = bi_round (qc_certified_block (blk_quorum_cert proposed_block));
          block0 = bi_round (qc_parent_block (blk_quorum_cert proposed_block))
      in rbind (rbind (next_round block0) (\<lambda>n0. if n0 = block1
                  then rbind (next_round block1) (\<lambda>n1. Ok (n1 = block2)) else Ok False)) (\<lambda>commit.
         let commit_info = (if commit then qc_parent_block (blk_quorum_cert proposed_block)
                            else bi_empty)
         in Ok \<lparr>li_commit_info = commit_info, li_consensus_data_hash = consensus_data_hash\<rparr>))"

definition verify_and_update_preferred_round ::
  "QuorumCert \<Rightarrow> SafetyData \<Rightarrow> (bool \<times> SafetyData, Error) result" where
  "verify_and_update_preferred_round quorum_cert sd =
     (let preferred_round = sd_preferred_round sd;
          one_chain_round = bi_round (qc_certified_block quorum_cert)
      in if one_chain_round < preferred_round
         then Err (IncorrectPreferredRound one_chain_round preferred_round)
         else Ok (observe_qc quorum_cert sd))"

definition verify_author :: "'st SafetyRules \<Rightarrow> Author option \<Rightarrow> (unit, Error) result" where
  "verify_author s author =
     rbind (sr_signer s) (\<lambda>signer.
     rbind (ok_or author (InvalidProposal (Msg ''No author found in the proposal''))) (\<lambda>a.
     ensure (cvs_author signer = a)
       (InvalidProposal (Msg ''Proposal author is not validator signer!''))))"

definition verify_epoch :: "u64 \<Rightarrow> SafetyData \<Rightarrow> (unit, Error) result" where
  "verify_epoch epoch sd =
     (if epoch \<noteq> sd_epoch sd then Err (IncorrectEpoch epoch (sd_epoch sd)) else Ok ())"

definition verify_and_update_last_vote_round :: "Round \<Rightarrow> SafetyData \<Rightarrow> (SafetyData, Error) result" where
  "verify_and_update_last_vote_round rnd sd =
     (if rnd \<le> sd_last_voted_round sd
      then Err (IncorrectLastVotedRound rnd (sd_last_voted_round sd))
      else Ok (sd\<lparr>sd_last_voted_round := rnd\<rparr>))"

definition verify_qc :: "consensus_crypto \<Rightarrow> QuorumCert \<Rightarrow> 'st SafetyRules \<Rightarrow> (unit, Error) result" where
  "verify_qc C qc s =
     rbind (epoch_state s) (\<lambda>es.
     map_err InvalidQuorumCertificate (qc_verify C qc (es_verifier es)))"

definition verify_proposal ::
  "'st storage_api \<Rightarrow> consensus_crypto \<Rightarrow> u64 \<Rightarrow> MaybeSignedVoteProposal
     \<Rightarrow> ('st SafetyRules, VoteData, Error) st_result" where
  "verify_proposal A C now maybe_signed_vote_proposal =
     (let vote_proposal = mvp_vote_proposal maybe_signed_vote_proposal;
          execution_signature = mvp_signature maybe_signed_vote_proposal;
          proposed_block = vp_block vote_proposal
      in sbind (sread (\<lambda>s. case sr_execution_public_key s of
                  Some public_key \<Rightarrow>
                    rbind (ok_or execution_signature VoteProposalSignatureNotFound) (\<lambda>signature.
                    ensure (verify_struct_signature (cc_vote_proposal C) public_key vote_proposal signature)
                      (InternalError (Msg ''signature verification failed'')))
                | None \<Rightarrow> Ok ())) (\<lambda>_.
         sbind (on_storage (safety_data A)) (\<lambda>sd.
         sbind (slift (verify_epoch (blk_epoch proposed_block) sd)) (\<lambda>_.
         sbind (sread (verify_qc C (blk_quorum_cert proposed_block))) (\<lambda>_.
         sbind (sread epoch_state) (\<lambda>es.
         sbind (slift (map_err InvalidProposal
                  (validate_signature C proposed_block (es_verifier es)))) (\<lambda>_.
         sbind (slift (map_err InvalidProposal (blk_verify_well_formed now proposed_block))) (\<lambda>_.
         sread (\<lambda>s. if sr_decoupled_execution s
                     then Ok (vote_data_ordering_only vote_proposal)
                     else extension_check C vote_proposal)))))))))"

section \<open>SafetyRules: the public operations\<close>

definition guarded_consensus_state ::
  "'st storage_api \<Rightarrow> ('st SafetyRules, ConsensusState, Error) st_result" where
  "guarded_consensus_state A =
     sbind (sread (\<lambda>s. pss_waypoint A (sr_persistent_storage s))) (\<lambda>waypoint.
     sbind (on_storage (safety_data A)) (\<lambda>sd.
     sbind (sread (\<lambda>s. pss_author A (sr_persistent_storage s))) (\<lambda>author.
     sbind (on_storage (safety_data A)) (\<lambda>sd'.
     sbind (sread (\<lambda>s. pss_waypoint A (sr_persistent_storage s))) (\<lambda>waypoint'.
     sread (\<lambda>s. Ok \<lparr>cs_safety_data = sd', cs_waypoint = waypoint',
                     cs_in_validator_set = is_ok (sr_signer s)\<rparr>))))))"

text \<open>The reconciliation of the consensus key, \<open>initialize_result\<close> of the source.\<close>

definition reconcile_key ::
  "'st storage_api \<Rightarrow> consensus_crypto \<Rightarrow> Author \<Rightarrow> Ed25519PublicKey option
     \<Rightarrow> ('st SafetyRules, unit, Error) st_result" where
  "reconcile_key A C author expected = (\<lambda>s.
     case expected of
       None \<Rightarrow> (Err (ValidatorNotInSet author), s)
     | Some expected_key \<Rightarrow>
         if map_option (cvs_public_key C) (sr_validator_signer s) = Some expected_key
         then (Ok (), s)
         else if sr_export_consensus_key s
         then (case consensus_key_for_version A (sr_persistent_storage s) expected_key of
                 Ok consensus_key \<Rightarrow>
                   (Ok (), s\<lparr>sr_validator_signer := Some (new_signer author consensus_key)\<rparr>)
               | Err (SecureStorageMissingDataError e) \<Rightarrow>
                   (Err (ValidatorKeyNotFound (SecureStorageMissingDataError e)), s)
               | Err e \<Rightarrow> (Err e, s)
               | Panic \<Rightarrow> (Panic, s))
         else
           (let s' = s\<lparr>sr_validator_signer := Some (new_handle author expected_key)\<rparr>
            in (map_err ValidatorKeyNotFound (map_ok (\<lambda>_. ())
                  (sr_sign A (cc_timeout C) \<lparr>to_epoch = 0, to_round = 0\<rparr> s')), s')))"

definition guarded_initialize ::
  "'st storage_api \<Rightarrow> consensus_crypto \<Rightarrow> EpochChangeProof \<Rightarrow> ('st SafetyRules, unit, Error) st_result" where
  "guarded_initialize A C proof' =
     sbind (sread (\<lambda>s. pss_waypoint A (sr_persistent_storage s))) (\<lambda>waypoint.
     sbind (slift (map_err InvalidEpochChangeProof
              (ecp_verify (cc_ledger_info C) proof' (wp_dyn (hash_waypoint C) waypoint)))) (\<lambda>last_li.
     let ledger_info = lis_ledger_info last_li
     in sbind (slift (ok_or (li_next_epoch_state ledger_info) InvalidLedgerInfo)) (\<lambda>es.
        sbind (on_storage (safety_data A)) (\<lambda>sd.
        sbind (if sd_epoch sd < es_epoch es
               then
                 sbind (slift (map_err InternalError
                          (wp_new_epoch_boundary (hash_waypoint C) ledger_info))) (\<lambda>new_waypoint.
                 sbind (on_storage (set_waypoint A new_waypoint)) (\<lambda>_.
                 on_storage (set_safety_data A (sd_new (es_epoch es) 0 0 0 None))))
               else sret ()) (\<lambda>_.
        sbind (smodify (\<lambda>s. s\<lparr>sr_epoch_state := Some es\<rparr>)) (\<lambda>_.
        sbind (sread (\<lambda>s. pss_author A (sr_persistent_storage s))) (\<lambda>author.
        (\<lambda>s. case reconcile_key A C author (get_public_key (es_verifier es) author) s of
               (Err e, s') \<Rightarrow> (Err e, s'\<lparr>sr_validator_signer := None\<rparr>)
             | (r, s') \<Rightarrow> (r, s')))))))))"

definition guarded_construct_and_sign_vote ::
  "'st storage_api \<Rightarrow> consensus_crypto \<Rightarrow> u64 \<Rightarrow> MaybeSignedVoteProposal
     \<Rightarrow> ('st SafetyRules, Vote, Error) st_result" where
  "guarded_construct_and_sign_vote A C now maybe_signed_vote_proposal =
     sbind (sread sr_signer) (\<lambda>_.
     sbind (verify_proposal A C now maybe_signed_vote_proposal) (\<lambda>vote_data.
     sbind (on_storage (safety_data A)) (\<lambda>sd.
     let proposed_block = vp_block (mvp_vote_proposal maybe_signed_vote_proposal);
         construct =
           sbind (slift (verify_and_update_preferred_round (blk_quorum_cert proposed_block) sd)) (\<lambda>(_, sd1).
           sbind (slift (verify_and_update_last_vote_round
                    (bd_round (blk_block_data proposed_block)) sd1)) (\<lambda>sd2.
           sbind (sread sr_signer) (\<lambda>signer.
           sbind (slift (construct_ledger_info proposed_block (hash_vote_data C vote_data))) (\<lambda>ledger_info.
           sbind (sread (sr_sign A (cc_ledger_info C) ledger_info)) (\<lambda>signature.
           let vote = vote_new_with_signature vote_data (cvs_author signer) ledger_info signature
           in sbind (on_storage (set_safety_data A (sd2\<lparr>sd_last_vote := Some vote\<rparr>))) (\<lambda>_.
              sret vote))))))
     in case sd_last_vote sd of
          Some vote \<Rightarrow>
            if bi_round (vd_proposed (vote_vote_data vote)) = blk_round proposed_block
            then sret vote else construct
        | None \<Rightarrow> construct)))"

definition guarded_sign_proposal ::
  "'st storage_api \<Rightarrow> consensus_crypto \<Rightarrow> BlockData
     \<Rightarrow> ('st SafetyRules, Ed25519Signature, Error) st_result" where
  "guarded_sign_proposal A C block_data =
     sbind (sread sr_signer) (\<lambda>_.
     sbind (sread (\<lambda>s. verify_author s (bd_author block_data))) (\<lambda>_.
     sbind (on_storage (safety_data A)) (\<lambda>sd.
     sbind (slift (verify_epoch (bd_epoch block_data) sd)) (\<lambda>_.
     sbind (if bd_round block_data \<le> sd_last_voted_round sd
            then sthrow (InvalidProposal (Msg ''Proposed round is not higher than last voted round''))
            else sret ()) (\<lambda>_.
     sbind (sread (verify_qc C (bd_quorum_cert block_data))) (\<lambda>_.
     sbind (slift (verify_and_update_preferred_round (bd_quorum_cert block_data) sd)) (\<lambda>_.
     sread (sr_sign A (cc_block_data C) block_data))))))))"

definition guarded_sign_timeout ::
  "'st storage_api \<Rightarrow> consensus_crypto \<Rightarrow> Timeout
     \<Rightarrow> ('st SafetyRules, Ed25519Signature, Error) st_result" where
  "guarded_sign_timeout A C timeout =
     sbind (sread sr_signer) (\<lambda>_.
     sbind (on_storage (safety_data A)) (\<lambda>sd.
     sbind (slift (verify_epoch (to_epoch timeout) sd)) (\<lambda>_.
     sbind (if to_round timeout \<le> sd_preferred_round sd
            then sthrow (IncorrectPreferredRound (to_round timeout) (sd_preferred_round sd))
            else sret ()) (\<lambda>_.
     sbind (if to_round timeout < sd_last_voted_round sd
            then sthrow (IncorrectLastVotedRound (to_round timeout) (sd_last_voted_round sd))
            else sret ()) (\<lambda>_.
     sbind (if to_round timeout > sd_last_voted_round sd
            then
              sbind (slift (verify_and_update_last_vote_round (to_round timeout) sd)) (\<lambda>sd'.
              on_storage (set_safety_data A sd'))
            else sret ()) (\<lambda>_.
     sread (sr_sign A (cc_timeout C) timeout)))))))"

definition guarded_sign_commit_vote ::
  "'st storage_api \<Rightarrow> consensus_crypto \<Rightarrow> LedgerInfoWithSignatures \<Rightarrow> LedgerInfo
     \<Rightarrow> ('st SafetyRules, Ed25519Signature, Error) st_result" where
  "guarded_sign_commit_vote A C ledger_info new_ledger_info =
     sbind (sread sr_signer) (\<lambda>_.
     let old_ledger_info = lis_ledger_info ledger_info
     in sbind (if \<not> is_ordered_only (li_commit_info old_ledger_info)
               then sthrow (InvalidOrderedLedgerInfo old_ledger_info) else sret ()) (\<lambda>_.
        sbind (if \<not> match_ordered_only (li_commit_info old_ledger_info) (li_commit_info new_ledger_info)
               then sthrow (InconsistentExecutionResult (li_commit_info old_ledger_info)
                              (li_commit_info new_ledger_info))
               else sret ()) (\<lambda>_.
        sbind (sread epoch_state) (\<lambda>es.
        sbind (slift (map_err (\<lambda>e. InvalidQuorumCertificate (FromVerifyError e))
                 (lis_verify_signatures (cc_ledger_info C) ledger_info (es_verifier es)))) (\<lambda>_.
        sread (sr_sign A (cc_ledger_info C) new_ledger_info))))))"

section \<open>SafetyRules: the 2-chain operations\<close>

definition verify_tc ::
  "consensus_crypto \<Rightarrow> TwoChainTimeoutCertificate \<Rightarrow> 'st SafetyRules \<Rightarrow> (unit, Error) result" where
  "verify_tc C tc s =
     rbind (epoch_state s) (\<lambda>es.
     map_err InvalidTimeoutCertificate (tctc_verify C tc (es_verifier es)))"

definition verify_maybe_tc ::
  "consensus_crypto \<Rightarrow> TwoChainTimeoutCertificate option \<Rightarrow> 'st SafetyRules \<Rightarrow> (unit, Error) result" where
  "verify_maybe_tc C timeout_cert s = (case timeout_cert of Some tc \<Rightarrow> verify_tc C tc s | None \<Rightarrow> Ok ())"

definition safe_to_timeout ::
  "TwoChainTimeout \<Rightarrow> TwoChainTimeoutCertificate option \<Rightarrow> SafetyData \<Rightarrow> (unit, Error) result" where
  "safe_to_timeout timeout maybe_tc sd =
     (let rnd = tct_round timeout;
          qc_round = tct_hqc_round timeout;
          tc_round = (case maybe_tc of Some tc \<Rightarrow> tctc_round tc | None \<Rightarrow> 0)
      in rbind (rbind (next_round qc_round) (\<lambda>nq. if rnd = nq then Ok True
                  else rbind (next_round tc_round) (\<lambda>nt. Ok (rnd = nt)))) (\<lambda>next.
         if next \<and> qc_round \<ge> sd_one_chain_round sd then Ok ()
         else Err (NotSafeToTimeout rnd qc_round tc_round (sd_one_chain_round sd))))"

definition safe_to_vote ::
  "Block \<Rightarrow> TwoChainTimeoutCertificate option \<Rightarrow> (unit, Error) result" where
  "safe_to_vote block maybe_tc =
     (let rnd = blk_round block;
          qc_round = bi_round (qc_certified_block (blk_quorum_cert block));
          tc_round = (case maybe_tc of Some tc \<Rightarrow> tctc_round tc | None \<Rightarrow> 0);
          hqc_round = (case maybe_tc of Some tc \<Rightarrow> highest_hqc_round tc | None \<Rightarrow> 0)
      in rbind (rbind (next_round qc_round) (\<lambda>nq. if rnd = nq then Ok True
                  else rbind (next_round tc_round) (\<lambda>nt. Ok (rnd = nt \<and> qc_round \<ge> hqc_round)))) (\<lambda>safe.
         if safe then Ok () else Err (NotSafeToVote rnd qc_round tc_round hqc_round)))"

definition construct_ledger_info_2chain :: "Block \<Rightarrow> HashValue \<Rightarrow> (LedgerInfo, Error) result" where
  "construct_ledger_info_2chain proposed_block consensus_data_hash =
     (let block1 = blk_round proposed_block;
          block0 = bi_round (qc_certified_block (blk_quorum_cert proposed_block))
      in rbind (next_round block0) (\<lambda>n0.
         let commit_info = (if n0 = block1 then qc_certified_block (blk_quorum_cert proposed_block)
                            else bi_empty)
         in Ok \<lparr>li_commit_info = commit_info, li_consensus_data_hash = consensus_data_hash\<rparr>))"

definition guarded_sign_timeout_with_qc ::
  "'st storage_api \<Rightarrow> consensus_crypto \<Rightarrow> TwoChainTimeout \<Rightarrow> TwoChainTimeoutCertificate option
     \<Rightarrow> ('st SafetyRules, Ed25519Signature, Error) st_result" where
  "guarded_sign_timeout_with_qc A C timeout timeout_cert =
     sbind (sread sr_signer) (\<lambda>_.
     sbind (on_storage (safety_data A)) (\<lambda>sd.
     sbind (slift (verify_epoch (tct_epoch timeout) sd)) (\<lambda>_.
     sbind (sread (verify_qc C (tct_quorum_cert timeout))) (\<lambda>_.
     sbind (sread (verify_maybe_tc C timeout_cert)) (\<lambda>_.
     sbind (slift (safe_to_timeout timeout timeout_cert sd)) (\<lambda>_.
     sbind (if tct_round timeout < sd_last_voted_round sd
            then sthrow (IncorrectLastVotedRound (tct_round timeout) (sd_last_voted_round sd))
            else sret ()) (\<lambda>_.
     sbind (if tct_round timeout > sd_last_voted_round sd
            then
              sbind (slift (verify_and_update_last_vote_round (tct_round timeout) sd)) (\<lambda>sd'.
              on_storage (set_safety_data A sd'))
            else sret ()) (\<lambda>_.
     sread (sr_sign A (cc_timeout_repr C) (signing_format timeout))))))))))"

definition guarded_construct_and_sign_vote_two_chain ::
  "'st storage_api \<Rightarrow> consensus_crypto \<Rightarrow> u64 \<Rightarrow> MaybeSignedVoteProposal
     \<Rightarrow> TwoChainTimeoutCertificate option \<Rightarrow> ('st SafetyRules, Vote, Error) st_result" where
  "guarded_construct_and_sign_vote_two_chain A C now maybe_signed_vote_proposal timeout_cert =
     sbind (sread sr_signer) (\<lambda>_.
     sbind (verify_proposal A C now maybe_signed_vote_proposal) (\<lambda>vote_data.
     sbind (sread (verify_maybe_tc C timeout_cert)) (\<lambda>_.
     sbind (on_storage (safety_data A)) (\<lambda>sd.
     let proposed_block = vp_block (mvp_vote_proposal maybe_signed_vote_proposal);
         construct =
           sbind (slift (verify_and_update_last_vote_round
                    (bd_round (blk_block_data proposed_block)) sd)) (\<lambda>sd1.
           sbind (slift (safe_to_vote proposed_block timeout_cert)) (\<lambda>_.
           let sd2 = snd (observe_qc (blk_quorum_cert proposed_block) sd1)
           in sbind (sread sr_signer) (\<lambda>signer.
              sbind (slift (construct_ledger_info_2chain proposed_block
                       (hash_vote_data C vote_data))) (\<lambda>ledger_info.
              sbind (sread (sr_sign A (cc_ledger_info C) ledger_info)) (\<lambda>signature.
              let vote = vote_new_with_signature vote_data (cvs_author signer) ledger_info signature
              in sbind (on_storage (set_safety_data A (sd2\<lparr>sd_last_vote := Some vote\<rparr>))) (\<lambda>_.
                 sret vote))))))
     in case sd_last_vote sd of
          Some vote \<Rightarrow>
            if bi_round (vd_proposed (vote_vote_data vote)) = blk_round proposed_block
            then sret vote else construct
        | None \<Rightarrow> construct))))"

section \<open>The service\<close>

text \<open>
  \<open>SerializerService::handle_message\<close>, the one entry point of a safety rules process, on decoded
  messages.
\<close>

datatype SafetyRulesInput =
    ConsensusStateInput
  | Initialize EpochChangeProof
  | ConstructAndSignVote MaybeSignedVoteProposal
  | SignProposal BlockData
  | SignTimeout Timeout
  | SignTimeoutWithQC TwoChainTimeout "TwoChainTimeoutCertificate option"
  | ConstructAndSignVoteTwoChain MaybeSignedVoteProposal "TwoChainTimeoutCertificate option"
  | SignCommitVote LedgerInfoWithSignatures LedgerInfo

datatype SafetyRulesReply =
    ConsensusStateReply "(ConsensusState, Error) result"
  | InitializeReply "(unit, Error) result"
  | VoteReply "(Vote, Error) result"
  | SignatureReply "(Ed25519Signature, Error) result"

definition handle_message ::
  "'st storage_api \<Rightarrow> consensus_crypto \<Rightarrow> u64 \<Rightarrow> SafetyRulesInput \<Rightarrow> 'st SafetyRules
     \<Rightarrow> SafetyRulesReply \<times> 'st SafetyRules" where
  "handle_message A C now input s =
     (case input of
        ConsensusStateInput \<Rightarrow> map_prod ConsensusStateReply id (guarded_consensus_state A s)
      | Initialize proof' \<Rightarrow> map_prod InitializeReply id (guarded_initialize A C proof' s)
      | ConstructAndSignVote vote_proposal \<Rightarrow>
          map_prod VoteReply id (guarded_construct_and_sign_vote A C now vote_proposal s)
      | SignProposal block_data \<Rightarrow>
          map_prod SignatureReply id (guarded_sign_proposal A C block_data s)
      | SignTimeout timeout \<Rightarrow> map_prod SignatureReply id (guarded_sign_timeout A C timeout s)
      | SignTimeoutWithQC timeout maybe_tc \<Rightarrow>
          map_prod SignatureReply id (guarded_sign_timeout_with_qc A C timeout maybe_tc s)
      | ConstructAndSignVoteTwoChain vote_proposal maybe_tc \<Rightarrow>
          map_prod VoteReply id
            (guarded_construct_and_sign_vote_two_chain A C now vote_proposal maybe_tc s)
      | SignCommitVote ledger_info new_ledger_info \<Rightarrow>
          map_prod SignatureReply id (guarded_sign_commit_vote A C ledger_info new_ledger_info s))"

end
