(* ===== verification/SafetyRefinement.thy ===== *)
theory SafetyRefinement
  imports SafetySpec
begin

text \<open>
  Every message that a safety rules process handles is a step of the abstract machine of
  \<open>SafetySpec\<close> on what is durably stored, whatever backend meets \<open>kv_storage\<close>. The consequences
  for runs of a process, with restarts and lost replies, are properties of the code.
\<close>

section \<open>The abstraction\<close>

definition persisted ::
  "('st \<Rightarrow> string \<Rightarrow> stored_value option) \<Rightarrow> 'st SafetyRules \<Rightarrow> SafetyData option" where
  "persisted contents s =
     (case contents (pss_internal_store (sr_persistent_storage s)) SAFETY_DATA of
        Some (StoredSafetyData sd) \<Rightarrow> Some sd
      | _ \<Rightarrow> None)"

definition cache_coherent ::
  "('st \<Rightarrow> string \<Rightarrow> stored_value option) \<Rightarrow> 'st SafetyRules \<Rightarrow> bool" where
  "cache_coherent contents s \<longleftrightarrow>
     (\<forall>sd. pss_cached_safety_data (sr_persistent_storage s) = Some sd \<longrightarrow>
        persisted contents s = Some sd)"

definition in_phase ::
  "('st \<Rightarrow> string \<Rightarrow> stored_value option) \<Rightarrow> SafetyData option \<Rightarrow> EpochState option
     \<Rightarrow> 'st SafetyRules \<Rightarrow> bool" where
  "in_phase contents ps es s \<longleftrightarrow>
     cache_coherent contents s \<and> persisted contents s = ps \<and> sr_epoch_state s = es"

text \<open>What a reply gives away.\<close>

definition emitted :: "SafetyRulesInput \<Rightarrow> SafetyRulesReply \<Rightarrow> sr_output" where
  "emitted input reply =
     (case (input, reply) of
        (ConstructAndSignVote _, VoteReply (Ok v)) \<Rightarrow> OutVote v
      | (ConstructAndSignVoteTwoChain _ _, VoteReply (Ok v)) \<Rightarrow> OutVote v
      | (SignProposal b, SignatureReply (Ok _)) \<Rightarrow> OutProposal b
      | (SignTimeout t, SignatureReply (Ok _)) \<Rightarrow> OutTimeout t
      | (SignTimeoutWithQC t _, SignatureReply (Ok _)) \<Rightarrow> OutTimeout2 (signing_format t)
      | (SignCommitVote _ li, SignatureReply (Ok _)) \<Rightarrow> OutCommitVote li
      | _ \<Rightarrow> OutNone)"

text \<open>
  The world of the abstract machine that the code lives in: \<open>ES e\<close> is the validator set of epoch
  \<open>e\<close>, \<open>Q\<close> holds the quorum certificates that circulate and \<open>T e\<close> the timeout certificates that are
  presented in epoch \<open>e\<close>.
\<close>

definition code_world ::
  "vote_rule set \<Rightarrow> consensus_crypto \<Rightarrow> (u64 \<Rightarrow> EpochState) \<Rightarrow> QuorumCert set
     \<Rightarrow> (u64 \<Rightarrow> TwoChainTimeoutCertificate set) \<Rightarrow> voting_world" where
  "code_world R C ES Q T =
     \<lparr>vw_rules = R,
      vw_qc_ok = (\<lambda>e qc. qc \<in> Q \<and> qc_verify C qc (es_verifier (ES e)) = Ok ()),
      vw_tc_ok = (\<lambda>e tc. tc \<in> T e \<and> tctc_verify C tc (es_verifier (ES e)) = Ok ())\<rparr>"

fun admissible ::
  "vote_rule set \<Rightarrow> QuorumCert set \<Rightarrow> (u64 \<Rightarrow> TwoChainTimeoutCertificate set) \<Rightarrow> SafetyRulesInput \<Rightarrow> bool" where
  "admissible R Q T (ConstructAndSignVote p) \<longleftrightarrow>
     ThreeChain \<in> R \<and> blk_quorum_cert (vp_block (mvp_vote_proposal p)) \<in> Q"
| "admissible R Q T (ConstructAndSignVoteTwoChain p tc) \<longleftrightarrow>
     TwoChain \<in> R \<and> blk_quorum_cert (vp_block (mvp_vote_proposal p)) \<in> Q
     \<and> (\<forall>t. tc = Some t \<longrightarrow> t \<in> T (blk_epoch (vp_block (mvp_vote_proposal p))))"
| "admissible R Q T _ \<longleftrightarrow> True"

text \<open>The validator set in use is that of the persisted epoch.\<close>

definition installed ::
  "(u64 \<Rightarrow> EpochState) \<Rightarrow> SafetyData \<Rightarrow> EpochState option \<Rightarrow> bool" where
  "installed ES sd es \<longleftrightarrow> (es = None \<or> es = Some (ES (sd_epoch sd)))"

section \<open>Facts about the checks\<close>

lemma next_round_Ok [simp]: "next_round r = Ok n \<longleftrightarrow> consecutive r n"
  by (auto simp: next_round_def consecutive_def checked_add_Some)

lemma consecutive_fun: "consecutive r n \<Longrightarrow> consecutive r m \<Longrightarrow> n = m"
  by (simp add: consecutive_def word_unat_eq_iff)

lemma construct_ledger_info_Ok:
  assumes "construct_ledger_info b h = Ok li"
  shows "li = \<lparr>li_commit_info =
      (if consecutive (bi_round (qc_parent_block (blk_quorum_cert b)))
            (bi_round (qc_certified_block (blk_quorum_cert b)))
          \<and> consecutive (bi_round (qc_certified_block (blk_quorum_cert b))) (blk_round b)
       then qc_parent_block (blk_quorum_cert b) else bi_empty), li_consensus_data_hash = h\<rparr>"
  using assms
  by (auto simp: construct_ledger_info_def Let_def dest: consecutive_fun split: if_splits)

lemma construct_ledger_info_2chain_Ok:
  assumes "construct_ledger_info_2chain b h = Ok li"
  shows "li = \<lparr>li_commit_info =
      (if consecutive (bi_round (qc_certified_block (blk_quorum_cert b))) (blk_round b)
       then qc_certified_block (blk_quorum_cert b) else bi_empty), li_consensus_data_hash = h\<rparr>"
  using assms
  by (auto simp: construct_ledger_info_2chain_def Let_def dest: consecutive_fun split: if_splits)

lemma observe_qc_snd:
  "snd (observe_qc qc sd) = sd\<lparr>sd_one_chain_round := max (sd_one_chain_round sd) (bi_round (qc_certified_block qc)),
     sd_preferred_round := max (sd_preferred_round sd) (bi_round (qc_parent_block qc))\<rparr>"
  by (auto simp: observe_qc_def Let_def max_def)

lemma verify_and_update_preferred_round_Ok:
  "verify_and_update_preferred_round qc sd = Ok (b, sd') \<longleftrightarrow>
     sd_preferred_round sd \<le> bi_round (qc_certified_block qc) \<and> (b, sd') = observe_qc qc sd"
  by (auto simp: verify_and_update_preferred_round_def Let_def)

lemma verify_and_update_last_vote_round_Ok:
  "verify_and_update_last_vote_round r sd = Ok sd' \<longleftrightarrow>
     sd_last_voted_round sd < r \<and> sd' = sd\<lparr>sd_last_voted_round := r\<rparr>"
  by (auto simp: verify_and_update_last_vote_round_def)

lemma verify_epoch_Ok [simp]: "verify_epoch e sd = Ok u \<longleftrightarrow> e = sd_epoch sd"
  by (auto simp: verify_epoch_def)

lemma safe_to_vote_Ok:
  assumes "safe_to_vote b maybe_tc = Ok ()"
    and "bi_round (qc_certified_block (blk_quorum_cert b)) < blk_round b"
  shows "consecutive (bi_round (qc_certified_block (blk_quorum_cert b))) (blk_round b)
    \<or> (\<exists>tc. maybe_tc = Some tc \<and> consecutive (tctc_round tc) (blk_round b)
         \<and> highest_hqc_round tc \<le> bi_round (qc_certified_block (blk_quorum_cert b)))"
proof (cases "consecutive (bi_round (qc_certified_block (blk_quorum_cert b))) (blk_round b)")
  case False
  with assms(1) have nt: "(case maybe_tc of None \<Rightarrow> consecutive 0 (blk_round b)
      | Some tc \<Rightarrow> consecutive (tctc_round tc) (blk_round b)
          \<and> highest_hqc_round tc \<le> bi_round (qc_certified_block (blk_quorum_cert b)))"
    by (auto simp: safe_to_vote_def Let_def split: if_splits option.splits)
  show ?thesis
  proof (cases maybe_tc)
    case None
    with nt assms(2) have "consecutive (bi_round (qc_certified_block (blk_quorum_cert b))) (blk_round b)"
      by (auto simp: consecutive_def word_less_nat_alt)
    with False show ?thesis by simp
  qed (use nt in auto)
qed simp

lemma safe_to_timeout_Ok:
  "safe_to_timeout t maybe_tc sd = Ok () \<Longrightarrow> sd_one_chain_round sd \<le> tct_hqc_round t"
  by (auto simp: safe_to_timeout_def Let_def split: if_splits)

lemma well_formed_parent:
  assumes "blk_verify_well_formed now b = Ok ()"
  shows "bi_round (qc_certified_block (blk_quorum_cert b)) < blk_round b"
    and "bi_epoch (qc_certified_block (blk_quorum_cert b)) = blk_epoch b"
  using assms by (auto simp: blk_verify_well_formed_def Let_def)

lemma verify_qc_in_phase:
  "in_phase contents ps es s \<Longrightarrow> verify_qc C qc s = Ok () \<Longrightarrow>
     \<exists>e. es = Some e \<and> qc_verify C qc (es_verifier e) = Ok ()"
  by (auto simp: in_phase_def verify_qc_def epoch_state_def)

lemma verify_maybe_tc_in_phase:
  "in_phase contents ps es s \<Longrightarrow> verify_maybe_tc C (Some tc) s = Ok () \<Longrightarrow>
     \<exists>e. es = Some e \<and> tctc_verify C tc (es_verifier e) = Ok ()"
  by (auto simp: in_phase_def verify_maybe_tc_def verify_tc_def epoch_state_def)

text \<open>What holds when an operation ends: some step was taken, whatever the reply says.\<close>

definition stepped ::
  "('st \<Rightarrow> string \<Rightarrow> stored_value option) \<Rightarrow> consensus_crypto \<Rightarrow> voting_world \<Rightarrow> SafetyData \<Rightarrow> sr_output \<Rightarrow> 'st SafetyRules \<Rightarrow> bool" where
  "stepped contents C W sd out s \<longleftrightarrow> cache_coherent contents s
     \<and> (\<exists>sd'. persisted contents s = Some sd' \<and> sd_step C W sd out sd')"

definition stepped_any ::
  "('st \<Rightarrow> string \<Rightarrow> stored_value option) \<Rightarrow> consensus_crypto \<Rightarrow> voting_world \<Rightarrow> SafetyData \<Rightarrow> 'st SafetyRules \<Rightarrow> bool" where
  "stepped_any contents C W sd s \<longleftrightarrow> (\<exists>out. stepped contents C W sd out s)"

text \<open>What \<open>verify_proposal\<close> has established when it returns the vote data.\<close>

definition proposal_checked ::
  "consensus_crypto \<Rightarrow> EpochState option \<Rightarrow> MaybeSignedVoteProposal \<Rightarrow> SafetyData \<Rightarrow> VoteData \<Rightarrow> bool" where
  "proposal_checked C es p sd vd \<longleftrightarrow>
     (let b = vp_block (mvp_vote_proposal p); qc = blk_quorum_cert b
      in blk_epoch b = sd_epoch sd \<and> bi_epoch (qc_certified_block qc) = blk_epoch b
         \<and> bi_round (qc_certified_block qc) < blk_round b
         \<and> (\<exists>e. es = Some e \<and> qc_verify C qc (es_verifier e) = Ok ())
         \<and> vd_parent vd = qc_certified_block qc \<and> bi_round (vd_proposed vd) = blk_round b
         \<and> bi_epoch (vd_proposed vd) = blk_epoch b)"

lemma timeout_step:
  assumes "to_epoch t = sd_epoch sd" and "sd_preferred_round sd < to_round t"
    and "sd_last_voted_round sd \<le> to_round t"
  shows "sd_step C W sd (OutTimeout t) (sd\<lparr>sd_last_voted_round := to_round t\<rparr>)"
    and "sd_last_voted_round sd = to_round t \<Longrightarrow> sd_step C W sd (OutTimeout t) sd"
  using sd_step.step_timeout [OF assms, of C W] by (cases sd; simp)+

lemma timeout2_step:
  assumes "tct_epoch t = sd_epoch sd" and "sd_one_chain_round sd \<le> tct_hqc_round t"
    and "sd_last_voted_round sd \<le> tct_round t"
  shows "sd_step C W sd (OutTimeout2 (signing_format t)) (sd\<lparr>sd_last_voted_round := tct_round t\<rparr>)"
    and "sd_last_voted_round sd = tct_round t \<Longrightarrow> sd_step C W sd (OutTimeout2 (signing_format t)) sd"
  using sd_step.step_timeout2 [of "signing_format t" sd C W] assms
  by (cases sd; simp add: signing_format_def)+

lemma vote3_step:
  assumes pc: "proposal_checked C es p sd vd"
    and pref: "verify_and_update_preferred_round (blk_quorum_cert (vp_block (mvp_vote_proposal p))) sd = Ok (u, sd1)"
    and last: "verify_and_update_last_vote_round (bd_round (blk_block_data (vp_block (mvp_vote_proposal p)))) sd1 = Ok sd2"
    and li: "construct_ledger_info (vp_block (mvp_vote_proposal p)) (hash_vote_data C vd) = Ok li"
    and adm: "admissible R Q T (ConstructAndSignVote p)" and ins: "installed ES sd es"
  shows "sd_step C (code_world R C ES Q T) sd (OutVote (vote_new_with_signature vd a li sg))
           (sd2\<lparr>sd_last_vote := Some (vote_new_with_signature vd a li sg)\<rparr>)"
proof -
  let ?b = "vp_block (mvp_vote_proposal p)" and ?v = "vote_new_with_signature vd a li sg"
  let ?qc = "blk_quorum_cert ?b"
  have sd1: "sd1 = snd (observe_qc ?qc sd)" and ge: "sd_preferred_round sd \<le> bi_round (qc_certified_block ?qc)"
    using pref unfolding verify_and_update_preferred_round_Ok by (metis snd_conv, blast)
  have sd2: "sd2 = sd1\<lparr>sd_last_voted_round := blk_round ?b\<rparr>" and gt: "sd_last_voted_round sd < blk_round ?b"
    using last sd1 by (auto simp: verify_and_update_last_vote_round_Ok observe_qc_snd)
  have "sd_step C (code_world R C ES Q T) sd (OutVote ?v) (sd_cast ?qc ?v sd)"
  proof (rule sd_step.step_vote3)
    show "extends_qc C (sd_epoch sd) ?qc ?v"
      using pc construct_ledger_info_Ok [OF li]
      by (auto simp: extends_qc_def proposal_checked_def Let_def vote_accessors vote_new_with_signature_def)
    show "vote_commit_info ?v = three_chain_commit ?qc ?v"
      using pc construct_ledger_info_Ok [OF li]
      by (auto simp: three_chain_commit_def proposal_checked_def Let_def vote_accessors vote_new_with_signature_def)
  qed (use pc ge gt adm ins in \<open>auto simp: code_world_def installed_def proposal_checked_def Let_def
      vote_accessors vote_new_with_signature_def\<close>)
  moreover have "sd_cast ?qc ?v sd = sd2\<lparr>sd_last_vote := Some ?v\<rparr>"
    using pc sd1 sd2 by (simp add: sd_cast_def observe_qc_snd proposal_checked_def Let_def vote_accessors
        vote_new_with_signature_def)
  ultimately show ?thesis by simp
qed

lemma vote2_step:
  assumes pc: "proposal_checked C es p sd vd"
    and tc: "in_phase contents ps es s" "verify_maybe_tc C tc s = Ok u"
    and last: "verify_and_update_last_vote_round (bd_round (blk_block_data (vp_block (mvp_vote_proposal p)))) sd = Ok sd1"
    and safe: "safe_to_vote (vp_block (mvp_vote_proposal p)) tc = Ok u'"
    and li: "construct_ledger_info_2chain (vp_block (mvp_vote_proposal p)) (hash_vote_data C vd) = Ok li"
    and adm: "admissible R Q T (ConstructAndSignVoteTwoChain p tc)" and ins: "installed ES sd es"
  shows "sd_step C (code_world R C ES Q T) sd (OutVote (vote_new_with_signature vd a li sg))
           ((snd (observe_qc (blk_quorum_cert (vp_block (mvp_vote_proposal p))) sd1))
              \<lparr>sd_last_vote := Some (vote_new_with_signature vd a li sg)\<rparr>)"
proof -
  let ?b = "vp_block (mvp_vote_proposal p)" and ?v = "vote_new_with_signature vd a li sg"
  let ?qc = "blk_quorum_cert ?b"
  have sd1: "sd1 = sd\<lparr>sd_last_voted_round := blk_round ?b\<rparr>" and gt: "sd_last_voted_round sd < blk_round ?b"
    using last by (auto simp: verify_and_update_last_vote_round_Ok)
  have par: "bi_round (qc_certified_block ?qc) < blk_round ?b" "vote_round ?v = blk_round ?b"
    "vote_parent_round ?v = bi_round (qc_certified_block ?qc)" "blk_epoch ?b = sd_epoch sd"
    using pc by (auto simp: proposal_checked_def Let_def vote_accessors vote_new_with_signature_def)
  have tc_ok: "vw_tc_ok (code_world R C ES Q T) (sd_epoch sd) t" if "tc = Some t" for t
    using that tc verify_maybe_tc_in_phase adm ins par(4)
    by (fastforce simp: code_world_def installed_def)
  have "sd_step C (code_world R C ES Q T) sd (OutVote ?v) (sd_cast ?qc ?v sd)"
  proof (rule sd_step.step_vote2)
    show "extends_qc C (sd_epoch sd) ?qc ?v"
      using pc construct_ledger_info_2chain_Ok [OF li]
      by (auto simp: extends_qc_def proposal_checked_def Let_def vote_accessors vote_new_with_signature_def)
    show "vote_commit_info ?v = two_chain_commit ?qc ?v"
      using pc construct_ledger_info_2chain_Ok [OF li]
      by (auto simp: two_chain_commit_def proposal_checked_def Let_def vote_accessors vote_new_with_signature_def)
    show "consecutive (vote_parent_round ?v) (vote_round ?v) \<or>
        (\<exists>t. vw_tc_ok (code_world R C ES Q T) (sd_epoch sd) t \<and> consecutive (tctc_round t) (vote_round ?v)
           \<and> highest_hqc_round t \<le> vote_parent_round ?v)"
      using safe_to_vote_Ok [of ?b tc] safe tc_ok par by auto
  qed (use pc gt adm ins par in \<open>auto simp: code_world_def installed_def proposal_checked_def Let_def\<close>)
  moreover have "sd_cast ?qc ?v sd = (snd (observe_qc ?qc sd1))\<lparr>sd_last_vote := Some ?v\<rparr>"
    using par sd1 by (simp add: sd_cast_def observe_qc_snd)
  ultimately show ?thesis by simp
qed

section \<open>The storage operations\<close>

lemma from_storage_error_Ok [simp]: "from_storage_error r = Ok a \<longleftrightarrow> r = Ok a"
  by (cases r) (auto simp: from_storage_error_def split: StorageError.splits)

text \<open>With the cache disabled the safety data cannot be read.\<close>

lemma safety_data_uncached:
  assumes "\<not> pss_enable_cached_safety_data p"
  shows "fst (safety_data A p) \<noteq> Ok d" and "snd (safety_data A p) = p"
  using assms by (auto simp: safety_data_def as_result_safety_data_def)

lemma safety_data_Ok:
  assumes "safety_data A p = (Ok d, p')"
  shows "(pss_cached_safety_data p = Some d \<and> p' = p)
    \<or> (\<exists>g. kv_get A (pss_internal_store p) SAFETY_DATA = Ok g \<and> gr_value g = StoredSafetyData d
           \<and> p' = p\<lparr>pss_cached_safety_data := Some d\<rparr>)"
  using assms by (auto simp: safety_data_def as_result_safety_data_def
      split: if_splits option.splits result.splits)

lemma safety_data_not_Ok: "safety_data A p = (r, p') \<Longrightarrow> (\<And>d. r \<noteq> Ok d) \<Longrightarrow> p' = p"
  by (auto simp: safety_data_def split: if_splits option.splits result.splits)

lemma persisted_stored:
  "persisted contents s = Some sd \<longleftrightarrow>
     contents (pss_internal_store (sr_persistent_storage s)) SAFETY_DATA = Some (StoredSafetyData sd)"
  by (auto simp: persisted_def split: option.splits stored_value.splits)

context kv_storage
begin

lemma keep_safety_data:
  assumes "\<And>d. ps = Some d \<Longrightarrow> striple (in_phase contents ps es) (f d) Q E"
    and "\<And>s. in_phase contents ps es s \<Longrightarrow> E s"
  shows "striple (in_phase contents ps es) (sbind (on_storage (safety_data A)) f) Q E"
proof (rule striple_bind)
  show "striple (in_phase contents ps es) (on_storage (safety_data A))
          (\<lambda>d s. in_phase contents ps es s \<and> ps = Some d) E"
  proof (rule stripleI)
    fix s r s'
    assume ph: "in_phase contents ps es s" and run: "on_storage (safety_data A) s = (r, s')"
    show "case r of Ok d \<Rightarrow> in_phase contents ps es s' \<and> ps = Some d | _ \<Rightarrow> E s'"
    proof (cases r)
      case (Ok d)
      with run obtain p where p: "safety_data A (sr_persistent_storage s) = (Ok d, p)"
        and s': "s' = s\<lparr>sr_persistent_storage := p\<rparr>"
        by (auto simp: on_storage_def sfield_iff)
      from safety_data_Ok [OF p] show ?thesis
      proof (elim disjE exE conjE)
        assume "pss_cached_safety_data (sr_persistent_storage s) = Some d" "p = sr_persistent_storage s"
        with ph s' Ok show ?thesis by (auto simp: in_phase_def cache_coherent_def)
      next
        fix g
        assume g: "kv_get A (pss_internal_store (sr_persistent_storage s)) SAFETY_DATA = Ok g"
          "gr_value g = StoredSafetyData d" "p = sr_persistent_storage s\<lparr>pss_cached_safety_data := Some d\<rparr>"
        from get_stored [OF g(1)] g(2) have "persisted contents s = Some d" by (simp add: persisted_stored)
        with ph s' Ok g(3) show ?thesis
          by (auto simp: in_phase_def cache_coherent_def persisted_def)
      qed
    qed (use run assms(2) [OF ph] in \<open>auto simp: on_storage_def sfield_iff dest: safety_data_not_Ok\<close>)
  qed
  show "striple (\<lambda>s. in_phase contents ps es s \<and> ps = Some d) (f d) Q E" for d
    by (cases "ps = Some d") (use assms(1) [of d] in \<open>auto simp: striple_def\<close>)
qed
lemma keep_safety_data_Some [vcg]:
  assumes "striple (in_phase contents (Some sd) es) (f sd) Q E"
    and "\<And>s. in_phase contents (Some sd) es s \<Longrightarrow> E s"
  shows "striple (in_phase contents (Some sd) es) (sbind (on_storage (safety_data A)) f) Q E"
  by (rule keep_safety_data) (use assms in auto)

lemma set_safety_data_phase:
  assumes "in_phase contents ps es s" and "on_storage (set_safety_data A d) s = (r, s')"
  shows "in_phase contents (Some d) es s' \<or> r \<noteq> Ok () \<and> in_phase contents ps es s'"
proof -
  let ?p = "sr_persistent_storage s"
  obtain r1 st where set: "kv_set A SAFETY_DATA (StoredSafetyData d) (pss_internal_store ?p) = (r1, st)"
    by fastforce
  from set_returns [of SAFETY_DATA "StoredSafetyData d" "pss_internal_store ?p"] set
  have "r1 \<noteq> Panic" by simp
  then consider "r1 = Ok ()" | e where "r1 = Err e" by (cases r1) auto
  then show ?thesis
  proof cases
    case 1
    with set_Ok set assms show ?thesis
      by (fastforce simp: on_storage_def sfield_def set_safety_data_def in_phase_def cache_coherent_def
          persisted_stored)
  next
    case 2
    from set_fails [OF set] have "persisted contents (s\<lparr>sr_persistent_storage :=
        ?p\<lparr>pss_internal_store := st, pss_cached_safety_data := None\<rparr>\<rparr>) \<in> {persisted contents s, Some d}"
      by (auto simp: persisted_def)
    with 2 set assms show ?thesis
      by (auto simp: on_storage_def sfield_def set_safety_data_def in_phase_def cache_coherent_def)
  qed
qed

lemma keep_set_safety_data [vcg]:
  assumes "striple (in_phase contents (Some d) es) (f ()) Q E"
    and "\<And>s. in_phase contents (Some d) es s \<Longrightarrow> E s" and "\<And>s. in_phase contents ps es s \<Longrightarrow> E s"
  shows "striple (in_phase contents ps es) (sbind (on_storage (set_safety_data A d)) f) Q E"
proof (rule striple_bind)
  show "striple (in_phase contents ps es) (on_storage (set_safety_data A d))
          (\<lambda>_. in_phase contents (Some d) es) E"
    by (rule stripleI) (use assms(2,3) set_safety_data_phase in \<open>fastforce split: result.splits\<close>)
  show "striple (in_phase contents (Some d) es) (f u) Q E" for u
    using assms(1) by simp
qed

lemma set_waypoint_phase:
  assumes "in_phase contents ps es s" and "on_storage (set_waypoint A w) s = (r, s')"
  shows "in_phase contents ps es s'"
proof -
  obtain r1 st where set:
    "kv_set A WAYPOINT (StoredWaypoint w) (pss_internal_store (sr_persistent_storage s)) = (r1, st)"
    by fastforce
  from set_other [OF set, of SAFETY_DATA] have "contents st SAFETY_DATA
      = contents (pss_internal_store (sr_persistent_storage s)) SAFETY_DATA"
    by (simp add: SAFETY_DATA_def WAYPOINT_def)
  with assms set show ?thesis
    by (auto simp: on_storage_def set_waypoint_def sfield_def sfrom_storage_error_def in_phase_def
        cache_coherent_def persisted_def)
qed

lemma keep_set_waypoint [vcg]:
  assumes "striple (in_phase contents ps es) (f ()) Q E" and "\<And>s. in_phase contents ps es s \<Longrightarrow> E s"
  shows "striple (in_phase contents ps es) (sbind (on_storage (set_waypoint A w)) f) Q E"
proof (rule striple_bind)
  show "striple (in_phase contents ps es) (on_storage (set_waypoint A w))
          (\<lambda>_. in_phase contents ps es) E"
    by (rule stripleI) (use assms(2) set_waypoint_phase in \<open>fastforce split: result.splits\<close>)
  show "striple (in_phase contents ps es) (f u) Q E" for u
    using assms(1) by simp
qed
section \<open>The operations\<close>

lemma in_phase_stepped:
  "in_phase contents (Some sd') es s \<Longrightarrow> sd_step C W sd out sd' \<Longrightarrow> stepped contents C W sd out s"
  by (auto simp: stepped_def in_phase_def)

lemma in_phase_stay: "in_phase contents (Some sd) es s \<Longrightarrow> stepped_any contents C W sd s"
  unfolding stepped_any_def using in_phase_stepped sd_step.step_stay by blast

lemma in_phase_stepped_any:
  "in_phase contents (Some sd') es s \<Longrightarrow> sd_step C W sd out sd' \<Longrightarrow> stepped_any contents C W sd s"
  unfolding stepped_any_def using in_phase_stepped by blast

lemmas phase_ends = in_phase_stay in_phase_stepped in_phase_stepped_any

lemma sign_timeout_refines:
  "striple (in_phase contents (Some sd) es) (guarded_sign_timeout A C t)
     (\<lambda>_. stepped contents C W sd (OutTimeout t)) (stepped_any contents C W sd)"
  unfolding guarded_sign_timeout_def
  by (intro vcg; fastforce simp: verify_and_update_last_vote_round_Ok not_less not_le
      intro: phase_ends timeout_step)

lemma sign_timeout_with_qc_refines:
  "striple (in_phase contents (Some sd) es) (guarded_sign_timeout_with_qc A C t tc)
     (\<lambda>_. stepped contents C W sd (OutTimeout2 (signing_format t))) (stepped_any contents C W sd)"
  unfolding guarded_sign_timeout_with_qc_def
  by (intro vcg; fastforce simp: verify_and_update_last_vote_round_Ok not_less not_le
      dest!: safe_to_timeout_Ok intro: phase_ends timeout2_step)

lemma sign_proposal_refines:
  "striple (in_phase contents (Some sd) es) (guarded_sign_proposal A C b)
     (\<lambda>_. stepped contents C W sd (OutProposal b)) (stepped_any contents C W sd)"
  unfolding guarded_sign_proposal_def
  by (intro vcg; fastforce simp: verify_and_update_preferred_round_Ok not_le
      intro: phase_ends sd_step.step_proposal)

lemma sign_commit_vote_refines:
  "striple (in_phase contents (Some sd) es) (guarded_sign_commit_vote A C lis li)
     (\<lambda>_. stepped contents C W sd (OutCommitVote li)) (stepped_any contents C W sd)"
  unfolding guarded_sign_commit_vote_def Let_def
  by (intro vcg) (auto intro: phase_ends sd_step.step_commit_vote)

lemma consensus_state_refines:
  "striple (in_phase contents (Some sd) es) (guarded_consensus_state A)
     (\<lambda>_. stepped_any contents C W sd) (stepped_any contents C W sd)"
  unfolding guarded_consensus_state_def
  by (intro vcg) (auto intro: phase_ends)

section \<open>Voting\<close>

lemma keep_verify_proposal [vcg]:
  assumes "\<And>vd. proposal_checked C es p sd vd \<Longrightarrow> striple (in_phase contents (Some sd) es) (f vd) Q E"
    and "\<And>s. in_phase contents (Some sd) es s \<Longrightarrow> E s"
  shows "striple (in_phase contents (Some sd) es) (sbind (verify_proposal A C now p) f) Q E"
  unfolding verify_proposal_def Let_def
  by (intro vcg assms)
    (auto simp: proposal_checked_def extension_check_def Let_def vote_data_ordering_only_def
      vote_data_with_extension_proof_def gen_block_info_def
      dest: verify_qc_in_phase well_formed_parent split: if_splits)

lemma vote_refines:
  assumes "admissible R Q T (ConstructAndSignVote p)" and "installed ES sd es"
  shows "striple (in_phase contents (Some sd) es) (guarded_construct_and_sign_vote A C now p)
     (\<lambda>v. stepped contents C (code_world R C ES Q T) sd (OutVote v))
     (stepped_any contents C (code_world R C ES Q T) sd)"
  unfolding guarded_construct_and_sign_vote_def Let_def
  by (intro vcg; (hypsubst)?;
      (erule in_phase_stay | erule in_phase_stepped in_phase_stepped_any,
        (erule (3) vote3_step [OF _ _ _ _ assms] | erule sd_step.step_repeat)))

lemma vote_two_chain_refines:
  assumes "admissible R Q T (ConstructAndSignVoteTwoChain p tc)" and "installed ES sd es"
  shows "striple (in_phase contents (Some sd) es)
     (guarded_construct_and_sign_vote_two_chain A C now p tc)
     (\<lambda>v. stepped contents C (code_world R C ES Q T) sd (OutVote v))
     (stepped_any contents C (code_world R C ES Q T) sd)"
  unfolding guarded_construct_and_sign_vote_two_chain_def Let_def
  by (intro vcg;
      (erule in_phase_stay | erule in_phase_stepped in_phase_stepped_any,
        (erule (5) vote2_step [OF _ _ _ _ _ _ assms] | erule sd_step.step_repeat)))
section \<open>Initialization\<close>

lemma reconcile_key_phase:
  assumes "in_phase contents ps es s" and "reconcile_key A C author expected s = (r, s')"
  shows "in_phase contents ps es (s'\<lparr>sr_validator_signer := x\<rparr>)" and "in_phase contents ps es s'"
  using assms by (auto simp: reconcile_key_def Let_def in_phase_def cache_coherent_def persisted_def
      split: option.splits if_splits result.splits Error.splits)

lemma keep_reconcile_key [vcg]:
  assumes "\<And>u s. in_phase contents ps es s \<Longrightarrow> Q u s" and "\<And>s. in_phase contents ps es s \<Longrightarrow> E s"
  shows "striple (in_phase contents ps es) (\<lambda>s. case reconcile_key A C author expected s of
      (Err e, s') \<Rightarrow> (Err e, s'\<lparr>sr_validator_signer := None\<rparr>) | (r, s') \<Rightarrow> (r, s')) Q E"
  by (rule stripleI) (use assms reconcile_key_phase in \<open>fastforce split: prod.splits result.splits\<close>)

lemma keep_set_epoch_state [vcg]:
  assumes "striple (in_phase contents ps (Some e)) (f ()) Q E"
  shows "striple (in_phase contents ps es) (sbind (smodify (\<lambda>s. s\<lparr>sr_epoch_state := Some e\<rparr>)) f) Q E"
  by (rule striple_bind [where R = "\<lambda>_. in_phase contents ps (Some e)"])
    (use assms in \<open>auto simp: striple_def smodify_def in_phase_def cache_coherent_def persisted_def\<close>)

lemma initialize_refines:
  "striple (in_phase contents (Some sd) es) (guarded_initialize A C proof')
     (\<lambda>_. stepped_any contents C W sd) (stepped_any contents C W sd)"
  unfolding guarded_initialize_def Let_def
  by (intro vcg; (erule in_phase_stay | erule in_phase_stepped_any, erule sd_step.step_epoch))

section \<open>Every message is a step\<close>

lemma refines_reply:
  assumes "striple (in_phase contents (Some sd) es) m (\<lambda>a. stepped contents C W sd (out a)) (stepped_any contents C W sd)"
    and "in_phase contents (Some sd) es s" and "m s = (r, s')"
    and "em = (case r of Ok a \<Rightarrow> out a | _ \<Rightarrow> OutNone)"
  shows "\<exists>out. stepped contents C W sd out s' \<and> (em = out \<or> em = OutNone)"
proof (cases r)
  case (Ok a)
  with stripleD_Ok [OF assms(1,2)] assms(3,4) show ?thesis by auto
qed (use assms in \<open>force simp: striple_def stepped_any_def\<close>)+

lemma handle_message_refines:
  assumes "cache_coherent contents s" and "persisted contents s = Some sd"
    and "installed ES sd (sr_epoch_state s)" and "admissible R Q T input"
    and "handle_message A C now input s = (reply, s')"
  shows "\<exists>out. stepped contents C (code_world R C ES Q T) sd out s'
           \<and> (emitted input reply = out \<or> emitted input reply = OutNone)"
proof -
  let ?W = "code_world R C ES Q T"
  have ph: "in_phase contents (Some sd) (sr_epoch_state s) s"
    using assms(1,2) by (simp add: in_phase_def)
  show ?thesis
  proof (cases input)
    case ConsensusStateInput
    then obtain r where "guarded_consensus_state A s = (r, s')"
      using assms(5) by (cases "guarded_consensus_state A s") (auto simp: handle_message_def)
    with stripleD_inv [OF consensus_state_refines ph, of r s' C ?W] ConsensusStateInput show ?thesis
      by (auto simp: stepped_any_def emitted_def)
  next
    case (Initialize proof')
    then obtain r where "guarded_initialize A C proof' s = (r, s')"
      using assms(5) by (cases "guarded_initialize A C proof' s") (auto simp: handle_message_def)
    with stripleD_inv [OF initialize_refines ph, of C proof' r s' ?W] Initialize show ?thesis
      by (auto simp: stepped_any_def emitted_def)
  next
    case (ConstructAndSignVote p)
    then obtain r where m: "guarded_construct_and_sign_vote A C now p s = (r, s')" "reply = VoteReply r"
      using assms(5) by (cases "guarded_construct_and_sign_vote A C now p s") (auto simp: handle_message_def)
    show ?thesis
      by (rule refines_reply [OF vote_refines [OF assms(4) [unfolded ConstructAndSignVote] assms(3)] ph m(1)])
        (simp add: emitted_def ConstructAndSignVote m(2) split: result.split)
  next
    case (SignProposal b)
    then obtain r where m: "guarded_sign_proposal A C b s = (r, s')" "reply = SignatureReply r"
      using assms(5) by (cases "guarded_sign_proposal A C b s") (auto simp: handle_message_def)
    show ?thesis
      by (rule refines_reply [OF sign_proposal_refines ph m(1)])
        (simp add: emitted_def SignProposal m(2) split: result.split)
  next
    case (SignTimeout t)
    then obtain r where m: "guarded_sign_timeout A C t s = (r, s')" "reply = SignatureReply r"
      using assms(5) by (cases "guarded_sign_timeout A C t s") (auto simp: handle_message_def)
    show ?thesis
      by (rule refines_reply [OF sign_timeout_refines ph m(1)])
        (simp add: emitted_def SignTimeout m(2) split: result.split)
  next
    case (SignTimeoutWithQC t tc)
    then obtain r where m: "guarded_sign_timeout_with_qc A C t tc s = (r, s')" "reply = SignatureReply r"
      using assms(5) by (cases "guarded_sign_timeout_with_qc A C t tc s") (auto simp: handle_message_def)
    show ?thesis
      by (rule refines_reply [OF sign_timeout_with_qc_refines ph m(1)])
        (simp add: emitted_def SignTimeoutWithQC m(2) split: result.split)
  next
    case (ConstructAndSignVoteTwoChain p tc)
    then obtain r where m: "guarded_construct_and_sign_vote_two_chain A C now p tc s = (r, s')" "reply = VoteReply r"
      using assms(5) by (cases "guarded_construct_and_sign_vote_two_chain A C now p tc s") (auto simp: handle_message_def)
    show ?thesis
      by (rule refines_reply [OF vote_two_chain_refines [OF assms(4) [unfolded ConstructAndSignVoteTwoChain] assms(3)] ph m(1)])
        (simp add: emitted_def ConstructAndSignVoteTwoChain m(2) split: result.split)
  next
    case (SignCommitVote lis li)
    then obtain r where m: "guarded_sign_commit_vote A C lis li s = (r, s')" "reply = SignatureReply r"
      using assms(5) by (cases "guarded_sign_commit_vote A C lis li s") (auto simp: handle_message_def)
    show ?thesis
      by (rule refines_reply [OF sign_commit_vote_refines ph m(1)])
        (simp add: emitted_def SignCommitVote m(2) split: result.split)
  qed
qed

end

section \<open>Runs of a process\<close>

text \<open>
  A run of a safety rules process: it handles admissible messages at any time \<open>now\<close>, its replies
  may be lost, and it may be restarted on the same storage with any configuration. The outputs
  that left the process are collected, the last one first. Initialization installs the validator
  set \<open>ES e\<close> for epoch \<open>e\<close>, which is what the checked epoch change proofs give.
\<close>

inductive sr_run ::
  "'st storage_api \<Rightarrow> ('st \<Rightarrow> string \<Rightarrow> stored_value option) \<Rightarrow> consensus_crypto \<Rightarrow> vote_rule set
     \<Rightarrow> (u64 \<Rightarrow> EpochState) \<Rightarrow> QuorumCert set \<Rightarrow> (u64 \<Rightarrow> TwoChainTimeoutCertificate set)
     \<Rightarrow> sr_output list \<Rightarrow> 'st SafetyRules \<Rightarrow> bool"
  for A contents C R ES Q T where
  new: "\<lbrakk>sr_new A (pss_new st cached) verify export decoupled = Some s;
         persisted contents s = Some sd; sd_last_vote sd = None\<rbrakk>
        \<Longrightarrow> sr_run A contents C R ES Q T [] s"
| handle: "\<lbrakk>sr_run A contents C R ES Q T outs s; admissible R Q T input;
            handle_message A C now input s = (reply, s');
            \<forall>sd. persisted contents s' = Some sd \<longrightarrow> installed ES sd (sr_epoch_state s');
            outs' = emitted input reply # outs \<or> outs' = outs\<rbrakk>
           \<Longrightarrow> sr_run A contents C R ES Q T outs' s'"
| restart: "\<lbrakk>sr_run A contents C R ES Q T outs s;
             sr_new A (pss_new (pss_internal_store (sr_persistent_storage s)) cached) verify export decoupled
               = Some s'\<rbrakk>
            \<Longrightarrow> sr_run A contents C R ES Q T outs s'"

lemma sr_new_fields:
  assumes "sr_new A p verify export decoupled = Some s"
  shows "sr_persistent_storage s = p" and "sr_epoch_state s = None"
  using assms by (auto simp: sr_new_def Let_def split: if_splits result.splits)

context kv_storage
begin

lemma sr_run_simulated:
  assumes "sr_run A contents C R ES Q T outs s"
  shows "\<exists>tr sd. sd_run C (code_world R C ES Q T) tr sd \<and> persisted contents s = Some sd
    \<and> cache_coherent contents s \<and> installed ES sd (sr_epoch_state s) \<and> set outs \<subseteq> insert OutNone (set tr)"
  using assms
proof (induction rule: sr_run.induct)
  case (new st cached verify export decoupled s sd)
  from sr_new_fields [OF new(1)] new(2,3) show ?case
    by (auto simp: cache_coherent_def pss_new_def installed_def intro!: run_start)
next
  case (handle outs s input now reply s' outs')
  from handle.IH obtain tr sd where ih: "sd_run C (code_world R C ES Q T) tr sd"
    "persisted contents s = Some sd" "cache_coherent contents s"
    "installed ES sd (sr_epoch_state s)" "set outs \<subseteq> insert OutNone (set tr)" by blast
  from handle_message_refines [OF ih(3,2,4) handle.hyps(2,3)] obtain out
    where out: "stepped contents C (code_world R C ES Q T) sd out s'"
      "emitted input reply = out \<or> emitted input reply = OutNone" by blast
  then obtain sd' where "persisted contents s' = Some sd'" "cache_coherent contents s'"
    "sd_step C (code_world R C ES Q T) sd out sd'"
    by (auto simp: stepped_def)
  with ih(1,5) out(2) handle.hyps(4,5) show ?case
    by (intro exI [of _ "out # tr"] exI [of _ sd']) (auto intro: run_step)
next
  case (restart outs s cached verify export decoupled s')
  from sr_new_fields [OF restart.hyps(2)] restart.IH show ?case
    by (auto simp: cache_coherent_def pss_new_def installed_def persisted_def)
qed

lemma sr_run_one_vote_per_round:
  assumes "sr_run A contents C R ES Q T outs s"
  shows "one_vote_per_round (votes outs)"
proof -
  from sr_run_simulated [OF assms] obtain tr sd where
    "sd_run C (code_world R C ES Q T) tr sd" "set outs \<subseteq> insert OutNone (set tr)" by blast
  with one_vote_per_round_run [of C _ tr sd] show ?thesis
    unfolding one_vote_per_round_def votes_def by blast
qed

end

end
