(* ===== verification/BftSafety.thy ===== *)
theory BftSafety
  imports SafetyRefinement
begin

text \<open>
  Agreement of consensus: with at most a third of the voting power of an epoch in faulty hands, any
  two blocks that quorum certificates commit lie on one chain. This is proved for both commit rules
  of the code, the 3-chain rule of \<open>safety_rules.rs\<close> and the 2-chain rule of
  \<open>safety_rules_2chain.rs\<close>, from the runs of the validators' safety rules processes.

  The argument about chains is made once, in the locale \<open>commit_rule\<close>; its two interpretations
  discharge the laws for the two rules from the refinement of \<open>SafetyRefinement\<close>.
\<close>

section \<open>The argument about chains\<close>

text \<open>
  \<open>certified E b p c\<close>: in execution \<open>E\<close> a certificate exists for block \<open>b\<close> with parent \<open>p\<close>, which
  commits \<open>c\<close> if that is a block.
\<close>

locale commit_rule =
  fixes ok :: "'e \<Rightarrow> bool"
    and certified :: "'e \<Rightarrow> 'b \<Rightarrow> 'b \<Rightarrow> 'b option \<Rightarrow> bool"
    and rnd :: "'b \<Rightarrow> nat"
  assumes cert_unique: "\<lbrakk>ok E; certified E b p c; certified E b' p' c'; rnd b = rnd b'\<rbrakk> \<Longrightarrow> b = b'"
    and cert_parent: "\<lbrakk>ok E; certified E b p c\<rbrakk> \<Longrightarrow>
      rnd p < rnd b \<and> (0 < rnd p \<longrightarrow> (\<exists>p' c'. certified E p p' c'))"
    and commit_chain: "\<lbrakk>ok E; certified E b p (Some k); 0 < rnd k\<rbrakk> \<Longrightarrow>
      (\<exists>p' c'. certified E k p' c') \<and>
      (\<lambda>x y. (\<exists>c. certified E y x c) \<and> rnd y = Suc (rnd x))\<^sup>*\<^sup>* k b"
    and commit_locks: "\<lbrakk>ok E; certified E b p (Some k); certified E b' p' c'; rnd b < rnd b'\<rbrakk> \<Longrightarrow>
      rnd k \<le> rnd p'"
begin

definition parent :: "'e \<Rightarrow> 'b \<Rightarrow> 'b \<Rightarrow> bool" where
  "parent E p b \<longleftrightarrow> (\<exists>c. certified E b p c)"

definition next_parent :: "'e \<Rightarrow> 'b \<Rightarrow> 'b \<Rightarrow> bool" where
  "next_parent E p b \<longleftrightarrow> parent E p b \<and> rnd b = Suc (rnd p)"

lemma ancestor_step: "(parent E)\<^sup>*\<^sup>* k p \<Longrightarrow> certified E b p c \<Longrightarrow> (parent E)\<^sup>*\<^sup>* k b"
  by (rule rtranclp.rtrancl_into_rtrancl) (auto simp: parent_def)

lemma next_parent_rounds: "(next_parent E)\<^sup>*\<^sup>* k b \<Longrightarrow> rnd k \<le> rnd b"
  by (induction rule: rtranclp_induct) (auto simp: next_parent_def)

text \<open>A chain of consecutive rounds leaves no room beside it.\<close>

lemma next_parent_covers:
  assumes "ok E" and "(next_parent E)\<^sup>*\<^sup>* k b" and "certified E k pk ck"
    and "certified E x px cx" and "rnd k \<le> rnd x" and "rnd x \<le> rnd b"
  shows "(parent E)\<^sup>*\<^sup>* k x"
  using assms(2,6)
proof (induction rule: rtranclp_induct)
  case base
  with cert_unique [OF assms(1,3,4)] assms(5) show ?case by auto
next
  case (step y z)
  show ?case
  proof (cases "rnd x \<le> rnd y")
    case False
    with step obtain c where z: "certified E z y c" "rnd x = rnd z"
      by (auto simp: next_parent_def parent_def)
    with cert_unique [OF assms(1,4)] have "x = z" by blast
    moreover have "(parent E)\<^sup>*\<^sup>* k y"
      using step.hyps(1) by (rule rtranclp_mono [THEN predicate2D, rotated]) (auto simp: next_parent_def)
    ultimately show ?thesis using z ancestor_step by blast
  qed (use step in simp)
qed

text \<open>A committed block is below every certified block of at least its round.\<close>

lemma committed_is_ancestor:
  assumes "ok E" and "certified E b p (Some k)" and "0 < rnd k"
    and "certified E x px cx" and "rnd k \<le> rnd x"
  shows "(parent E)\<^sup>*\<^sup>* k x"
  using assms(4,5)
proof (induction "rnd x" arbitrary: x px cx rule: less_induct)
  case less
  from commit_chain [OF assms(1-3)] obtain pk ck where k: "certified E k pk ck"
    and chain: "(next_parent E)\<^sup>*\<^sup>* k b"
    by (auto simp: next_parent_def [abs_def] parent_def)
  show ?case
  proof (cases "rnd x \<le> rnd b")
    case True
    with next_parent_covers [OF assms(1) chain k less.prems] show ?thesis by simp
  next
    case False
    with commit_locks [OF assms(1,2) less.prems(1)] have le: "rnd k \<le> rnd px" by simp
    with cert_parent [OF assms(1) less.prems(1)] assms(3) obtain p' c'
      where "rnd px < rnd x" "certified E px p' c'" by auto
    with less.hyps le have "(parent E)\<^sup>*\<^sup>* k px" by blast
    with less.prems(1) ancestor_step show ?thesis by blast
  qed
qed

lemma commits_on_one_chain:
  assumes "ok E" and "certified E b p (Some k)" and "certified E b' p' (Some k')"
    and "0 < rnd k" and "rnd k \<le> rnd k'"
  shows "(parent E)\<^sup>*\<^sup>* k k'"
proof -
  from commit_chain [OF assms(1,3)] assms(4,5) obtain pk ck where "certified E k' pk ck" by fastforce
  with committed_is_ancestor [OF assms(1,2,4)] assms(5) show ?thesis by blast
qed

end

section \<open>Executions\<close>

text \<open>
  An execution of one epoch: the outputs of every validator's safety rules process, with the storage
  backend it runs on, the faulty validators, and the certificates that circulate.
\<close>

record 'st bft_execution =
  ex_crypto :: consensus_crypto
  ex_epoch :: u64
  ex_epoch_states :: "u64 \<Rightarrow> EpochState"
  ex_byz :: "AccountAddress set"
  ex_api :: "AccountAddress \<Rightarrow> 'st storage_api"
  ex_contents :: "AccountAddress \<Rightarrow> 'st \<Rightarrow> string \<Rightarrow> stored_value option"
  ex_outputs :: "AccountAddress \<Rightarrow> sr_output list"
  ex_qcs :: "QuorumCert set"

definition ex_verifier :: "'st bft_execution \<Rightarrow> ValidatorVerifier" where
  "ex_verifier E = es_verifier (ex_epoch_states E (ex_epoch E))"

definition signed_ledger_infos :: "sr_output list \<Rightarrow> LedgerInfo set" where
  "signed_ledger_infos outs = vote_ledger_info ` votes outs \<union> {li. OutCommitVote li \<in> set outs}"

text \<open>Timeout certificates of another epoch are not presented to a validator.\<close>

definition tcs_of_epoch :: "u64 \<Rightarrow> TwoChainTimeoutCertificate set" where
  "tcs_of_epoch e = {tc. tct_epoch (tctc_timeout tc) = e}"

text \<open>
  The assumptions on an execution: a correct validator runs the safety rules under rule \<open>R\<close> and
  signs no commit votes (these belong to decoupled execution); signatures of correct validators
  are not forged and at most a third of the power is faulty; and the hash does not collide on the
  vote data that occur.
\<close>

definition runs_correctly :: "vote_rule \<Rightarrow> 'st bft_execution \<Rightarrow> AccountAddress \<Rightarrow> bool" where
  "runs_correctly R E a \<longleftrightarrow>
     kv_storage (ex_api E a) (ex_contents E a)
     \<and> (\<exists>s. sr_run (ex_api E a) (ex_contents E a) (ex_crypto E) {R} (ex_epoch_states E) (ex_qcs E)
              tcs_of_epoch (ex_outputs E a) s)
     \<and> (\<forall>li. OutCommitVote li \<notin> set (ex_outputs E a))"

definition occurring_vote_data :: "'st bft_execution \<Rightarrow> VoteData set" where
  "occurring_vote_data E = qc_vote_data ` ex_qcs E
     \<union> (\<Union>a \<in> - ex_byz E. vote_vote_data ` votes (ex_outputs E a))"

definition bft_assumptions :: "vote_rule \<Rightarrow> 'st bft_execution \<Rightarrow> bool" where
  "bft_assumptions R E \<longleftrightarrow>
     (\<forall>a. a \<notin> ex_byz E \<longrightarrow> runs_correctly R E a)
     \<and> batch_sound (cc_ledger_info (ex_crypto E))
     \<and> trustworthy (cc_ledger_info (ex_crypto E)) (ex_byz E)
         (\<lambda>a. signed_ledger_infos (ex_outputs E a)) (ex_verifier E)
     \<and> inj_on (hash_vote_data (ex_crypto E)) (occurring_vote_data E)"

definition timeouts_unforgeable :: "'st bft_execution \<Rightarrow> bool" where
  "timeouts_unforgeable E \<longleftrightarrow>
     unforgeable (cc_timeout_repr (ex_crypto E)) (ex_verifier E) (ex_byz E)
       (\<lambda>a. timeouts2 (ex_outputs E a))"

text \<open>What the circulating certificates certify. A commit of round 0 is no commit.\<close>

definition qc_accepted :: "'st bft_execution \<Rightarrow> QuorumCert \<Rightarrow> bool" where
  "qc_accepted E qc \<longleftrightarrow> qc \<in> ex_qcs E \<and> qc_verify (ex_crypto E) qc (ex_verifier E) = Ok ()
     \<and> bi_epoch (qc_certified_block qc) = ex_epoch E \<and> bi_round (qc_certified_block qc) \<noteq> 0"

definition certified_by_qc ::
  "'st bft_execution \<Rightarrow> BlockInfo \<Rightarrow> BlockInfo \<Rightarrow> BlockInfo option \<Rightarrow> bool" where
  "certified_by_qc E b p c \<longleftrightarrow> (\<exists>qc. qc_accepted E qc \<and> qc_certified_block qc = b
     \<and> qc_parent_block qc = p
     \<and> c = (if bi_round (qc_commit_info qc) = 0 then None else Some (qc_commit_info qc)))"

definition block_round :: "BlockInfo \<Rightarrow> nat" where
  "block_round b = unat (bi_round b)"

section \<open>Votes behind certificates\<close>

lemma runs_correctly_votes:
  assumes "runs_correctly R E a"
  shows "one_vote_per_round (votes (ex_outputs E a))"
    and "timeouts_respect_votes (votes (ex_outputs E a)) (timeouts2 (ex_outputs E a))"
    and "R = ThreeChain \<Longrightarrow> commits_respect_votes (votes (ex_outputs E a))"
    and "v \<in> votes (ex_outputs E a) \<Longrightarrow> \<exists>qc. vote_justified (ex_crypto E)
      (code_world {R} (ex_crypto E) (ex_epoch_states E) (ex_qcs E) tcs_of_epoch) v qc"
proof -
  let ?W = "code_world {R} (ex_crypto E) (ex_epoch_states E) (ex_qcs E) tcs_of_epoch"
  from assms obtain tr sd where run: "sd_run (ex_crypto E) ?W tr sd"
    and "set (ex_outputs E a) \<subseteq> insert OutNone (set tr)"
    unfolding runs_correctly_def using kv_storage.sr_run_simulated by blast
  then have sub: "votes (ex_outputs E a) \<subseteq> votes tr" "timeouts2 (ex_outputs E a) \<subseteq> timeouts2 tr"
    by (auto simp: votes_def timeouts2_def)
  show "one_vote_per_round (votes (ex_outputs E a))"
    using one_vote_per_round_run [OF run] sub unfolding one_vote_per_round_def by blast
  show "timeouts_respect_votes (votes (ex_outputs E a)) (timeouts2 (ex_outputs E a))"
    using timeouts_respect_votes_run [OF run] sub unfolding timeouts_respect_votes_def by blast
  show "commits_respect_votes (votes (ex_outputs E a))" if "R = ThreeChain"
    using commits_respect_votes_run [OF run] sub that
    unfolding commits_respect_votes_def code_world_def by auto
  show "\<exists>qc. vote_justified (ex_crypto E) ?W v qc" if "v \<in> votes (ex_outputs E a)"
    using votes_justified_run [OF run] that sub by blast
qed

lemma voted_for_qc:
  assumes ok: "bft_assumptions R E" and qc: "qc_accepted E qc" and a: "a \<notin> ex_byz E"
    and li: "lis_ledger_info (qc_signed_ledger_info qc) \<in> signed_ledger_infos (ex_outputs E a)"
  obtains v where "v \<in> votes (ex_outputs E a)" "vote_vote_data v = qc_vote_data qc"
    "vote_commit_info v = qc_commit_info qc"
proof -
  from ok a have run: "runs_correctly R E a" by (simp add: bft_assumptions_def)
  then obtain v where v: "v \<in> votes (ex_outputs E a)"
    "vote_ledger_info v = lis_ledger_info (qc_signed_ledger_info qc)"
    using li by (auto simp: signed_ledger_infos_def runs_correctly_def)
  from runs_correctly_votes(4) [OF run v(1)]
  have "hash_vote_data (ex_crypto E) (vote_vote_data v) = hash_vote_data (ex_crypto E) (qc_vote_data qc)"
    using v(2) qc qc_verify_hash
    by (auto simp: vote_justified_def extends_qc_def qc_accepted_def)
  moreover have "vote_vote_data v \<in> occurring_vote_data E" "qc_vote_data qc \<in> occurring_vote_data E"
    using v(1) a qc by (auto simp: occurring_vote_data_def qc_accepted_def)
  ultimately have "vote_vote_data v = qc_vote_data qc"
    using ok by (auto simp: bft_assumptions_def dest: inj_onD)
  with that v show ?thesis by (simp add: vote_commit_info_def)
qed

lemma qc_accepted_quorum:
  assumes "bft_assumptions R E" and "qc_accepted E qc"
  shows "quorum_signed (cc_ledger_info (ex_crypto E)) (ex_verifier E)
      (lis_ledger_info (qc_signed_ledger_info qc)) (lis_signatures (qc_signed_ledger_info qc))"
    and "bi_round (qc_parent_block qc) < bi_round (qc_certified_block qc)"
  using assms qc_verify_Ok(1,2) [of "ex_crypto E" qc "ex_verifier E"]
  by (auto simp: bft_assumptions_def qc_accepted_def trustworthy_def)

text \<open>Two accepted certificates have a correct validator that voted for both.\<close>

lemma common_voter:
  assumes ok: "bft_assumptions R E" and qc: "qc_accepted E qc" "qc_accepted E qc'"
  obtains a v v' where "a \<notin> ex_byz E" "runs_correctly R E a"
    "v \<in> votes (ex_outputs E a)" "vote_vote_data v = qc_vote_data qc" "vote_commit_info v = qc_commit_info qc"
    "v' \<in> votes (ex_outputs E a)" "vote_vote_data v' = qc_vote_data qc'" "vote_commit_info v' = qc_commit_info qc'"
proof -
  from ok have "trustworthy (cc_ledger_info (ex_crypto E)) (ex_byz E)
      (\<lambda>a. signed_ledger_infos (ex_outputs E a)) (ex_verifier E)"
    by (simp add: bft_assumptions_def)
  from trustworthy_common_signer [OF this qc_accepted_quorum(1) [OF ok qc(1)] qc_accepted_quorum(1) [OF ok qc(2)]]
  obtain a where a: "a \<notin> ex_byz E"
    "lis_ledger_info (qc_signed_ledger_info qc) \<in> signed_ledger_infos (ex_outputs E a)"
    "lis_ledger_info (qc_signed_ledger_info qc') \<in> signed_ledger_infos (ex_outputs E a)" by blast
  moreover from ok a(1) have "runs_correctly R E a" by (simp add: bft_assumptions_def)
  ultimately show ?thesis
    using voted_for_qc [OF ok qc(1) a(1,2)] voted_for_qc [OF ok qc(2) a(1,3)] that by metis
qed

lemma vote_of_qc_simps:
  assumes "vote_vote_data v = qc_vote_data qc"
  shows "vote_round v = bi_round (qc_certified_block qc)"
    and "vote_parent_round v = bi_round (qc_parent_block qc)"
    and "vote_epoch v = bi_epoch (qc_certified_block qc)"
  using assms by (simp_all add: vote_accessors)

lemma qc_unique:
  assumes "bft_assumptions R E" and "qc_accepted E qc" "qc_accepted E qc'"
    and "bi_round (qc_certified_block qc) = bi_round (qc_certified_block qc')"
  shows "qc_vote_data qc = qc_vote_data qc'" and "qc_commit_info qc = qc_commit_info qc'"
proof -
  from common_voter [OF assms(1-3)] obtain a v v' where v: "runs_correctly R E a"
    "v \<in> votes (ex_outputs E a)" "vote_vote_data v = qc_vote_data qc" "vote_commit_info v = qc_commit_info qc"
    "v' \<in> votes (ex_outputs E a)" "vote_vote_data v' = qc_vote_data qc'" "vote_commit_info v' = qc_commit_info qc'"
    by metis
  from runs_correctly_votes(1) [OF v(1)] v(2,5) assms(2-4)
    vote_of_qc_simps [OF v(3)] vote_of_qc_simps [OF v(6)]
  have "v = v'" unfolding one_vote_per_round_def qc_accepted_def by metis
  with v show "qc_vote_data qc = qc_vote_data qc'" "qc_commit_info qc = qc_commit_info qc'" by simp_all
qed

text \<open>The certificate that the voters of an accepted certificate checked.\<close>

lemma qc_justified:
  assumes ok: "bft_assumptions R E" and qc: "qc_accepted E qc"
  obtains v qc' where "vote_vote_data v = qc_vote_data qc" "vote_commit_info v = qc_commit_info qc"
    "vote_justified (ex_crypto E)
      (code_world {R} (ex_crypto E) (ex_epoch_states E) (ex_qcs E) tcs_of_epoch) v qc'"
    "qc_certified_block qc' = qc_parent_block qc"
    "bi_round (qc_parent_block qc) \<noteq> 0 \<Longrightarrow> qc_accepted E qc'"
proof -
  from common_voter [OF ok qc qc] obtain a v where v: "runs_correctly R E a"
    "v \<in> votes (ex_outputs E a)" "vote_vote_data v = qc_vote_data qc" "vote_commit_info v = qc_commit_info qc"
    by metis
  from runs_correctly_votes(4) [OF v(1,2)] obtain qc' where j: "vote_justified (ex_crypto E)
      (code_world {R} (ex_crypto E) (ex_epoch_states E) (ex_qcs E) tcs_of_epoch) v qc'" ..
  moreover from j v(3) qc have "qc_certified_block qc' = qc_parent_block qc"
    "bi_round (qc_parent_block qc) \<noteq> 0 \<Longrightarrow> qc_accepted E qc'"
    by (auto simp: vote_justified_def extends_qc_def code_world_def qc_accepted_def ex_verifier_def
        vote_accessors)
  ultimately show ?thesis using v that by blast
qed

section \<open>The laws for both commit rules\<close>

lemma block_round_eq_0 [simp]: "block_round b = 0 \<longleftrightarrow> bi_round b = 0"
  by (simp add: block_round_def unat_eq_zero)

lemma block_round_less: "block_round b < block_round b' \<longleftrightarrow> bi_round b < bi_round b'"
  by (simp add: block_round_def word_less_nat_alt)

lemma block_round_le: "block_round b \<le> block_round b' \<longleftrightarrow> bi_round b \<le> bi_round b'"
  by (simp add: block_round_def word_le_nat_alt)

lemma certified_unique:
  assumes "bft_assumptions R E" and "certified_by_qc E b p c" "certified_by_qc E b' p' c'"
    and "block_round b = block_round b'"
  shows "b = b'"
proof -
  from assms(2,3) obtain qc qc' where "qc_accepted E qc" "qc_certified_block qc = b"
    "qc_accepted E qc'" "qc_certified_block qc' = b'" by (auto simp: certified_by_qc_def)
  with qc_unique(1) [OF assms(1), of qc qc'] assms(4) show ?thesis
    by (simp add: block_round_def word_unat_eq_iff)
qed

lemma certified_parent:
  assumes "bft_assumptions R E" and "certified_by_qc E b p c"
  shows "block_round p < block_round b \<and> (0 < block_round p \<longrightarrow> (\<exists>p' c'. certified_by_qc E p p' c'))"
proof -
  from assms(2) obtain qc where qc: "qc_accepted E qc" "qc_certified_block qc = b" "qc_parent_block qc = p"
    by (auto simp: certified_by_qc_def)
  from qc_justified [OF assms(1) qc(1)] obtain qc' where "qc_certified_block qc' = qc_parent_block qc"
    "bi_round (qc_parent_block qc) \<noteq> 0 \<Longrightarrow> qc_accepted E qc'" by metis
  with qc have "\<exists>p' c'. certified_by_qc E p p' c'" if "bi_round p \<noteq> 0"
    using that by (auto simp: certified_by_qc_def)
  with qc_accepted_quorum(2) [OF assms(1) qc(1)] qc(2,3) show ?thesis
    by (auto simp: block_round_less simp flip: neq0_conv)
qed

lemma commit_rounds:
  assumes "certified_by_qc E b p (Some k)"
  obtains qc where "qc_accepted E qc" "qc_certified_block qc = b" "qc_parent_block qc = p"
    "qc_commit_info qc = k" "bi_round k \<noteq> 0"
  using assms by (auto simp: certified_by_qc_def split: if_splits)

lemma consecutive_block_round:
  "consecutive (bi_round b) (bi_round b') \<longleftrightarrow> block_round b' = Suc (block_round b)"
  by (simp add: consecutive_def block_round_def)

lemma three_chain_committed:
  assumes "bft_assumptions ThreeChain E" and "certified_by_qc E b p (Some k)"
  shows "\<exists>c. certified_by_qc E p k c" and "block_round p = Suc (block_round k)"
    and "block_round b = Suc (block_round p)"
proof -
  from commit_rounds [OF assms(2)] obtain qc where qc: "qc_accepted E qc" "qc_certified_block qc = b"
    "qc_parent_block qc = p" "qc_commit_info qc = k" "bi_round k \<noteq> 0" .
  from qc_justified [OF assms(1) qc(1)] obtain v qc' where v: "vote_vote_data v = qc_vote_data qc"
    "vote_commit_info v = qc_commit_info qc"
    "vote_justified (ex_crypto E) (code_world {ThreeChain} (ex_crypto E) (ex_epoch_states E) (ex_qcs E) tcs_of_epoch) v qc'"
    "qc_certified_block qc' = qc_parent_block qc"
    "bi_round (qc_parent_block qc) \<noteq> 0 \<Longrightarrow> qc_accepted E qc'" by metis
  from v(3) have "vote_commit_info v = three_chain_commit qc' v"
    by (auto simp: vote_justified_def code_world_def)
  with v(2) qc(4,5) have k: "qc_parent_block qc' = k"
    and c: "consecutive (bi_round k) (bi_round (qc_certified_block qc'))"
      "consecutive (bi_round (qc_certified_block qc')) (vote_round v)"
    by (auto simp: three_chain_commit_def bi_empty_def split: if_splits)
  from c v(4) qc(3) vote_of_qc_simps(1) [OF v(1)] qc(2)
  show r: "block_round p = Suc (block_round k)" "block_round b = Suc (block_round p)"
    by (simp_all flip: consecutive_block_round)
  from r(1) have "bi_round p \<noteq> 0" by (metis block_round_eq_0 nat.distinct(1))
  with v(4,5) qc(3) k show "\<exists>c. certified_by_qc E p k c" by (auto simp: certified_by_qc_def)
qed

lemma two_chain_committed:
  assumes "bft_assumptions TwoChain E" and "certified_by_qc E b p (Some k)"
  shows "k = p" and "block_round b = Suc (block_round p)"
proof -
  from commit_rounds [OF assms(2)] obtain qc where qc: "qc_accepted E qc" "qc_certified_block qc = b"
    "qc_parent_block qc = p" "qc_commit_info qc = k" "bi_round k \<noteq> 0" .
  from qc_justified [OF assms(1) qc(1)] obtain v qc' where v: "vote_vote_data v = qc_vote_data qc"
    "vote_commit_info v = qc_commit_info qc"
    "vote_justified (ex_crypto E) (code_world {TwoChain} (ex_crypto E) (ex_epoch_states E) (ex_qcs E) tcs_of_epoch) v qc'"
    "qc_certified_block qc' = qc_parent_block qc" by metis
  from v(3) have "vote_commit_info v = two_chain_commit qc' v"
    by (auto simp: vote_justified_def code_world_def)
  with v(2,4) qc(2-5) vote_of_qc_simps(1) [OF v(1)]
  show "k = p" "block_round b = Suc (block_round p)"
    by (auto simp: two_chain_commit_def bi_empty_def simp flip: consecutive_block_round split: if_splits)
qed

lemma three_chain_locks:
  assumes "bft_assumptions ThreeChain E" and "certified_by_qc E b p (Some k)"
    and "certified_by_qc E b' p' c'" and "block_round b < block_round b'"
  shows "block_round k \<le> block_round p'"
proof -
  from commit_rounds [OF assms(2)] obtain qc where qc: "qc_accepted E qc" "qc_certified_block qc = b"
    "qc_commit_info qc = k" by blast
  from assms(3) obtain qc' where qc': "qc_accepted E qc'" "qc_certified_block qc' = b'"
    "qc_parent_block qc' = p'" by (auto simp: certified_by_qc_def)
  from common_voter [OF assms(1) qc(1) qc'(1)] obtain a v v' where v: "runs_correctly ThreeChain E a"
    "v \<in> votes (ex_outputs E a)" "vote_vote_data v = qc_vote_data qc" "vote_commit_info v = qc_commit_info qc"
    "v' \<in> votes (ex_outputs E a)" "vote_vote_data v' = qc_vote_data qc'" by metis
  have "vote_epoch v = vote_epoch v'" "vote_round v < vote_round v'"
    using vote_of_qc_simps [OF v(3)] vote_of_qc_simps [OF v(6)] qc qc' assms(4)
    by (simp_all add: qc_accepted_def block_round_less)
  with runs_correctly_votes(3) [OF v(1) refl] v(2,5)
  have "bi_round (vote_commit_info v) \<le> vote_parent_round v'" by (auto simp: commits_respect_votes_def)
  with v(4) qc(3) qc'(3) vote_of_qc_simps(2) [OF v(6)] show ?thesis by (simp add: block_round_le)
qed

text \<open>
  A timeout certificate of the epoch carries a quorum of timeouts, so that a correct voter of any
  accepted certificate of at most its round is among the signers.
\<close>

lemma timeout_certificate_voter:
  assumes ok: "bft_assumptions R E" "timeouts_unforgeable E" and qc: "qc_accepted E qc"
    and tc: "tc \<in> tcs_of_epoch (ex_epoch E)" "tctc_verify (ex_crypto E) tc (ex_verifier E) = Ok ()"
    and le: "bi_round (qc_certified_block qc) \<le> tctc_round tc"
  shows "bi_round (qc_parent_block qc) \<le> highest_hqc_round tc"
proof -
  let ?vv = "ex_verifier E"
  from ok(1) have tw: "vv_valid ?vv" "unforgeable (cc_ledger_info (ex_crypto E)) ?vv (ex_byz E)
      (\<lambda>a. signed_ledger_infos (ex_outputs E a))"
    "3 * sum (power_of ?vv) (ex_byz E \<inter> validators ?vv) \<le> sum (power_of ?vv) (validators ?vv)"
    by (simp_all add: bft_assumptions_def trustworthy_def voting_power_def)
  note q = qc_accepted_quorum(1) [OF ok(1) qc]
  from tw(1) q tctc_verify_Ok(1) [OF tc(2) tw(1)] tw(3)
  obtain a where a: "a |\<in>| fmdom (lis_signatures (qc_signed_ledger_info qc))"
    "a |\<in>| fmdom (tctc_signatures tc)" "a \<notin> ex_byz E"
    unfolding quorum_signed_def using vq.quorum_inter_outside by metis
  from a(1) q tw(2) a(3)
  have "lis_ledger_info (qc_signed_ledger_info qc) \<in> signed_ledger_infos (ex_outputs E a)"
    unfolding quorum_signed_def unforgeable_def by (metis fmlookup_dom_iff)
  from voted_for_qc [OF ok(1) qc a(3) this] obtain v where
    v: "v \<in> votes (ex_outputs E a)" "vote_vote_data v = qc_vote_data qc" by metis
  from a(2) obtain h sg where "fmlookup (tctc_signatures tc) a = Some (h, sg)"
    by (auto simp: fmlookup_dom_iff)
  from tctc_verify_Ok(2) [OF tc(2) tw(1) this] ok(2) a(3) have h: "h \<le> highest_hqc_round tc"
    and t: "\<lparr>tsr_epoch = tct_epoch (tctc_timeout tc), tsr_round = tctc_round tc, tsr_hqc_round = h\<rparr>
      \<in> timeouts2 (ex_outputs E a)"
    unfolding timeouts_unforgeable_def unforgeable_def by blast+
  from ok(1) a(3) have "runs_correctly R E a" by (simp add: bft_assumptions_def)
  from runs_correctly_votes(2) [OF this] v t vote_of_qc_simps [OF v(2)] qc tc(1) le
  have "bi_round (qc_parent_block qc) \<le> h"
    by (fastforce simp: timeouts_respect_votes_def qc_accepted_def tcs_of_epoch_def)
  with h show ?thesis by simp
qed

lemma two_chain_locks:
  assumes "bft_assumptions TwoChain E" "timeouts_unforgeable E"
    and "certified_by_qc E b p (Some k)" and "certified_by_qc E b' p' c'"
    and "block_round b < block_round b'"
  shows "block_round k \<le> block_round p'"
proof -
  note k = two_chain_committed [OF assms(1,3)]
  from commit_rounds [OF assms(3)] obtain qc where qc: "qc_accepted E qc" "qc_certified_block qc = b"
    "qc_parent_block qc = p" by blast
  from assms(4) obtain qc' where qc': "qc_accepted E qc'" "qc_certified_block qc' = b'"
    "qc_parent_block qc' = p'" by (auto simp: certified_by_qc_def)
  from qc_justified [OF assms(1) qc'(1)] obtain v j where v: "vote_vote_data v = qc_vote_data qc'"
    "vote_justified (ex_crypto E) (code_world {TwoChain} (ex_crypto E) (ex_epoch_states E) (ex_qcs E) tcs_of_epoch) v j"
    by metis
  have rounds: "vote_round v = bi_round b'" "vote_parent_round v = bi_round p'" "vote_epoch v = ex_epoch E"
    using vote_of_qc_simps [OF v(1)] qc' by (simp_all add: qc_accepted_def)
  from v(2) consider "consecutive (bi_round p') (bi_round b')"
    | tc where "tc \<in> tcs_of_epoch (ex_epoch E)" "tctc_verify (ex_crypto E) tc (ex_verifier E) = Ok ()"
      "consecutive (tctc_round tc) (bi_round b')" "highest_hqc_round tc \<le> bi_round p'"
    unfolding vote_justified_def rounds by (auto simp: code_world_def ex_verifier_def)
  then show ?thesis
  proof cases
    case 1
    with assms(5) k show ?thesis by (simp add: consecutive_block_round)
  next
    case (2 tc)
    from 2(3) assms(5) have "bi_round b \<le> tctc_round tc"
      by (simp add: consecutive_def block_round_def word_le_nat_alt)
    with timeout_certificate_voter [OF assms(1,2) qc(1) 2(1,2)] qc(2,3) 2(4)
    have "bi_round p \<le> bi_round p'" by simp
    with k(1) show ?thesis by (simp add: block_round_le)
  qed
qed

section \<open>The interpretations\<close>

interpretation three: commit_rule "bft_assumptions ThreeChain" certified_by_qc block_round
proof
  fix E :: "'st bft_execution" and b p k
  assume ok: "bft_assumptions ThreeChain E" and c: "certified_by_qc E b p (Some k)" and k: "0 < block_round k"
  let ?next = "\<lambda>x y. (\<exists>c. certified_by_qc E y x c) \<and> block_round y = Suc (block_round x)"
  note pk = three_chain_committed [OF ok c]
  from pk(1) certified_parent [OF ok] k have "\<exists>p' c'. certified_by_qc E k p' c'" by blast
  moreover have "?next\<^sup>*\<^sup>* k p" using pk by blast
  then have "?next\<^sup>*\<^sup>* k b" by (rule rtranclp.rtrancl_into_rtrancl) (use c pk(3) in blast)
  ultimately show "(\<exists>p' c'. certified_by_qc E k p' c') \<and> ?next\<^sup>*\<^sup>* k b" ..
qed (erule (3) certified_unique, erule (1) certified_parent, erule (3) three_chain_locks)

interpretation two: commit_rule "\<lambda>E. bft_assumptions TwoChain E \<and> timeouts_unforgeable E"
  certified_by_qc block_round
proof
  fix E :: "'st bft_execution" and b p k
  assume ok: "bft_assumptions TwoChain E \<and> timeouts_unforgeable E"
    and c: "certified_by_qc E b p (Some k)" and k: "0 < block_round k"
  note pk = two_chain_committed [OF conjunct1 [OF ok] c]
  from certified_parent [OF conjunct1 [OF ok] c] k pk(1) have "\<exists>p' c'. certified_by_qc E k p' c'" by simp
  with c pk show "(\<exists>p' c'. certified_by_qc E k p' c') \<and>
      (\<lambda>x y. (\<exists>c. certified_by_qc E y x c) \<and> block_round y = Suc (block_round x))\<^sup>*\<^sup>* k b"
    by auto
qed (elim conjE, erule (3) certified_unique, elim conjE, erule (1) certified_parent,
    elim conjE, erule (4) two_chain_locks)

end
