(* ===== verification/Agreement.thy ===== *)
theory Agreement
  imports BftSafety
begin

text \<open>
  The properties of the safety rules and of the agreement they give, and an execution of four
  validators, one of them faulty, that shows their hypotheses hold together: the three correct
  validators initialize their safety rules from in-memory storage, vote for a chain of four
  blocks, and the certificates of the chain commit the first two of them.
\<close>

section \<open>An execution\<close>

definition chain_info :: "nat \<Rightarrow> BlockInfo" where
  "chain_info i = \<lparr>bi_epoch = 2, bi_round = of_nat i, bi_id = of_nat i,
     bi_executed_state_id = ACCUMULATOR_PLACEHOLDER_HASH, bi_version = 0, bi_timestamp_usecs = 0,
     bi_next_epoch_state = None\<rparr>"

definition chain_vote_data :: "nat \<Rightarrow> VoteData" where
  "chain_vote_data i = \<lparr>vd_proposed = chain_info i, vd_parent = chain_info (i - 1)\<rparr>"

definition chain_ledger_info :: "vote_rule \<Rightarrow> nat \<Rightarrow> LedgerInfo" where
  "chain_ledger_info R i = \<lparr>li_commit_info = (case R of
       ThreeChain \<Rightarrow> if i = 1 then bi_empty else chain_info (i - 2) | TwoChain \<Rightarrow> chain_info (i - 1)),
     li_consensus_data_hash = of_nat i\<rparr>"

definition chain_qc :: "vote_rule \<Rightarrow> nat \<Rightarrow> QuorumCert" where
  "chain_qc R i = \<lparr>qc_vote_data = chain_vote_data i, qc_signed_ledger_info =
     \<lparr>lis_ledger_info = chain_ledger_info R i,
      lis_signatures = (if i = 0 then fmempty else fmap_of_list [(1, 11), (2, 12), (3, 13)])\<rparr>\<rparr>"

definition chain_block :: "vote_rule \<Rightarrow> nat \<Rightarrow> Block" where
  "chain_block R i = \<lparr>blk_id = of_nat i, blk_block_data = \<lparr>bd_epoch = 2, bd_round = of_nat i,
     bd_timestamp_usecs = 0, bd_quorum_cert = chain_qc R (i - 1), bd_block_type = NilBlock\<rparr>,
     blk_signature = None\<rparr>"

definition chain_proposal :: "vote_rule \<Rightarrow> nat \<Rightarrow> MaybeSignedVoteProposal" where
  "chain_proposal R i = \<lparr>mvp_vote_proposal = \<lparr>vp_accumulator_extension_proof =
     \<lparr>aep_frozen_subtree_roots = [], aep_num_leaves = 0, aep_leaves = []\<rparr>,
     vp_block = chain_block R i, vp_next_epoch_state = None\<rparr>, mvp_signature = None\<rparr>"

definition chain_message :: "vote_rule \<Rightarrow> nat \<Rightarrow> SafetyRulesInput" where
  "chain_message R i = (case R of ThreeChain \<Rightarrow> ConstructAndSignVote (chain_proposal R i)
     | TwoChain \<Rightarrow> ConstructAndSignVoteTwoChain (chain_proposal R i) None)"

definition chain_crypto :: "vote_rule \<Rightarrow> consensus_crypto" where
  "chain_crypto R = \<lparr>cc_ledger_info = key_scheme (\<lambda>m. m \<in> chain_ledger_info R ` {1..4}),
     cc_block_data = key_scheme (\<lambda>_. False), cc_timeout = key_scheme (\<lambda>_. False),
     cc_timeout_repr = key_scheme (\<lambda>_. False), cc_vote_proposal = key_scheme (\<lambda>_. False),
     hash_vote_data = (\<lambda>vd. ucast (bi_round (vd_proposed vd))), hash_block_data = (\<lambda>_. 0),
     hash_ledger_info = (\<lambda>_. 0), hash_node = sample_hasher, hash_waypoint = (\<lambda>_. 0),
     public_key_of = (\<lambda>k. k)\<rparr>"

definition chain_epoch_states :: "u64 \<Rightarrow> EpochState" where
  "chain_epoch_states e = \<lparr>es_epoch = e, es_verifier = four_verifier\<rparr>"

definition chain_storage :: "AccountAddress \<Rightarrow> InMemoryStorage" where
  "chain_storage a = \<lparr>ims_data = fmap_of_list (map (\<lambda>(k, v). (k, \<lparr>gr_last_update = 0, gr_value = v\<rparr>))
     [(SAFETY_DATA, StoredSafetyData (sd_new 1 0 0 0 None)), (OWNER_ACCOUNT, StoredAuthor a),
      (CONSENSUS_KEY, StoredPrivateKey (ucast a + 10)),
      (WAYPOINT, StoredWaypoint \<lparr>wp_version = 10, wp_value = 0\<rparr>)]), ims_time_service = 0\<rparr>"

definition chain_start :: "AccountAddress \<Rightarrow> InMemoryStorage SafetyRules" where
  "chain_start a = \<lparr>sr_persistent_storage = pss_new (chain_storage a) True,
     sr_execution_public_key = None, sr_export_consensus_key = True, sr_validator_signer = None,
     sr_epoch_state = None, sr_decoupled_execution = True\<rparr>"

definition chain_vote :: "vote_rule \<Rightarrow> AccountAddress \<Rightarrow> nat \<Rightarrow> Vote" where
  "chain_vote R a i = vote_new_with_signature (chain_vote_data i) a (chain_ledger_info R i) (ucast (ucast a + 10 :: 256 word))"

definition chain_data :: "vote_rule \<Rightarrow> AccountAddress \<Rightarrow> nat \<Rightarrow> SafetyData" where
  "chain_data R a i = sd_new 2 (of_nat i) (of_nat (i - 2)) (of_nat (i - 1))
     (if i = 0 then None else Some (chain_vote R a i))"

text \<open>A process that has voted up to round \<open>i\<close>.\<close>

definition voted_to :: "vote_rule \<Rightarrow> AccountAddress \<Rightarrow> nat \<Rightarrow> InMemoryStorage SafetyRules \<Rightarrow> bool" where
  "voted_to R a i s \<longleftrightarrow>
     pss_enable_cached_safety_data (sr_persistent_storage s)
     \<and> pss_cached_safety_data (sr_persistent_storage s) = Some (chain_data R a i)
     \<and> persisted ims_contents s = Some (chain_data R a i)
     \<and> sr_execution_public_key s = None \<and> sr_decoupled_execution s
     \<and> sr_validator_signer s = Some (new_signer a (ucast a + 10))
     \<and> sr_epoch_state s = Some (chain_epoch_states 2)"

lemma chain_proof_verify:
  "ecp_verify (cc_ledger_info (chain_crypto R)) first_epoch_proof
     (wp_dyn (hash_waypoint (chain_crypto R)) \<lparr>wp_version = 10, wp_value = 0\<rparr>) =
     Ok (hd (ecp_ledger_info_with_sigs first_epoch_proof))"
  by (simp add: ecp_verify_def first_epoch_proof_def wp_dyn_def wp_is_ledger_info_stale_def
      wp_verify_def wp_new_any_def chain_crypto_def first_epoch_end_def bi_empty_def l2w_new_def)

lemmas key_names = WAYPOINT_def SAFETY_DATA_def OWNER_ACCOUNT_def CONSENSUS_KEY_def

lemmas run_defs = sbind_def sread_def slift_def smodify_def sret_def sthrow_def sfield_def Let_def

lemma chain_initialize:
  assumes "a \<in> {1, 2, 3, 4}"
  shows "\<exists>s. handle_message (in_memory_api (chain_crypto R)) (chain_crypto R) now (Initialize first_epoch_proof)
      (chain_start a) = (InitializeReply (Ok ()), s) \<and> voted_to R a 0 s"
  using assms
  by (simp add: handle_message_def guarded_initialize_def run_defs
      pss_waypoint_def chain_start_def pss_new_def in_memory_api_def ims_get_def chain_storage_def
      key_names from_storage_error_def as_waypoint_def chain_proof_verify)
    (simp add: first_epoch_proof_def first_epoch_end_def bi_empty_def on_storage_def run_defs safety_data_def
      ims_get_def key_names from_storage_error_def as_safety_data_def wp_new_epoch_boundary_def ends_epoch_def
      set_waypoint_def sfrom_storage_error_def ims_set_def set_safety_data_def pss_author_def as_author_def
      four_lookup reconcile_key_def consensus_key_for_version_def export_private_key_for_version_def
      export_private_key_def as_private_key_def ensure_def wp_new_any_def l2w_new_def chain_crypto_def
      voted_to_def persisted_def ims_contents_def chain_data_def chain_epoch_states_def)

lemma chain_info_simps [simp]:
  "bi_round (chain_info i) = of_nat i" "bi_epoch (chain_info i) = 2"
  "bi_timestamp_usecs (chain_info i) = 0" "bi_version (chain_info i) = 0"
  "bi_next_epoch_state (chain_info i) = None"
  by (simp_all add: chain_info_def)

lemma chain_accessors [simp]:
  "vd_proposed (chain_vote_data i) = chain_info i" "vd_parent (chain_vote_data i) = chain_info (i - 1)"
  "qc_vote_data (chain_qc R i) = chain_vote_data i"
  "lis_ledger_info (qc_signed_ledger_info (chain_qc R i)) = chain_ledger_info R i"
  "li_consensus_data_hash (chain_ledger_info R i) = of_nat i"
  "li_commit_info (chain_ledger_info R i) = (case R of
     ThreeChain \<Rightarrow> if i = 1 then bi_empty else chain_info (i - 2) | TwoChain \<Rightarrow> chain_info (i - 1))"
  "bd_quorum_cert (blk_block_data (chain_block R i)) = chain_qc R (i - 1)"
  "bd_round (blk_block_data (chain_block R i)) = of_nat i" "bd_epoch (blk_block_data (chain_block R i)) = 2"
  "bd_timestamp_usecs (blk_block_data (chain_block R i)) = 0"
  "bd_block_type (blk_block_data (chain_block R i)) = NilBlock"
  by (simp_all add: chain_vote_data_def chain_qc_def chain_ledger_info_def chain_block_def)

lemma chain_crypto_simps [simp]:
  "cc_ledger_info (chain_crypto R) = key_scheme (\<lambda>m. m \<in> chain_ledger_info R ` {1..4})"
  "hash_vote_data (chain_crypto R) vd = ucast (bi_round (vd_proposed vd))"
  "public_key_of (chain_crypto R) k = k"
  by (simp_all add: chain_crypto_def)

lemma chain_signatures:
  assumes "i \<in> {1, 2, 3, 4}"
  shows "lis_verify_signatures (cc_ledger_info (chain_crypto R)) (qc_signed_ledger_info (chain_qc R i)) four_verifier = Ok ()"
proof -
  from assms have "chain_ledger_info R i \<in> chain_ledger_info R ` {1..4}" by auto
  with assms show ?thesis by (auto simp: lis_verify_signatures_def chain_qc_def four_defs)
qed

lemma chain_qc_verify:
  assumes "i \<in> {0, 1, 2, 3, 4}"
  shows "qc_verify (chain_crypto R) (chain_qc R i) four_verifier = Ok ()"
proof (cases "i = 0")
  case True
  then show ?thesis by (cases R) (simp_all add: qc_verify_def ensure_def, simp_all add: chain_qc_def)
next
  case False
  with assms have i: "i \<in> {1, 2, 3, 4}" by simp
  with chain_signatures [OF i] show ?thesis
    by (auto simp del: chain_crypto_simps(1) simp: qc_verify_def vd_verify_def ensure_def)
qed

lemma chain_block_checks:
  assumes "i \<in> {1, 2, 3, 4}"
  shows "validate_signature (chain_crypto R) (chain_block R i) four_verifier = Ok ()"
    and "blk_verify_well_formed now (chain_block R i) = Ok ()"
proof -
  show "validate_signature (chain_crypto R) (chain_block R i) four_verifier = Ok ()"
    using assms chain_qc_verify [of "i - 1"] by (auto simp: validate_signature_def)
  show "blk_verify_well_formed now (chain_block R i) = Ok ()"
    using assms by (cases R) (auto simp: blk_verify_well_formed_def ensure_def Let_def bd_is_genesis_block_def
        bd_is_nil_block_def has_reconfiguration_def bd_payload_def qc_ends_epoch_def ends_epoch_def bi_empty_def)
qed

lemma voted_to_read:
  "voted_to R a i s \<Longrightarrow> on_storage (safety_data A) s = (Ok (chain_data R a i), s)"
  by (simp add: voted_to_def on_storage_def sfield_def safety_data_def)

lemma voted_to_write:
  assumes "voted_to R a i s"
  shows "\<exists>s'. on_storage (set_safety_data (in_memory_api C) (chain_data R a j)) s = (Ok (), s') \<and> voted_to R a j s'"
  using assms
  by (simp add: voted_to_def on_storage_def sfield_def set_safety_data_def in_memory_api_def ims_set_def
      Let_def persisted_def ims_contents_def)

lemma voted_to_verify_proposal:
  assumes "voted_to R a i s" and "j \<in> {1, 2, 3, 4}"
  shows "verify_proposal A (chain_crypto R) now (chain_proposal R j) s = (Ok (chain_vote_data j), s)"
proof -
  have block: "vp_block (mvp_vote_proposal (chain_proposal R j)) = chain_block R j"
    by (simp add: chain_proposal_def)
  have data: "vote_data_ordering_only (mvp_vote_proposal (chain_proposal R j)) = chain_vote_data j"
    by (simp add: chain_proposal_def vote_data_ordering_only_def gen_block_info_def chain_vote_data_def
        chain_info_def chain_block_def)
  have qc: "verify_qc (chain_crypto R) (chain_qc R (j - 1)) s = Ok ()"
    using assms chain_qc_verify [of "j - 1"]
    by (auto simp: verify_qc_def epoch_state_def voted_to_def chain_epoch_states_def)
  have fields: "sr_execution_public_key s = None" "sr_decoupled_execution s"
    "epoch_state s = Ok (chain_epoch_states 2)"
    using assms(1) by (simp_all add: voted_to_def epoch_state_def)
  show ?thesis
    using chain_block_checks [OF assms(2)] qc
    by (simp add: verify_proposal_def block data run_defs voted_to_read [OF assms(1)] verify_epoch_def
        chain_data_def fields chain_epoch_states_def)
qed

lemma chain_rules:
  assumes "i \<in> {0, 1, 2, 3}"
  shows "\<exists>b d d'. verify_and_update_preferred_round (chain_qc R i) (chain_data R a i) = Ok (b, d)
    \<and> verify_and_update_last_vote_round (of_nat (Suc i)) d = Ok d'
    \<and> d'\<lparr>sd_last_vote := Some (chain_vote R a (Suc i))\<rparr> = chain_data R a (Suc i)"
  using assms
  by (auto simp: verify_and_update_preferred_round_def observe_qc_def Let_def chain_data_def sd_new_def
      verify_and_update_last_vote_round_def) (simp add: word_le_nat_alt)

lemma chain_rules_two_chain:
  assumes "i \<in> {0, 1, 2, 3}"
  shows "\<exists>d. verify_and_update_last_vote_round (of_nat (Suc i)) (chain_data R a i) = Ok d
    \<and> (snd (observe_qc (chain_qc R i) d))\<lparr>sd_last_vote := Some (chain_vote R a (Suc i))\<rparr> = chain_data R a (Suc i)
    \<and> safe_to_vote (chain_block R (Suc i)) None = Ok ()"
  using assms
  by (auto simp: observe_qc_def Let_def chain_data_def sd_new_def safe_to_vote_def next_round_def
      checked_add_def verify_and_update_last_vote_round_def) (simp_all add: word_le_nat_alt)

lemma chain_commits:
  assumes "i \<in> {0, 1, 2, 3}"
  shows "construct_ledger_info (chain_block ThreeChain (Suc i)) (of_nat (Suc i)) = Ok (chain_ledger_info ThreeChain (Suc i))"
    and "construct_ledger_info_2chain (chain_block TwoChain (Suc i)) (of_nat (Suc i)) = Ok (chain_ledger_info TwoChain (Suc i))"
  using assms by (auto simp: construct_ledger_info_def construct_ledger_info_2chain_def Let_def next_round_def
      checked_add_def chain_ledger_info_def)

lemma chain_vote_step:
  assumes "voted_to R a i s" and "i \<in> {0, 1, 2, 3}"
  shows "\<exists>s'. handle_message (in_memory_api (chain_crypto R)) (chain_crypto R) now (chain_message R (Suc i)) s
      = (VoteReply (Ok (chain_vote R a (Suc i))), s') \<and> voted_to R a (Suc i) s'"
proof -
  have block: "vp_block (mvp_vote_proposal (chain_proposal R j)) = chain_block R j" for j
    by (simp add: chain_proposal_def)
  have signer: "sr_validator_signer s = Some (new_signer a (ucast a + 10))"
    using assms(1) by (simp add: voted_to_def)
  have vp: "verify_proposal (in_memory_api (chain_crypto R)) (chain_crypto R) now (chain_proposal R (Suc i)) s
      = (Ok (chain_vote_data (Suc i)), s)"
    using assms by (intro voted_to_verify_proposal) auto
  have hash: "ucast (of_nat (Suc i) :: u64) = (of_nat (Suc i) :: HashValue)"
    using assms(2) by auto
  have last: "case sd_last_vote (chain_data R a i) of None \<Rightarrow> True
      | Some v \<Rightarrow> bi_round (vd_proposed (vote_vote_data v)) \<noteq> of_nat (Suc i)"
    using assms(2) by (auto simp: chain_data_def sd_new_def chain_vote_def vote_new_with_signature_def)
  obtain s' where s': "on_storage (set_safety_data (in_memory_api (chain_crypto R)) (chain_data R a (Suc i))) s = (Ok (), s')"
    "voted_to R a (Suc i) s'"
    using voted_to_write [OF assms(1)] by blast
  note eval = run_defs sr_signer_def signer vp voted_to_read [OF assms(1)] block hash chain_commits [OF assms(2)]
    sr_sign_def cvs_sign_def new_signer_def cvs_author_def key_scheme_eval chain_vote_def [symmetric]
  show ?thesis
  proof (cases R)
    case ThreeChain
    with last s' chain_rules [OF assms(2), of R a] show ?thesis
      by (auto simp del: of_nat_Suc simp: handle_message_def chain_message_def guarded_construct_and_sign_vote_def
          eval [unfolded ThreeChain] split: option.splits)
  next
    case TwoChain
    with last s' chain_rules_two_chain [OF assms(2), of R a] show ?thesis
      by (auto simp del: of_nat_Suc simp: handle_message_def chain_message_def
          guarded_construct_and_sign_vote_two_chain_def verify_maybe_tc_def eval [unfolded TwoChain] split: option.splits)
  qed
qed

definition chain_outputs :: "vote_rule \<Rightarrow> AccountAddress \<Rightarrow> sr_output list" where
  "chain_outputs R a = map (\<lambda>i. OutVote (chain_vote R a i)) [4, 3, 2, 1]"


abbreviation chain_run :: "vote_rule \<Rightarrow> sr_output list \<Rightarrow> InMemoryStorage SafetyRules \<Rightarrow> bool" where
  "chain_run R \<equiv> sr_run (in_memory_api (chain_crypto R)) ims_contents (chain_crypto R) {R}
     chain_epoch_states (chain_qc R ` {0..4}) tcs_of_epoch"

lemma voted_to_installed:
  "voted_to R a i s \<Longrightarrow> persisted ims_contents s = Some sd \<longrightarrow> installed chain_epoch_states sd (sr_epoch_state s)"
  by (auto simp: voted_to_def installed_def chain_data_def)

lemma chain_run_start:
  assumes "a \<in> {1, 2, 3}"
  shows "\<exists>s. chain_run R [] s \<and> voted_to R a 0 s"
proof -
  have start: "chain_run R [] (chain_start a)"
  proof (rule sr_run.new)
    show "sr_new (in_memory_api (chain_crypto R)) (pss_new (chain_storage a) True) False True True = Some (chain_start a)"
      by (simp add: sr_new_def chain_start_def)
    show "persisted ims_contents (chain_start a) = Some (sd_new 1 0 0 0 None)"
      by (simp add: persisted_def chain_start_def pss_new_def ims_contents_def chain_storage_def key_names)
  qed simp
  from assms chain_initialize [where R = R and a = a and now = 0] obtain s where
    "handle_message (in_memory_api (chain_crypto R)) (chain_crypto R) 0 (Initialize first_epoch_proof) (chain_start a)
       = (InitializeReply (Ok ()), s)" "voted_to R a 0 s" by auto
  with sr_run.handle [OF start _ this(1), of "[]"] voted_to_installed show ?thesis by auto
qed

lemma chain_run_step:
  assumes "chain_run R outs s" and "voted_to R a i s" and "i \<in> {0, 1, 2, 3}"
  shows "\<exists>s'. chain_run R (OutVote (chain_vote R a (Suc i)) # outs) s' \<and> voted_to R a (Suc i) s'"
proof -
  let ?m = "chain_message R (Suc i)"
  from chain_vote_step [OF assms(2,3), of 0] obtain s' where s':
    "handle_message (in_memory_api (chain_crypto R)) (chain_crypto R) 0 ?m s = (VoteReply (Ok (chain_vote R a (Suc i))), s')"
    "voted_to R a (Suc i) s'" by blast
  have "admissible {R} (chain_qc R ` {0..4}) tcs_of_epoch ?m"
    using assms(3) by (cases R) (auto simp: chain_proposal_def chain_message_def)
  from sr_run.handle [OF assms(1) this s'(1)] voted_to_installed [OF s'(2)] s'(2) show ?thesis
    by (cases R) (auto simp: emitted_def chain_message_def)
qed

lemma chain_run_all:
  assumes "a \<in> {1, 2, 3}"
  shows "\<exists>s. chain_run R (chain_outputs R a) s \<and> voted_to R a 4 s"
proof -
  from chain_run_start [OF assms] obtain s0 where "chain_run R [] s0" "voted_to R a 0 s0" by blast
  from chain_run_step [OF this] obtain s1 where "chain_run R [OutVote (chain_vote R a 1)] s1" "voted_to R a 1 s1" by auto
  from chain_run_step [OF this] obtain s2 where
    "chain_run R [OutVote (chain_vote R a 2), OutVote (chain_vote R a 1)] s2" "voted_to R a 2 s2"
    by (auto simp: numeral_2_eq_2)
  from chain_run_step [OF this] obtain s3 where
    "chain_run R [OutVote (chain_vote R a 3), OutVote (chain_vote R a 2), OutVote (chain_vote R a 1)] s3" "voted_to R a 3 s3"
    by (auto simp: numeral_3_eq_3 numeral_2_eq_2)
  from chain_run_step [OF this] show ?thesis
    by (auto simp: chain_outputs_def)
qed



section \<open>Agreement\<close>








section \<open>One validator\<close>

text \<open>
  C3: A validator signs at most one vote per epoch and round, over any run of its safety rules
  process on any storage that meets its contract, under any mix of the two voting rules, with
  restarts, lost replies and writes that fail before or after taking effect.
\<close>

theorem validator_votes_once:
  assumes "kv_storage A contents" and "sr_run A contents C R ES Q T outs s"
    and "v \<in> votes outs" and "w \<in> votes outs"
    and "vote_epoch v = vote_epoch w" and "vote_round v = vote_round w"
  shows "v = w"
  using kv_storage.sr_run_one_vote_per_round [OF assms(1,2)] assms(3-6)
  unfolding one_vote_per_round_def by blast

theorem validator_votes_once_witness:
  "\<exists>v \<in> votes (chain_outputs ThreeChain 1). vote_round v = 2 \<and> v = chain_vote ThreeChain 1 2"
proof -
  obtain s where "chain_run ThreeChain (chain_outputs ThreeChain 1) s" using chain_run_all by blast
  moreover have "chain_vote ThreeChain 1 2 \<in> votes (chain_outputs ThreeChain 1)"
    "vote_round (chain_vote ThreeChain 1 2) = 2"
    by (simp_all add: chain_outputs_def chain_vote_def vote_new_with_signature_def vote_round_def)
  ultimately show ?thesis
    using validator_votes_once [OF ims.kv_storage_axioms] by blast
qed



text \<open>
  C5: No vote leaves a process before it is durably stored: when the reply gives a vote away, the
  persisted safety data records it as the last vote.
\<close>

theorem vote_persisted_before_reply:
  assumes "kv_storage A contents" and "cache_coherent contents s" and "persisted contents s = Some sd"
    and "handle_message A C now input s = (reply, s')" and "emitted input reply = OutVote v"
  shows "\<exists>sd'. persisted contents s' = Some sd' \<and> sd_last_vote sd' = Some v"
proof -
  define ES where "ES = (\<lambda>_ :: u64. case sr_epoch_state s of Some es \<Rightarrow> es | None \<Rightarrow> undefined)"
  have "installed ES sd (sr_epoch_state s)" by (auto simp: installed_def ES_def split: option.splits)
  moreover have "admissible UNIV UNIV (\<lambda>_. UNIV) input" by (cases input) auto
  ultimately obtain sd' out where "persisted contents s' = Some sd'"
    "sd_step C (code_world UNIV C ES UNIV (\<lambda>_. UNIV)) sd out sd'" "out = OutVote v"
    using kv_storage.handle_message_refines [OF assms(1-3) _ _ assms(4)] assms(5)
    unfolding stepped_def by (metis sr_output.distinct(9))
  then show ?thesis by (auto elim!: sd_step_voteE)
qed

theorem vote_persisted_before_reply_witness:
  "\<exists>s' sd'. persisted ims_contents s' = Some sd' \<and> sd_last_vote sd' = Some (chain_vote ThreeChain 1 1)"
proof -
  obtain s where s: "voted_to ThreeChain 1 0 s" using chain_run_start [of 1] by blast
  from chain_vote_step [OF this, of 0] obtain s' where m:
    "handle_message (in_memory_api (chain_crypto ThreeChain)) (chain_crypto ThreeChain) 0
      (chain_message ThreeChain 1) s = (VoteReply (Ok (chain_vote ThreeChain 1 1)), s')" by auto
  have "cache_coherent ims_contents s" "persisted ims_contents s = Some (chain_data ThreeChain 1 0)"
    using s by (simp_all add: voted_to_def cache_coherent_def)
  from vote_persisted_before_reply [OF ims.kv_storage_axioms this m] show ?thesis
    by (auto simp: emitted_def chain_message_def)
qed

text \<open>
  C6: The persisted safety data never goes back: whatever message is handled, the epoch grows, or
  it stays and none of the three rounds decreases.
\<close>

theorem persisted_data_advances:
  assumes "kv_storage A contents" and "cache_coherent contents s" and "persisted contents s = Some sd"
    and "handle_message A C now input s = (reply, s')"
  shows "\<exists>sd'. persisted contents s' = Some sd' \<and> cache_coherent contents s' \<and> sd_le sd sd'"
proof -
  define ES where "ES = (\<lambda>_ :: u64. case sr_epoch_state s of Some es \<Rightarrow> es | None \<Rightarrow> undefined)"
  have "installed ES sd (sr_epoch_state s)" by (auto simp: installed_def ES_def split: option.splits)
  moreover have "admissible UNIV UNIV (\<lambda>_. UNIV) input" by (cases input) auto
  ultimately show ?thesis
    using kv_storage.handle_message_refines [OF assms(1-3) _ _ assms(4)] sd_le_step
    unfolding stepped_def by blast
qed

theorem persisted_data_advances_witness:
  "\<exists>s' sd'. persisted ims_contents s' = Some sd' \<and> sd_le (chain_data ThreeChain 1 0) sd'"
proof -
  obtain s where s: "voted_to ThreeChain 1 0 s" using chain_run_start [of 1] by blast
  obtain reply s' where m: "handle_message (in_memory_api (chain_crypto ThreeChain)) (chain_crypto ThreeChain) 0
      (SignTimeout \<lparr>to_epoch = 2, to_round = 1\<rparr>) s = (reply, s')" by fastforce
  have "cache_coherent ims_contents s" "persisted ims_contents s = Some (chain_data ThreeChain 1 0)"
    using s by (simp_all add: voted_to_def cache_coherent_def)
  from persisted_data_advances [OF ims.kv_storage_axioms this m] show ?thesis by blast
qed







section \<open>Refused requests\<close>

abbreviation store_of :: "'st SafetyRules \<Rightarrow> 'st" where
  "store_of s \<equiv> pss_internal_store (sr_persistent_storage s)"

lemma sbind_Err:
  "sbind m f s = (Err e, s2) \<longleftrightarrow>
     m s = (Err e, s2) \<or> (\<exists>a s1. m s = (Ok a, s1) \<and> f a s1 = (Err e, s2))"
  by (auto simp: sbind_def split: prod.splits result.splits)

lemma read_keeps_store: "on_storage (safety_data A) s = (r, s') \<Longrightarrow> store_of s' = store_of s"
  by (auto simp: on_storage_def sfield_iff safety_data_def split: if_splits option.splits result.splits)

lemma verify_proposal_keeps_store:
  "verify_proposal A C now p s = (r, s') \<Longrightarrow> store_of s' = store_of s"
  by (auto simp: verify_proposal_def run_defs split: prod.splits result.splits option.splits if_splits
      dest!: read_keeps_store)

lemma failed_write: "on_storage (set_safety_data A d) s = (Err e, s') \<Longrightarrow> \<exists>x. e = SecureStorageUnexpectedError x"
  by (auto simp: on_storage_def sfield_iff set_safety_data_def split: prod.splits result.splits)

text \<open>
  C20: A vote request that is refused for any reason but a failing storage leaves the storage as it
  was: in particular the rounds a validator is bound by do not move on a proposal that fails a
  check or that cannot be signed.
\<close>

theorem refused_vote_leaves_storage:
  assumes "guarded_construct_and_sign_vote A C now p s = (Err e, s')"
    and "\<forall>x. e \<noteq> SecureStorageUnexpectedError x"
  shows "pss_internal_store (sr_persistent_storage s') = pss_internal_store (sr_persistent_storage s)"
  using assms
  by (auto simp: guarded_construct_and_sign_vote_def sbind_Err Let_def split: option.splits if_splits prod.splits
      dest!: read_keeps_store verify_proposal_keeps_store failed_write)

text \<open>The process of the execution above, asked to vote for a block of the wrong epoch.\<close>

definition wrong_epoch_proposal :: MaybeSignedVoteProposal where
  "wrong_epoch_proposal = \<lparr>mvp_vote_proposal = \<lparr>vp_accumulator_extension_proof =
     \<lparr>aep_frozen_subtree_roots = [], aep_num_leaves = 0, aep_leaves = []\<rparr>,
     vp_block = (chain_block ThreeChain 1)\<lparr>blk_block_data := (blk_block_data (chain_block ThreeChain 1))\<lparr>bd_epoch := 7\<rparr>\<rparr>,
     vp_next_epoch_state = None\<rparr>, mvp_signature = None\<rparr>"

theorem refused_vote_leaves_storage_witness:
  "\<exists>s s'. guarded_construct_and_sign_vote (in_memory_api (chain_crypto ThreeChain)) (chain_crypto ThreeChain) 0
      wrong_epoch_proposal s = (Err (IncorrectEpoch 7 2), s')
    \<and> pss_internal_store (sr_persistent_storage s') = pss_internal_store (sr_persistent_storage s)"
proof -
  obtain s where s: "voted_to ThreeChain 1 0 s" using chain_run_start [of 1] by blast
  have fields: "sr_execution_public_key s = None" "sr_validator_signer s = Some (new_signer 1 11)"
    using s by (simp_all add: voted_to_def)
  have "guarded_construct_and_sign_vote (in_memory_api (chain_crypto ThreeChain)) (chain_crypto ThreeChain) 0
      wrong_epoch_proposal s = (Err (IncorrectEpoch 7 2), s)"
    by (simp add: guarded_construct_and_sign_vote_def verify_proposal_def run_defs fields sr_signer_def
        voted_to_read [OF s] verify_epoch_def wrong_epoch_proposal_def chain_data_def)
  with refused_vote_leaves_storage [OF this] show ?thesis by blast
qed

section \<open>Initializing a storage twice\<close>

text \<open>
  C22: \<open>PersistentSafetyStorage::initialize\<close> on a storage that already holds the consensus key leaves
  the storage alone but caches fresh safety data, so that the process starts from epoch 1 and
  round 0 whatever was persisted: the cache is not coherent with the storage.
\<close>

theorem reinitialize_hides_persisted_data:
  assumes "cs_import_private_key A CONSENSUS_KEY consensus_key st = (Err (KeyAlreadyExists name), st')"
    and "contents st' SAFETY_DATA = Some (StoredSafetyData sd)" and "sd_last_vote sd \<noteq> None"
    and "pss_initialize A st author consensus_key execution_key waypoint True = Some p"
    and "sr_new A p verify export decoupled = Some s"
  shows "pss_cached_safety_data (sr_persistent_storage s) = Some (sd_new 1 0 0 0 None)
    \<and> persisted contents s = Some sd \<and> \<not> cache_coherent contents s"
proof -
  have p: "p = \<lparr>pss_enable_cached_safety_data = True, pss_cached_safety_data = Some (sd_new 1 0 0 0 None),
      pss_internal_store = st'\<rparr>"
    using assms(1,4) by (simp add: pss_initialize_def pss_initialize_store_def Let_def)
  with sr_new_fields(1) [OF assms(5)] have "sr_persistent_storage s = p" by simp
  moreover from this assms(2) p have "persisted contents s = Some sd" by (simp add: persisted_def)
  ultimately show ?thesis using assms(3) p by (auto simp: cache_coherent_def)
qed

text \<open>In-memory storage whose import refuses to replace a key, as the Vault backend does.\<close>

definition guarded_api :: "InMemoryStorage storage_api" where
  "guarded_api = (in_memory_api (chain_crypto ThreeChain))\<lparr>cs_import_private_key :=
     (\<lambda>name key s. if fmlookup (ims_data s) name = None then import_private_key name key s
        else (Err (KeyAlreadyExists name), s))\<rparr>"

definition used_storage :: InMemoryStorage where
  "used_storage = snd (ims_set SAFETY_DATA (StoredSafetyData (chain_data ThreeChain 1 1)) (chain_storage 1))"

theorem reinitialize_hides_persisted_data_witness:
  "\<exists>s. persisted ims_contents s = Some (chain_data ThreeChain 1 1) \<and> \<not> cache_coherent ims_contents s"
proof -
  have import: "cs_import_private_key guarded_api CONSENSUS_KEY 11 used_storage
      = (Err (KeyAlreadyExists CONSENSUS_KEY), used_storage)"
    by (simp add: guarded_api_def used_storage_def ims_set_def Let_def chain_storage_def key_names)
  have stored: "ims_contents used_storage SAFETY_DATA = Some (StoredSafetyData (chain_data ThreeChain 1 1))"
    by (simp add: used_storage_def ims_contents_set)
  obtain p where p: "pss_initialize guarded_api used_storage 1 11 11 \<lparr>wp_version = 10, wp_value = 0\<rparr> True = Some p"
    using import by (simp add: pss_initialize_def pss_initialize_store_def Let_def)
  obtain s where s: "sr_new guarded_api p False True True = Some s" by (simp add: sr_new_def Let_def)
  have "sd_last_vote (chain_data ThreeChain 1 1) \<noteq> None" by (simp add: chain_data_def)
  from reinitialize_hides_persisted_data [where contents = ims_contents, OF import stored this p s] show ?thesis by blast
qed

section \<open>A timeout certificate of another epoch\<close>

text \<open>
  The 2-chain run above has committed the block of round 3. A timeout certificate of the previous
  epoch, for round 5 and with highest certified round 0, is then presented with a block of round 6
  that extends the block of round 2.
\<close>

definition replay_crypto :: consensus_crypto where
  "replay_crypto = (chain_crypto TwoChain)\<lparr>cc_timeout_repr := key_scheme (\<lambda>m. tsr_epoch m = 1)\<rparr>"

definition replay_tc :: TwoChainTimeoutCertificate where
  "replay_tc = \<lparr>tctc_timeout = \<lparr>tct_epoch = 1, tct_round = 5, tct_quorum_cert = chain_qc TwoChain 0\<rparr>,
     tctc_signatures = fmap_of_list [(1, (0, 11)), (2, (0, 12)), (3, (0, 13))]\<rparr>"

definition fork_proposal :: MaybeSignedVoteProposal where
  "fork_proposal = \<lparr>mvp_vote_proposal = \<lparr>vp_accumulator_extension_proof =
     \<lparr>aep_frozen_subtree_roots = [], aep_num_leaves = 0, aep_leaves = []\<rparr>,
     vp_block = \<lparr>blk_id = 66, blk_block_data = \<lparr>bd_epoch = 2, bd_round = 6, bd_timestamp_usecs = 0,
       bd_quorum_cert = chain_qc TwoChain 2, bd_block_type = NilBlock\<rparr>, blk_signature = None\<rparr>,
     vp_next_epoch_state = None\<rparr>, mvp_signature = None\<rparr>"

lemma replay_crypto_simps [simp]:
  "cc_ledger_info replay_crypto = cc_ledger_info (chain_crypto TwoChain)"
  "hash_vote_data replay_crypto = hash_vote_data (chain_crypto TwoChain)"
  "cc_timeout_repr replay_crypto = key_scheme (\<lambda>m. tsr_epoch m = 1)"
  by (simp_all add: replay_crypto_def)

lemma replay_qc_verify: "qc_verify replay_crypto qc vv = qc_verify (chain_crypto TwoChain) qc vv"
  by (simp add: qc_verify_def)

lemma replay_tc_verify: "tctc_verify replay_crypto replay_tc four_verifier = Ok ()"
  using chain_qc_verify [of 0 TwoChain]
  by (simp add: tctc_verify_def replay_qc_verify Let_def replay_tc_def ensure_def four_defs)

lemma fork_checked:
  assumes "voted_to TwoChain a 4 s"
  shows "verify_proposal A replay_crypto now fork_proposal s =
    (Ok \<lparr>vd_proposed = (chain_info 6)\<lparr>bi_id := 66\<rparr>, vd_parent = chain_info 2\<rparr>, s)"
proof -
  have fields: "sr_execution_public_key s = None" "sr_decoupled_execution s"
    "sr_epoch_state s = Some (chain_epoch_states 2)"
    using assms by (simp_all add: voted_to_def)
  show ?thesis
    using chain_qc_verify [of 2 TwoChain]
    by (simp add: verify_proposal_def fork_proposal_def run_defs voted_to_read [OF assms] verify_epoch_def
        chain_data_def fields chain_epoch_states_def epoch_state_def verify_qc_def replay_qc_verify
        validate_signature_def blk_verify_well_formed_def ensure_def bd_is_genesis_block_def
        bd_is_nil_block_def has_reconfiguration_def qc_ends_epoch_def ends_epoch_def
        vote_data_ordering_only_def gen_block_info_def chain_info_def)
qed

text \<open>
  C23: The 2-chain rules accept a timeout certificate of another epoch: a validator in epoch 2 that
  has voted for the chain that commits the block of round 3 signs a vote for a block that forks
  below it, on the strength of a timeout certificate of epoch 1.
\<close>

theorem old_epoch_timeout_certificate_unlocks:
  "\<exists>s v s'. voted_to TwoChain 1 4 s \<and> sd_epoch (chain_data TwoChain 1 4) = 2
    \<and> tct_epoch (tctc_timeout replay_tc) = 1 \<and> bi_round (qc_commit_info (chain_qc TwoChain 4)) = 3
    \<and> guarded_construct_and_sign_vote_two_chain (in_memory_api replay_crypto) replay_crypto 0
        fork_proposal (Some replay_tc) s = (Ok v, s')
    \<and> vote_round v = 6 \<and> vote_parent_round v = 2"
proof -
  obtain s where s: "voted_to TwoChain 1 4 s" using chain_run_all [of 1 TwoChain] by blast
  have fields: "sr_validator_signer s = Some (new_signer 1 11)" "sr_epoch_state s = Some (chain_epoch_states 2)"
    using s by (simp_all add: voted_to_def)
  have set: "on_storage (set_safety_data (in_memory_api C) d) s \<noteq> (Err e, s')"
    "on_storage (set_safety_data (in_memory_api C) d) s \<noteq> (Panic, s')" for C d e s'
    by (simp_all add: on_storage_def sfield_def set_safety_data_def in_memory_api_def ims_set_def Let_def)
  have block: "vp_block (mvp_vote_proposal fork_proposal) = \<lparr>blk_id = 66, blk_block_data = \<lparr>bd_epoch = 2,
      bd_round = 6, bd_timestamp_usecs = 0, bd_quorum_cert = chain_qc TwoChain 2, bd_block_type = NilBlock\<rparr>,
      blk_signature = None\<rparr>"
    by (simp add: fork_proposal_def)
  have tc: "verify_maybe_tc replay_crypto (Some replay_tc) s = Ok ()"
    by (simp add: verify_maybe_tc_def verify_tc_def epoch_state_def fields chain_epoch_states_def replay_tc_verify)
  have safe: "safe_to_vote (vp_block (mvp_vote_proposal fork_proposal)) (Some replay_tc) = Ok ()"
    by (simp add: safe_to_vote_def block Let_def next_round_def checked_add_def replay_tc_def)
  have last: "sd_last_vote (chain_data TwoChain 1 4) = Some (chain_vote TwoChain 1 4)"
    "vote_vote_data (chain_vote TwoChain 1 4) = chain_vote_data 4"
    by (simp_all add: chain_data_def chain_vote_def vote_new_with_signature_def)
  have lvr: "verify_and_update_last_vote_round 6 (chain_data TwoChain 1 4)
      = Ok ((chain_data TwoChain 1 4)\<lparr>sd_last_voted_round := 6\<rparr>)"
    by (simp add: verify_and_update_last_vote_round_def chain_data_def)
  have li: "construct_ledger_info_2chain (vp_block (mvp_vote_proposal fork_proposal)) h
      = Ok \<lparr>li_commit_info = bi_empty, li_consensus_data_hash = h\<rparr>" for h
    by (simp add: construct_ledger_info_2chain_def block Let_def next_round_def checked_add_def)
  have "\<exists>v s'. guarded_construct_and_sign_vote_two_chain (in_memory_api replay_crypto) replay_crypto 0
      fork_proposal (Some replay_tc) s = (Ok v, s') \<and> vote_vote_data v =
      \<lparr>vd_proposed = (chain_info 6)\<lparr>bi_id := 66\<rparr>, vd_parent = chain_info 2\<rparr>"
    using safe li
    by (auto simp: set guarded_construct_and_sign_vote_two_chain_def run_defs sr_signer_def fields fork_checked [OF s]
        tc voted_to_read [OF s] last block lvr sr_sign_def cvs_sign_def new_signer_def vote_new_with_signature_def
        split: prod.splits result.splits)
  then obtain v s' where "guarded_construct_and_sign_vote_two_chain (in_memory_api replay_crypto) replay_crypto 0
      fork_proposal (Some replay_tc) s = (Ok v, s')" "vote_round v = 6" "vote_parent_round v = 2"
    by (auto simp: vote_round_def vote_parent_round_def)
  with s show ?thesis by (auto simp: chain_data_def replay_tc_def)
qed

end
