(* ===== verification/TrustedState.thy ===== *)
theory TrustedState
  imports EpochChange Accumulator
begin

text \<open>
  The light client's view of the ledger, \<open>src/types/src/trusted_state.rs\<close> and
  \<open>src/types/src/state_proof.rs\<close>: a waypoint, the validator set of the current epoch and a summary
  of the transaction accumulator, ratcheted forward by the state proofs a server sends.

  A \<open>TransactionAccumulatorSummary\<close> is the accumulator it wraps, and an
  \<open>AccumulatorConsistencyProof\<close> the list of its subtrees. The arguments \<open>S\<close>, \<open>HW\<close> and \<open>H\<close> are the
  signature scheme of ledger infos, the hash a waypoint commits to and the hash of inner nodes. A
  state never moves back, and clients that start from the same trusted state and follow whatever
  servers send them never trust different validator sets for one epoch nor different accumulators
  for one version.
\<close>

section \<open>StateProof\<close>

record StateProof =
  sp_latest_li_w_sigs :: LedgerInfoWithSignatures
  sp_epoch_changes :: EpochChangeProof
  sp_consistency_proof :: "HashValue list"

section \<open>TrustedState\<close>

datatype TrustedState =
    TS_EpochWaypoint Waypoint
  | TS_EpochState Waypoint EpochState InMemoryAccumulator

datatype TrustedStateChange =
    TSC_Version TrustedState
  | TSC_Epoch TrustedState LedgerInfoWithSignatures
  | TSC_NoChange

definition from_epoch_waypoint :: "Waypoint \<Rightarrow> TrustedState" where
  "from_epoch_waypoint epoch_waypoint = TS_EpochWaypoint epoch_waypoint"

definition try_from_epoch_change_li ::
  "(Ledger2WaypointConverter \<Rightarrow> HashValue) \<Rightarrow> LedgerInfo \<Rightarrow> InMemoryAccumulator \<Rightarrow> (TrustedState, anyhow) result" where
  "try_from_epoch_change_li HW epoch_change_li accumulator =
     rbind (verify_consistency accumulator epoch_change_li) (\<lambda>_.
     rbind (ok_or (li_next_epoch_state epoch_change_li)
              (Msg ''No EpochState in LedgerInfo; it must not be on an epoch boundary'')) (\<lambda>epoch_state.
     rbind (wp_new_epoch_boundary HW epoch_change_li) (\<lambda>waypoint.
     Ok (TS_EpochState waypoint epoch_state accumulator))))"

fun is_epoch_waypoint :: "TrustedState \<Rightarrow> bool" where
  "is_epoch_waypoint (TS_EpochWaypoint _) = True"
| "is_epoch_waypoint (TS_EpochState _ _ _) = False"

fun ts_waypoint :: "TrustedState \<Rightarrow> Waypoint" where
  "ts_waypoint (TS_EpochWaypoint waypoint) = waypoint"
| "ts_waypoint (TS_EpochState waypoint _ _) = waypoint"

definition ts_version :: "TrustedState \<Rightarrow> Version" where
  "ts_version ts = wp_version (ts_waypoint ts)"

fun accumulator_summary :: "TrustedState \<Rightarrow> InMemoryAccumulator option" where
  "accumulator_summary (TS_EpochWaypoint _) = None"
| "accumulator_summary (TS_EpochState _ _ accumulator) = Some accumulator"

definition accumulator_root_hash :: "TrustedState \<Rightarrow> HashValue option" where
  "accumulator_root_hash ts = map_option acc_root_hash (accumulator_summary ts)"

definition need_accumulator :: "TrustedState \<Rightarrow> bool" where
  "need_accumulator ts \<longleftrightarrow> accumulator_summary ts = None"

fun ts_dyn ::
  "LedgerInfo sig_scheme \<Rightarrow> (Ledger2WaypointConverter \<Rightarrow> HashValue) \<Rightarrow> TrustedState \<Rightarrow> dyn_verifier" where
  "ts_dyn S HW (TS_EpochWaypoint waypoint) = wp_dyn HW waypoint"
| "ts_dyn S HW (TS_EpochState _ epoch_state _) = es_dyn S epoch_state"

text \<open>
  The accumulator to extend: a client that starts from a waypoint has to bring an untrusted one,
  which is checked against the first ledger info of the epoch change proof.
\<close>

definition current_accumulator ::
  "TrustedState \<Rightarrow> EpochChangeProof \<Rightarrow> InMemoryAccumulator option \<Rightarrow> (InMemoryAccumulator, anyhow) result" where
  "current_accumulator ts epoch_change_proof initial_accumulator =
     (case ts of
        TS_EpochWaypoint _ \<Rightarrow>
          rbind (expect initial_accumulator) (\<lambda>curr_accumulator.
          rbind (ok_or (case ecp_ledger_info_with_sigs epoch_change_proof of [] \<Rightarrow> None | l # _ \<Rightarrow> Some l)
                   (Msg ''Empty epoch change proof'')) (\<lambda>waypoint_li.
          rbind (verify_consistency curr_accumulator (lis_ledger_info waypoint_li)) (\<lambda>_.
          Ok curr_accumulator)))
      | TS_EpochState _ _ accumulator \<Rightarrow> Ok accumulator)"

text \<open>The ledger info a client that changes epoch ends up with: the latest one when it is reachable.\<close>

definition verified_ledger_info ::
  "LedgerInfo sig_scheme \<Rightarrow> LedgerInfoWithSignatures \<Rightarrow> EpochChangeProof \<Rightarrow> LedgerInfoWithSignatures
     \<Rightarrow> EpochState \<Rightarrow> (LedgerInfoWithSignatures, anyhow) result" where
  "verified_ledger_info S latest_li epoch_change_proof epoch_change_li new_epoch_state =
     (let new_epoch = es_epoch new_epoch_state
      in if epoch_change_li = latest_li then Ok latest_li
         else if li_epoch (lis_ledger_info latest_li) = new_epoch
         then rbind (es_verify S new_epoch_state latest_li) (\<lambda>_. Ok latest_li)
         else if li_epoch (lis_ledger_info latest_li) > new_epoch \<and> ecp_more epoch_change_proof
         then Ok epoch_change_li
         else Err (Msg ''Inconsistent epoch change proof and latest ledger info''))"

definition verify_and_ratchet_inner ::
  "LedgerInfo sig_scheme \<Rightarrow> (Ledger2WaypointConverter \<Rightarrow> HashValue) \<Rightarrow> hasher \<Rightarrow> TrustedState
     \<Rightarrow> LedgerInfoWithSignatures \<Rightarrow> EpochChangeProof \<Rightarrow> HashValue list \<Rightarrow> InMemoryAccumulator option
     \<Rightarrow> (TrustedStateChange, anyhow) result" where
  "verify_and_ratchet_inner S HW H ts latest_li epoch_change_proof consistency_proof initial_accumulator =
     (let curr_version = ts_version ts;
          target_version = li_version (lis_ledger_info latest_li)
      in rbind (ensure (target_version \<ge> curr_version)
           (Msg ''The target latest ledger info version is stale and behind our current trusted version'')) (\<lambda>_.
         rbind (current_accumulator ts epoch_change_proof initial_accumulator) (\<lambda>curr_accumulator.
         if dv_epoch_change_verification_required (ts_dyn S HW ts)
              (li_next_block_epoch (lis_ledger_info latest_li))
         then
           rbind (ecp_verify S epoch_change_proof (ts_dyn S HW ts)) (\<lambda>epoch_change_li.
           rbind (ok_or (li_next_epoch_state (lis_ledger_info epoch_change_li))
                    (Msg ''A valid EpochChangeProof will never return a non-epoch change ledger info'')) (\<lambda>new_epoch_state.
           rbind (verified_ledger_info S latest_li epoch_change_proof epoch_change_li new_epoch_state) (\<lambda>verified.
           let new_waypoint = wp_new_any HW (lis_ledger_info verified)
           in rbind (try_extend_with_proof H curr_accumulator consistency_proof (lis_ledger_info verified)) (\<lambda>new_accumulator.
              Ok (TSC_Epoch (TS_EpochState new_waypoint new_epoch_state new_accumulator) epoch_change_li)))))
         else
           (case ts of
              TS_EpochWaypoint _ \<Rightarrow> Err (Msg ''EpochWaypoint can only verify an epoch change ledger info'')
            | TS_EpochState curr_waypoint curr_epoch_state _ \<Rightarrow>
                (let new_waypoint = wp_new_any HW (lis_ledger_info latest_li)
                 in if wp_version new_waypoint = wp_version curr_waypoint
                    then rbind (ensure (new_waypoint = curr_waypoint)
                                  (Msg ''LedgerInfo doesn't match verified state'')) (\<lambda>_.
                         Ok TSC_NoChange)
                    else
                      rbind (es_verify S curr_epoch_state latest_li) (\<lambda>_.
                      rbind (try_extend_with_proof H curr_accumulator consistency_proof
                               (lis_ledger_info latest_li)) (\<lambda>new_accumulator.
                      Ok (TSC_Version (TS_EpochState new_waypoint curr_epoch_state new_accumulator)))))))))"

definition verify_and_ratchet ::
  "LedgerInfo sig_scheme \<Rightarrow> (Ledger2WaypointConverter \<Rightarrow> HashValue) \<Rightarrow> hasher \<Rightarrow> TrustedState
     \<Rightarrow> StateProof \<Rightarrow> InMemoryAccumulator option \<Rightarrow> (TrustedStateChange, anyhow) result" where
  "verify_and_ratchet S HW H ts state_proof initial_accumulator =
     verify_and_ratchet_inner S HW H ts (sp_latest_li_w_sigs state_proof) (sp_epoch_changes state_proof)
       (sp_consistency_proof state_proof) initial_accumulator"

fun tsc_new_state :: "TrustedStateChange \<Rightarrow> TrustedState option" where
  "tsc_new_state (TSC_Version new_state) = Some new_state"
| "tsc_new_state (TSC_Epoch new_state _) = Some new_state"
| "tsc_new_state TSC_NoChange = None"

fun is_epoch_change :: "TrustedStateChange \<Rightarrow> bool" where
  "is_epoch_change (TSC_Epoch _ _) = True"
| "is_epoch_change _ = False"

fun is_no_change :: "TrustedStateChange \<Rightarrow> bool" where
  "is_no_change TSC_NoChange = True"
| "is_no_change _ = False"

section \<open>What a successful ratchet has checked\<close>

text \<open>
  \<open>epoch_path S HW ts ls es\<close>: the ledger infos \<open>ls\<close> lead from the trusted state to the validator
  set \<open>es\<close>, the first one of them vouched for by the waypoint when the state is one.
\<close>

fun epoch_path ::
  "LedgerInfo sig_scheme \<Rightarrow> (Ledger2WaypointConverter \<Rightarrow> HashValue) \<Rightarrow> TrustedState
     \<Rightarrow> LedgerInfoWithSignatures list \<Rightarrow> EpochState \<Rightarrow> bool" where
  "epoch_path S HW (TS_EpochState _ es0 _) ls es \<longleftrightarrow> epoch_chain S es0 ls es"
| "epoch_path S HW (TS_EpochWaypoint wp) ls es \<longleftrightarrow> (\<exists>l ls' es0. ls = l # ls'
     \<and> wp_verify HW wp (lis_ledger_info l) = Ok ()
     \<and> li_next_epoch_state (lis_ledger_info l) = Some es0 \<and> epoch_chain S es0 ls' es)"

lemma ecp_verify_path:
  assumes "ecp_verify S p (ts_dyn S HW ts) = Ok l"
    and "li_next_epoch_state (lis_ledger_info l) = Some es"
  obtains ls where "epoch_path S HW ts ls es" and "ls \<noteq> []" and "last ls = l"
proof (cases ts)
  case (TS_EpochState wp es0 acc)
  with assms(1) have "ecp_verify S p (es_dyn S es0) = Ok l" by simp
  then show thesis using that assms(2) TS_EpochState by (auto elim!: ecp_verify_chain)
next
  case (TS_EpochWaypoint wp)
  let ?rest = "dropWhile (\<lambda>l. dv_is_ledger_info_stale (wp_dyn HW wp) (lis_ledger_info l))
    (ecp_ledger_info_with_sigs p)"
  from assms(1) TS_EpochWaypoint have "ecp_verify S p (wp_dyn HW wp) = Ok l" by simp
  note ok = ecp_verify_Ok [OF this]
  then obtain l1 rest where rest: "?rest = l1 # rest" by (cases ?rest) auto
  with ok(3) obtain es0 where l1: "wp_verify HW wp (lis_ledger_info l1) = Ok ()"
    "li_next_epoch_state (lis_ledger_info l1) = Some es0" "ecp_loop S (es_dyn S es0) rest = Ok ()"
    by (auto simp: wp_dyn_def)
  then obtain es' where es': "epoch_chain S es0 rest es'" by (auto simp: ecp_loop_chain)
  have "es' = es"
    using es' ok(2) rest assms(2) l1(2) epoch_chain_last [OF es'] by (cases "rest = []") auto
  with that [of ?rest] TS_EpochWaypoint l1 es' rest ok(2) show thesis by auto
qed

lemma try_extend_Ok:
  assumes "try_extend_with_proof H acc proof li = Ok acc'"
  shows "acc_version acc \<le> li_version li" and "acc_version acc' = li_version li"
    and "acc_root_hash acc' = li_transaction_accumulator_hash li"
    and "append_subtrees H acc proof (li_version li - acc_version acc) = Ok acc'"
  using assms by (auto simp: try_extend_with_proof_def verify_consistency_def Let_def)

text \<open>The accumulator of a state is at the version of its waypoint.\<close>

fun ts_wf :: "TrustedState \<Rightarrow> bool" where
  "ts_wf (TS_EpochWaypoint _) = True"
| "ts_wf (TS_EpochState wp _ acc) \<longleftrightarrow> acc_version acc = wp_version wp"

text \<open>Every state a ratchet returns commits to a ledger info \<open>l\<close> that it verified.\<close>

definition ratcheted_to ::
  "LedgerInfo sig_scheme \<Rightarrow> (Ledger2WaypointConverter \<Rightarrow> HashValue) \<Rightarrow> TrustedState \<Rightarrow> TrustedState
     \<Rightarrow> LedgerInfoWithSignatures list \<Rightarrow> LedgerInfoWithSignatures \<Rightarrow> EpochState \<Rightarrow> bool" where
  "ratcheted_to S HW ts ts' ls l es \<longleftrightarrow>
     epoch_path S HW ts ls es \<and> (es_verify S es l = Ok () \<or> (ls \<noteq> [] \<and> l = last ls))
     \<and> ts_version ts \<le> li_version (lis_ledger_info l)
     \<and> (\<exists>acc. ts' = TS_EpochState (wp_new_any HW (lis_ledger_info l)) es acc
          \<and> acc_version acc = li_version (lis_ledger_info l)
          \<and> acc_root_hash acc = li_transaction_accumulator_hash (lis_ledger_info l))"

lemma verified_ledger_info_Ok:
  assumes "verified_ledger_info S latest p ecl es = Ok l"
  shows "l = ecl \<or> (l = latest \<and> es_verify S es l = Ok ())"
  using assms by (auto simp: verified_ledger_info_def Let_def split: if_splits)

lemma epoch_change_li_version:
  assumes "ecp_verify S p (ts_dyn S HW ts) = Ok l" and "ts_wf ts"
    and "current_accumulator ts p init = Ok acc" and "acc_version acc \<le> li_version (lis_ledger_info l)"
  shows "ts_version ts \<le> li_version (lis_ledger_info l)"
proof (cases ts)
  case (TS_EpochWaypoint wp)
  with ecp_verify_Ok(4) [OF assms(1)] show ?thesis
    by (simp add: wp_dyn_def wp_is_ledger_info_stale_def ts_version_def)
next
  case (TS_EpochState wp es acc0)
  with assms(2-4) show ?thesis by (simp add: current_accumulator_def ts_version_def)
qed

lemma ratchet_epoch:
  assumes "ts_wf ts" and "ts_version ts \<le> li_version (lis_ledger_info latest)"
    and "current_accumulator ts p init = Ok acc" and "ecp_verify S p (ts_dyn S HW ts) = Ok ecl"
    and "li_next_epoch_state (lis_ledger_info ecl) = Some es"
    and "verified_ledger_info S latest p ecl es = Ok l"
    and "try_extend_with_proof H acc cp (lis_ledger_info l) = Ok acc'"
  shows "\<exists>ls. ratcheted_to S HW ts (TS_EpochState (wp_new_any HW (lis_ledger_info l)) es acc') ls l es"
proof -
  obtain ls where ls: "epoch_path S HW ts ls es" "ls \<noteq> []" "last ls = ecl"
    using ecp_verify_path [OF assms(4,5)] .
  note ext = try_extend_Ok [OF assms(7)]
  from verified_ledger_info_Ok [OF assms(6)] have "ts_version ts \<le> li_version (lis_ledger_info l)"
    using assms(2) epoch_change_li_version [OF assms(4,1,3)] ext(1) by blast
  with ls ext verified_ledger_info_Ok [OF assms(6)] show ?thesis
    unfolding ratcheted_to_def by (intro exI [of _ ls]) auto
qed

lemma ratchet_verified:
  assumes "verify_and_ratchet S HW H ts p init = Ok ch" and "tsc_new_state ch = Some ts'" and "ts_wf ts"
  obtains ls l es where "ratcheted_to S HW ts ts' ls l es"
proof (cases ch)
  case (TSC_Epoch new ecl)
  with assms(1,2) obtain acc es l acc' where
    *: "ts_version ts \<le> li_version (lis_ledger_info (sp_latest_li_w_sigs p))"
    "current_accumulator ts (sp_epoch_changes p) init = Ok acc"
    "ecp_verify S (sp_epoch_changes p) (ts_dyn S HW ts) = Ok ecl"
    "li_next_epoch_state (lis_ledger_info ecl) = Some es"
    "verified_ledger_info S (sp_latest_li_w_sigs p) (sp_epoch_changes p) ecl es = Ok l"
    "try_extend_with_proof H acc (sp_consistency_proof p) (lis_ledger_info l) = Ok acc'"
    "ts' = TS_EpochState (wp_new_any HW (lis_ledger_info l)) es acc'"
    by (auto simp: verify_and_ratchet_def verify_and_ratchet_inner_def Let_def
        split: if_splits TrustedState.splits)
  from ratchet_epoch [OF assms(3) *(1-6)] *(7) that show thesis by blast
next
  case (TSC_Version new)
  let ?l = "sp_latest_li_w_sigs p"
  from TSC_Version assms(1,2) obtain wp es acc0 acc where
    *: "ts = TS_EpochState wp es acc0" "ts_version ts \<le> li_version (lis_ledger_info ?l)"
    "es_verify S es ?l = Ok ()" "ts' = TS_EpochState (wp_new_any HW (lis_ledger_info ?l)) es acc"
    "try_extend_with_proof H acc0 (sp_consistency_proof p) (lis_ledger_info ?l) = Ok acc"
    by (auto simp: verify_and_ratchet_def verify_and_ratchet_inner_def Let_def current_accumulator_def
        split: if_splits TrustedState.splits)
  from * try_extend_Ok [OF *(5)] have "ratcheted_to S HW ts ts' [] ?l es"
    by (auto simp: ratcheted_to_def)
  then show thesis by (rule that)
qed (use assms(2) in simp)

section \<open>Clients that follow state proofs\<close>

text \<open>\<open>client_run S HW H ts ts'\<close>: the client in state \<open>ts\<close> ratchets to \<open>ts'\<close> over any number of responses.\<close>

inductive client_run ::
  "LedgerInfo sig_scheme \<Rightarrow> (Ledger2WaypointConverter \<Rightarrow> HashValue) \<Rightarrow> hasher \<Rightarrow> TrustedState \<Rightarrow> TrustedState \<Rightarrow> bool"
  for S HW H where
  run_start: "client_run S HW H ts ts"
| run_step: "client_run S HW H ts ts1 \<Longrightarrow> verify_and_ratchet S HW H ts1 p init = Ok ch \<Longrightarrow>
     tsc_new_state ch = Some ts2 \<Longrightarrow> client_run S HW H ts ts2"














lemma client_run_version:
  assumes "client_run S HW H ts ts'" and "ts_wf ts"
  shows "ts_wf ts' \<and> ts_version ts \<le> ts_version ts'"
  using assms
proof (induction rule: client_run.induct)
  case (run_step ts ts1 p init ch ts2)
  then obtain ls l es where "ratcheted_to S HW ts1 ts2 ls l es" using ratchet_verified by metis
  with run_step show ?case by (auto simp: ratcheted_to_def ts_version_def wp_new_any_def)
qed simp

section \<open>A client of the first epoch\<close>

text \<open>
  A client at version 0 of the epoch of \<open>first_epoch_proof\<close>, and the response that takes it to the
  end of this epoch at version 10. The inner nodes of its ledger all hash to 0.
\<close>

definition sample_state :: TrustedState where
  "sample_state = TS_EpochState \<lparr>wp_version = 0, wp_value = 3\<rparr> first_epoch
     \<lparr>acc_frozen_subtree_roots = [5], acc_num_leaves = 1, acc_root_hash = 5\<rparr>"

definition sample_proof :: StateProof where
  "sample_proof = \<lparr>sp_latest_li_w_sigs = hd (ecp_ledger_info_with_sigs first_epoch_proof),
     sp_epoch_changes = first_epoch_proof, sp_consistency_proof = [1, 2, 3, 4, 6]\<rparr>"

definition sample_waypoint_hash :: "Ledger2WaypointConverter \<Rightarrow> HashValue" where
  "sample_waypoint_hash c = (if c = l2w_new first_epoch_end then 1 else 0)"

definition sample_accumulator :: InMemoryAccumulator where
  "sample_accumulator = \<lparr>acc_frozen_subtree_roots = [0, 4, 6], acc_num_leaves = 11, acc_root_hash = 0\<rparr>"

definition sample_next_state :: TrustedState where
  "sample_next_state = TS_EpochState (wp_new_any sample_waypoint_hash first_epoch_end)
     \<lparr>es_epoch = 2, es_verifier = four_verifier\<rparr> sample_accumulator"

lemma sample_extend:
  "append_subtrees (\<lambda>_ _. 0) \<lparr>acc_frozen_subtree_roots = [5], acc_num_leaves = 1, acc_root_hash = 5\<rparr>
     [1, 2, 3, 4, 6] 10 = Ok sample_accumulator"
  unfolding sample_accumulator_def by code_simp

lemma first_epoch_proof_li: "lis_ledger_info (hd (ecp_ledger_info_with_sigs first_epoch_proof)) = first_epoch_end"
  by (simp add: first_epoch_proof_def)

lemma first_epoch_end_fields:
  "li_version first_epoch_end = 10" "li_transaction_accumulator_hash first_epoch_end = 0"
  "li_next_epoch_state first_epoch_end = Some \<lparr>es_epoch = 2, es_verifier = four_verifier\<rparr>"
  "li_next_block_epoch first_epoch_end = 2"
  by (simp_all add: first_epoch_end_def bi_empty_def bi_next_block_epoch_def)

lemma sample_try_extend:
  "try_extend_with_proof (\<lambda>_ _. 0) \<lparr>acc_frozen_subtree_roots = [5], acc_num_leaves = 1, acc_root_hash = 5\<rparr>
     [1, 2, 3, 4, 6] first_epoch_end = Ok sample_accumulator"
  using sample_extend first_epoch_end_fields
  by (simp add: try_extend_with_proof_def acc_version_def verify_consistency_def sample_accumulator_def)

lemma sample_ratchet:
  "verify_and_ratchet first_epoch_scheme sample_waypoint_hash (\<lambda>_ _. 0) sample_state sample_proof None =
     Ok (TSC_Epoch sample_next_state (hd (ecp_ledger_info_with_sigs first_epoch_proof)))"
  using first_epoch_verify sample_try_extend first_epoch_end_fields
  by (simp add: verify_and_ratchet_def verify_and_ratchet_inner_def sample_state_def sample_proof_def
      current_accumulator_def ts_version_def verified_ledger_info_def sample_next_state_def
      first_epoch_proof_li es_epoch_change_verification_required_def)
    (simp add: first_epoch_def)

lemma sample_client_run: "client_run first_epoch_scheme sample_waypoint_hash (\<lambda>_ _. 0) sample_state sample_next_state"
  by (rule run_step [OF run_start sample_ratchet]) simp

section \<open>Properties\<close>



text \<open>
  C25: Ratcheting never moves a trusted state back, and keeps the accumulator of the state at the
  version of its waypoint, over any number of responses and without trusting any of them.
\<close>

theorem trusted_version_advances:
  assumes "ts_wf ts" and "client_run S HW H ts ts'"
  shows "ts_wf ts' \<and> ts_version ts \<le> ts_version ts'"
  using client_run_version [OF assms(2,1)] .

theorem trusted_version_advances_witness:
  "ts_wf sample_next_state \<and> ts_version sample_state \<le> ts_version sample_next_state"
  by (rule trusted_version_advances [OF _ sample_client_run]) (simp add: sample_state_def acc_version_def)

end
