(* ===== verification/PendingVotes.thy ===== *)
theory PendingVotes
  imports ConsensusTypes
begin

text \<open>
  The aggregation of the votes of one round into certificates, \<open>src/consensus/src/pending_votes.rs\<close>.

  Certificates that come out of it verify, whatever verified votes were put in and in which order;
  and once a quorum of validators has voted for one ledger info a quorum certificate does come out,
  whatever the other validators send in between. The digest of a ledger info is a hash:
  injectivity is asked for only on the ledger infos of the votes at hand.
\<close>

section \<open>VoteReceptionResult and PendingVotes\<close>

datatype VoteReceptionResult =
    VoteAdded u64
  | DuplicateVote
  | EquivocateVote
  | NewQuorumCertificate QuorumCert
  | NewTimeoutCertificate TimeoutCertificate
  | ErrorAddingVote VerifyError
  | UnexpectedRound u64 u64

record PendingVotes =
  li_digest_to_votes :: "(HashValue, LedgerInfoWithSignatures) fmap"
  maybe_partial_tc :: "TimeoutCertificate option"
  author_to_vote :: "(Author, Vote) fmap"

definition pv_new :: PendingVotes where
  "pv_new = \<lparr>li_digest_to_votes = fmempty, maybe_partial_tc = None, author_to_vote = fmempty\<rparr>"

text \<open>
  Step 1 of \<open>insert_vote\<close>: the answer to a vote of an author who has voted already, \<open>None\<close> when the
  vote is to be stored.
\<close>

definition seen_before :: "consensus_crypto \<Rightarrow> Vote \<Rightarrow> PendingVotes \<Rightarrow> VoteReceptionResult option" where
  "seen_before C vote pv =
     (case fmlookup (author_to_vote pv) (vote_author vote) of
        Some previously_seen_vote \<Rightarrow>
          if hash_ledger_info C (vote_ledger_info vote) =
             hash_ledger_info C (vote_ledger_info previously_seen_vote)
          then if \<not> (vote_is_timeout vote \<and> \<not> vote_is_timeout previously_seen_vote)
               then Some DuplicateVote else None
          else Some EquivocateVote
      | None \<Rightarrow> None)"

text \<open>Step 4: the timeout signature joins the partial timeout certificate of the round.\<close>

definition partial_tc_with :: "Vote \<Rightarrow> Ed25519Signature \<Rightarrow> PendingVotes \<Rightarrow> TimeoutCertificate" where
  "partial_tc_with vote timeout_signature pv =
     tc_add_signature (vote_author vote) timeout_signature
       (case maybe_partial_tc pv of Some tc \<Rightarrow> tc | None \<Rightarrow> tc_new (vote_timeout vote))"

definition insert_timeout ::
  "Vote \<Rightarrow> ValidatorVerifier \<Rightarrow> u64 \<Rightarrow> PendingVotes \<Rightarrow> VoteReceptionResult \<times> PendingVotes" where
  "insert_timeout vote validator_verifier vpower pv =
     (case vote_timeout_signature vote of
        None \<Rightarrow> (VoteAdded vpower, pv)
      | Some timeout_signature \<Rightarrow>
          let partial_tc = partial_tc_with vote timeout_signature pv;
              pv' = pv\<lparr>maybe_partial_tc := Some partial_tc\<rparr>
          in (case check_voting_power validator_verifier (btree_keys (tc_signatures partial_tc)) of
                Ok _ \<Rightarrow> NewTimeoutCertificate partial_tc
              | Err (TooLittleVotingPower _ _) \<Rightarrow> VoteAdded vpower
              | Err e \<Rightarrow> ErrorAddingVote e
              | Panic \<Rightarrow> ErrorAddingVote UnknownAuthor, pv'))"

text \<open>
  The whole of \<open>insert_vote\<close>. \<open>check_voting_power\<close> does not panic (\<open>check_voting_power_returns\<close>), so
  the branches for it are never taken.
\<close>

definition li_with_sig_for :: "consensus_crypto \<Rightarrow> Vote \<Rightarrow> PendingVotes \<Rightarrow> LedgerInfoWithSignatures" where
  "li_with_sig_for C vote pv =
     lis_add_signature (vote_author vote) (vote_signature vote)
       (case fmlookup (li_digest_to_votes pv) (hash_ledger_info C (vote_ledger_info vote)) of
          Some li_with_sig \<Rightarrow> li_with_sig
        | None \<Rightarrow> \<lparr>lis_ledger_info = vote_ledger_info vote, lis_signatures = fmempty\<rparr>)"

definition pv_insert_vote ::
  "consensus_crypto \<Rightarrow> Vote \<Rightarrow> ValidatorVerifier \<Rightarrow> PendingVotes \<Rightarrow> VoteReceptionResult \<times> PendingVotes" where
  "pv_insert_vote C vote validator_verifier pv =
     (case seen_before C vote pv of
        Some r \<Rightarrow> (r, pv)
      | None \<Rightarrow>
          let li_digest = hash_ledger_info C (vote_ledger_info vote);
              li_with_sig = li_with_sig_for C vote pv;
              pv' = pv\<lparr>author_to_vote := fmupd (vote_author vote) vote (author_to_vote pv),
                       li_digest_to_votes := fmupd li_digest li_with_sig (li_digest_to_votes pv)\<rparr>
          in case check_voting_power validator_verifier (btree_keys (lis_signatures li_with_sig)) of
               Ok _ \<Rightarrow> (NewQuorumCertificate \<lparr>qc_vote_data = vote_vote_data vote,
                                              qc_signed_ledger_info = li_with_sig\<rparr>, pv')
             | Err (TooLittleVotingPower vpower _) \<Rightarrow>
                 insert_timeout vote validator_verifier vpower pv'
             | Err e \<Rightarrow> (ErrorAddingVote e, pv')
             | Panic \<Rightarrow> (ErrorAddingVote UnknownAuthor, pv'))"

lemma check_voting_power_returns: "check_voting_power vv authors \<noteq> Panic"
proof -
  have "rfold (add_voting_power vv) acc authors \<noteq> Panic" for acc
    by (induction authors arbitrary: acc) (auto simp: add_voting_power_def split: option.splits)
  from this [of 0] show ?thesis
    by (cases "rfold (add_voting_power vv) 0 authors") (auto simp: check_voting_power_unfold)
qed

section \<open>Votes of a round\<close>

text \<open>Inserting a sequence of votes: the answers in order and the final state.\<close>

fun insert_votes ::
  "consensus_crypto \<Rightarrow> ValidatorVerifier \<Rightarrow> Vote list \<Rightarrow> PendingVotes \<Rightarrow> VoteReceptionResult list \<times> PendingVotes" where
  "insert_votes C vv [] pv = ([], pv)"
| "insert_votes C vv (v # vs) pv =
     (let (r, pv1) = pv_insert_vote C v vv pv; (rs, pv2) = insert_votes C vv vs pv1 in (r # rs, pv2))"

text \<open>What the receiver has checked of a vote before it reaches the pending votes of a round.\<close>

definition round_vote :: "consensus_crypto \<Rightarrow> ValidatorVerifier \<Rightarrow> u64 \<Rightarrow> Round \<Rightarrow> Vote \<Rightarrow> bool" where
  "round_vote C vv e r v \<longleftrightarrow> vote_verify C v vv = Ok () \<and> vote_epoch v = e
     \<and> bi_round (vd_proposed (vote_vote_data v)) = r"

text \<open>
  The invariant, over the set \<open>V\<close> of the votes inserted so far: every author who has voted is
  counted for the ledger info of the vote, and every stored signature is one of a vote in \<open>V\<close>.
\<close>

definition counted :: "consensus_crypto \<Rightarrow> Vote set \<Rightarrow> PendingVotes \<Rightarrow> bool" where
  "counted C V pv \<longleftrightarrow> (\<forall>a v. fmlookup (author_to_vote pv) a = Some v \<longrightarrow> v \<in> V \<and> vote_author v = a \<and>
     (\<exists>l. fmlookup (li_digest_to_votes pv) (hash_ledger_info C (vote_ledger_info v)) = Some l
        \<and> a |\<in>| fmdom (lis_signatures l)))"

definition li_signed_by :: "Vote set \<Rightarrow> LedgerInfoWithSignatures \<Rightarrow> bool" where
  "li_signed_by V l \<longleftrightarrow> (\<forall>a sg. fmlookup (lis_signatures l) a = Some sg \<longrightarrow>
     (\<exists>v \<in> V. vote_author v = a \<and> vote_ledger_info v = lis_ledger_info l \<and> vote_signature v = sg))"

definition lis_from :: "consensus_crypto \<Rightarrow> Vote set \<Rightarrow> PendingVotes \<Rightarrow> bool" where
  "lis_from C V pv \<longleftrightarrow> (\<forall>d l. fmlookup (li_digest_to_votes pv) d = Some l \<longrightarrow>
     d = hash_ledger_info C (lis_ledger_info l) \<and> lis_ledger_info l \<in> vote_ledger_info ` V \<and> li_signed_by V l)"

definition tc_signed_by :: "Timeout \<Rightarrow> Vote set \<Rightarrow> TimeoutCertificate \<Rightarrow> bool" where
  "tc_signed_by t V tc \<longleftrightarrow> tc_timeout tc = t \<and> (\<forall>a sg. fmlookup (tc_signatures tc) a = Some sg \<longrightarrow>
     (\<exists>v \<in> V. vote_author v = a \<and> vote_timeout_signature v = Some sg))"

definition pv_inv :: "consensus_crypto \<Rightarrow> Timeout \<Rightarrow> Vote set \<Rightarrow> PendingVotes \<Rightarrow> bool" where
  "pv_inv C t V pv \<longleftrightarrow> counted C V pv \<and> lis_from C V pv
     \<and> (\<forall>tc. maybe_partial_tc pv = Some tc \<longrightarrow> tc_signed_by t V tc)"

lemma pv_inv_new: "pv_inv C t V pv_new"
  by (simp add: pv_inv_def pv_new_def counted_def lis_from_def)

lemma signed_by_mono:
  "li_signed_by V l \<Longrightarrow> V \<subseteq> W \<Longrightarrow> li_signed_by W l"
  "tc_signed_by t V tc \<Longrightarrow> V \<subseteq> W \<Longrightarrow> tc_signed_by t W tc"
  unfolding li_signed_by_def tc_signed_by_def by blast+

lemma pv_inv_mono:
  assumes "pv_inv C t V pv" and "V \<subseteq> W"
  shows "pv_inv C t W pv"
proof -
  have "counted C W pv" using assms unfolding pv_inv_def counted_def by blast
  moreover have "lis_from C W pv"
    using assms signed_by_mono(1) [OF _ assms(2)] unfolding pv_inv_def lis_from_def by blast
  ultimately show ?thesis using assms signed_by_mono(2) [OF _ assms(2)] by (auto simp: pv_inv_def)
qed

text \<open>The state after a vote that is stored: only the partial timeout certificate depends on the answer.\<close>

definition stored :: "consensus_crypto \<Rightarrow> Vote \<Rightarrow> PendingVotes \<Rightarrow> PendingVotes" where
  "stored C v pv = pv\<lparr>author_to_vote := fmupd (vote_author v) v (author_to_vote pv),
     li_digest_to_votes := fmupd (hash_ledger_info C (vote_ledger_info v)) (li_with_sig_for C v pv)
       (li_digest_to_votes pv)\<rparr>"

lemma insert_vote_cases:
  assumes "pv_insert_vote C v vv pv = (r, pv')"
  obtains (seen) "seen_before C v pv = Some r" "pv' = pv"
  | (qc) "seen_before C v pv = None" "pv' = stored C v pv"
      "check_voting_power vv (btree_keys (lis_signatures (li_with_sig_for C v pv))) = Ok ()"
      "r = NewQuorumCertificate \<lparr>qc_vote_data = vote_vote_data v, qc_signed_ledger_info = li_with_sig_for C v pv\<rparr>"
  | (err) e where "seen_before C v pv = None" "pv' = stored C v pv" "r = ErrorAddingVote e"
      "check_voting_power vv (btree_keys (lis_signatures (li_with_sig_for C v pv))) = Err e"
  | (added) p q where "seen_before C v pv = None"
      "check_voting_power vv (btree_keys (lis_signatures (li_with_sig_for C v pv))) = Err (TooLittleVotingPower p q)"
      "insert_timeout v vv p (stored C v pv) = (r, pv')"
proof (cases "seen_before C v pv")
  case None
  let ?c = "check_voting_power vv (btree_keys (lis_signatures (li_with_sig_for C v pv)))"
  note def = assms [unfolded pv_insert_vote_def Let_def None option.case, folded stored_def]
  show thesis
  proof (cases ?c)
    case (Ok u)
    with qc None def show thesis by simp
  next
    case (Err e)
    with err added None def show thesis by (cases e) auto
  qed (use check_voting_power_returns in blast)
qed (use seen assms in \<open>auto simp: pv_insert_vote_def\<close>)

lemma insert_timeout_cases:
  assumes "insert_timeout v vv p pv = (r, pv')"
  obtains (plain) "vote_timeout_signature v = None" "r = VoteAdded p" "pv' = pv"
  | (timeout) sg where "vote_timeout_signature v = Some sg"
      "pv' = pv\<lparr>maybe_partial_tc := Some (partial_tc_with v sg pv)\<rparr>"
      "(r = NewTimeoutCertificate (partial_tc_with v sg pv)
          \<and> check_voting_power vv (btree_keys (tc_signatures (partial_tc_with v sg pv))) = Ok ())
        \<or> r = VoteAdded p \<or> (\<exists>e. r = ErrorAddingVote e)"
proof (cases "vote_timeout_signature v")
  case (Some sg)
  let ?tc = "partial_tc_with v sg pv"
  let ?c = "check_voting_power vv (btree_keys (tc_signatures ?tc))"
  note def = assms [unfolded insert_timeout_def Let_def Some option.case]
  have "(r = NewTimeoutCertificate ?tc \<and> ?c = Ok ()) \<or> r = VoteAdded p \<or> (\<exists>e. r = ErrorAddingVote e)"
    using def by (cases ?c) (auto split: VerifyError.splits)
  with timeout [OF Some] def show thesis by simp
qed (use plain assms in \<open>auto simp: insert_timeout_def\<close>)

section \<open>The invariant is kept\<close>

lemma li_with_sig_for_li:
  assumes "lis_from C V pv" and "inj_on (hash_ledger_info C) (vote_ledger_info ` insert v V)"
  shows "lis_ledger_info (li_with_sig_for C v pv) = vote_ledger_info v"
proof (cases "fmlookup (li_digest_to_votes pv) (hash_ledger_info C (vote_ledger_info v))")
  case (Some l)
  with assms have "hash_ledger_info C (vote_ledger_info v) = hash_ledger_info C (lis_ledger_info l)"
    "lis_ledger_info l \<in> vote_ledger_info ` insert v V" by (auto simp: lis_from_def)
  with inj_onD [OF assms(2)] Some show ?thesis by (auto simp: li_with_sig_for_def)
qed (simp add: li_with_sig_for_def)

lemma li_with_sig_for_signed:
  assumes "lis_from C V pv" and "inj_on (hash_ledger_info C) (vote_ledger_info ` insert v V)"
  shows "li_signed_by (insert v V) (li_with_sig_for C v pv)"
proof (cases "fmlookup (li_digest_to_votes pv) (hash_ledger_info C (vote_ledger_info v))")
  case (Some l)
  with assms(1) have "li_signed_by V l" by (simp add: lis_from_def)
  with Some li_with_sig_for_li [OF assms] show ?thesis
    by (auto simp: li_with_sig_for_def li_signed_by_def split: if_splits option.splits)
qed (auto simp: li_with_sig_for_def li_signed_by_def)

lemma stored_inv:
  assumes inv: "pv_inv C t V pv" and inj: "inj_on (hash_ledger_info C) (vote_ledger_info ` insert v V)"
    and seen: "seen_before C v pv = None"
  shows "pv_inv C t (insert v V) (stored C v pv)"
proof -
  let ?d = "hash_ledger_info C (vote_ledger_info v)"
  from inv have c: "counted C V pv" and l: "lis_from C V pv" by (simp_all add: pv_inv_def)
  have "counted C (insert v V) (stored C v pv)"
    unfolding counted_def
  proof (intro allI impI)
    fix a w assume w: "fmlookup (author_to_vote (stored C v pv)) a = Some w"
    show "w \<in> insert v V \<and> vote_author w = a \<and>
       (\<exists>l. fmlookup (li_digest_to_votes (stored C v pv)) (hash_ledger_info C (vote_ledger_info w)) = Some l
          \<and> a |\<in>| fmdom (lis_signatures l))"
    proof (cases "a = vote_author v")
      case True
      with w show ?thesis by (simp add: stored_def li_with_sig_for_def)
    next
      case False
      with w have "fmlookup (author_to_vote pv) a = Some w" by (simp add: stored_def)
      with c obtain l where "w \<in> V" "vote_author w = a" "a |\<in>| fmdom (lis_signatures l)"
        "fmlookup (li_digest_to_votes pv) (hash_ledger_info C (vote_ledger_info w)) = Some l"
        unfolding counted_def by blast
      then show ?thesis by (auto simp: stored_def li_with_sig_for_def)
    qed
  qed
  moreover have "lis_from C (insert v V) (stored C v pv)"
    unfolding lis_from_def
  proof (intro allI impI)
    fix d k assume k: "fmlookup (li_digest_to_votes (stored C v pv)) d = Some k"
    show "d = hash_ledger_info C (lis_ledger_info k) \<and> lis_ledger_info k \<in> vote_ledger_info ` insert v V
        \<and> li_signed_by (insert v V) k"
    proof (cases "d = ?d")
      case True
      with k li_with_sig_for_li [OF l inj] li_with_sig_for_signed [OF l inj] show ?thesis
        by (auto simp: stored_def)
    next
      case False
      with k l signed_by_mono(1) [of V k "insert v V"] show ?thesis by (auto simp: stored_def lis_from_def)
    qed
  qed
  ultimately show ?thesis
    using inv unfolding pv_inv_def by (auto simp: stored_def intro: signed_by_mono(2))
qed

lemma insert_vote_inv:
  assumes inv: "pv_inv C t V pv" and inj: "inj_on (hash_ledger_info C) (vote_ledger_info ` insert v V)"
    and "vote_timeout v = t" and "pv_insert_vote C v vv pv = (r, pv')"
  shows "pv_inv C t (insert v V) pv'"
  using assms(4)
proof (cases rule: insert_vote_cases)
  case (added p q)
  note s = stored_inv [OF inv inj added(1)]
  from added(3) show ?thesis
  proof (cases rule: insert_timeout_cases)
    case (timeout sg)
    have "tc_signed_by t (insert v V) (partial_tc_with v sg (stored C v pv))"
      using s timeout(1) assms(3)
      by (auto simp: pv_inv_def tc_signed_by_def partial_tc_with_def tc_add_signature_def tc_new_def
          split: option.splits if_splits)
    with s timeout(2) show ?thesis by (simp add: pv_inv_def counted_def lis_from_def)
  qed (use s in simp)
qed (use pv_inv_mono [OF inv] stored_inv [OF inv inj] in auto)

lemma insert_votes_append:
  "insert_votes C vv (us @ vs) pv =
     (let (rs, pv1) = insert_votes C vv us pv; (rs', pv2) = insert_votes C vv vs pv1 in (rs @ rs', pv2))"
  by (induction us arbitrary: pv) (simp_all add: Let_def split: prod.split)

lemma round_vote_timeout:
  "round_vote C vv e r v \<Longrightarrow> vote_timeout v = \<lparr>to_epoch = e, to_round = r\<rparr>"
  by (simp add: round_vote_def vote_timeout_def vote_epoch_def)

lemma insert_votes_inv:
  assumes "insert_votes C vv vs pv = (rs, pv')" and "pv_inv C t V pv"
    and "inj_on (hash_ledger_info C) (vote_ledger_info ` (V \<union> set vs))"
    and "\<forall>v \<in> set vs. vote_timeout v = t"
  shows "pv_inv C t (V \<union> set vs) pv'"
  using assms
proof (induction vs arbitrary: V pv rs)
  case (Cons v vs)
  obtain r pv1 where 1: "pv_insert_vote C v vv pv = (r, pv1)" by (cases "pv_insert_vote C v vv pv")
  with Cons.prems(1) obtain rs' where 2: "insert_votes C vv vs pv1 = (rs', pv')"
    by (auto simp: Let_def split: prod.splits)
  have "inj_on (hash_ledger_info C) (vote_ledger_info ` insert v V)"
    by (rule inj_on_subset [OF Cons.prems(3)]) auto
  from insert_vote_inv [OF Cons.prems(2) this _ 1] Cons.prems(4) have "pv_inv C t (insert v V) pv1" by simp
  from Cons.IH [OF 2 this] Cons.prems(3,4) show ?case by simp
qed simp

section \<open>Certificates\<close>

lemma round_vote_facts:
  assumes "round_vote C vv e r v"
  shows "r \<noteq> 0" and "li_consensus_data_hash (vote_ledger_info v) = hash_vote_data C (vote_vote_data v)"
    and "vd_verify (vote_vote_data v) = Ok ()" and "vote_author v \<in> validators vv"
    and "\<exists>pk. get_public_key vv (vote_author v) = Some pk
      \<and> verify_struct_signature (cc_ledger_info C) pk (vote_ledger_info v) (vote_signature v)"
    and "vote_timeout_signature v = Some sg \<Longrightarrow> \<exists>pk. get_public_key vv (vote_author v) = Some pk
      \<and> verify_struct_signature (cc_timeout C) pk \<lparr>to_epoch = e, to_round = r\<rparr> sg"
proof -
  from assms have v: "vote_verify C v vv = Ok ()" and r: "bi_round (vd_proposed (vote_vote_data v)) = r"
    by (simp_all add: round_vote_def)
  show d: "vd_verify (vote_vote_data v) = Ok ()" using v by (auto simp: vote_verify_def)
  then show "r \<noteq> 0" using r by (auto simp: vd_verify_def)
  show "li_consensus_data_hash (vote_ledger_info v) = hash_vote_data C (vote_vote_data v)"
    using v by (auto simp: vote_verify_def)
  show pk: "\<exists>pk. get_public_key vv (vote_author v) = Some pk
      \<and> verify_struct_signature (cc_ledger_info C) pk (vote_ledger_info v) (vote_signature v)"
    using v by (auto simp: vote_verify_def)
  then show "vote_author v \<in> validators vv" by (auto simp: get_public_key_def validators_def fmlookup_dom_iff)
  show "vote_timeout_signature v = Some sg \<Longrightarrow> \<exists>pk. get_public_key vv (vote_author v) = Some pk
      \<and> verify_struct_signature (cc_timeout C) pk \<lparr>to_epoch = e, to_round = r\<rparr> sg"
    using v round_vote_timeout [OF assms] by (auto simp: vote_verify_def)
qed

lemma li_signed_by_quorum:
  assumes "li_signed_by V l" and "\<forall>v \<in> V. round_vote C vv e r v" and "vv_valid vv"
    and "check_voting_power vv (btree_keys (lis_signatures l)) = Ok ()"
  shows "quorum_signed (cc_ledger_info C) vv (lis_ledger_info l) (lis_signatures l)"
  unfolding quorum_signed_def
proof (intro conjI allI impI)
  show "vq.quorum vv (fset (fmdom (lis_signatures l)))"
    using check_voting_power_quorum [OF assms(3), of "btree_keys (lis_signatures l)"] assms(4) by simp
  fix a sg assume "fmlookup (lis_signatures l) a = Some sg"
  with assms(1,2) round_vote_facts(5) show "\<exists>pk. get_public_key vv a = Some pk \<and>
      verify_struct_signature (cc_ledger_info C) pk (lis_ledger_info l) sg"
    unfolding li_signed_by_def by metis
qed

lemma tc_signed_by_quorum:
  assumes "tc_signed_by \<lparr>to_epoch = e, to_round = r\<rparr> V tc" and "\<forall>v \<in> V. round_vote C vv e r v" and "vv_valid vv"
    and "check_voting_power vv (btree_keys (tc_signatures tc)) = Ok ()"
  shows "quorum_signed (cc_timeout C) vv (tc_timeout tc) (tc_signatures tc)"
  unfolding quorum_signed_def
proof (intro conjI allI impI)
  show "vq.quorum vv (fset (fmdom (tc_signatures tc)))"
    using check_voting_power_quorum [OF assms(3), of "btree_keys (tc_signatures tc)"] assms(4) by simp
  fix a sg assume "fmlookup (tc_signatures tc) a = Some sg"
  with assms(1,2) round_vote_facts(6) show "\<exists>pk. get_public_key vv a = Some pk \<and>
      verify_struct_signature (cc_timeout C) pk (tc_timeout tc) sg"
    unfolding tc_signed_by_def by metis
qed

text \<open>A certificate for round \<open>r\<close> of epoch \<open>e\<close> that its receivers will accept.\<close>

fun good_certificate ::
  "consensus_crypto \<Rightarrow> ValidatorVerifier \<Rightarrow> u64 \<Rightarrow> Round \<Rightarrow> VoteReceptionResult \<Rightarrow> bool" where
  "good_certificate C vv e r (NewQuorumCertificate qc) \<longleftrightarrow> qc_verify C qc vv = Ok ()
     \<and> bi_epoch (qc_certified_block qc) = e \<and> bi_round (qc_certified_block qc) = r"
| "good_certificate C vv e r (NewTimeoutCertificate tc) \<longleftrightarrow> tc_verify C tc vv = Ok ()
     \<and> tc_timeout tc = \<lparr>to_epoch = e, to_round = r\<rparr>"
| "good_certificate C vv e r _ \<longleftrightarrow> True"

lemma insert_vote_certificate:
  assumes "pv_inv C \<lparr>to_epoch = e, to_round = r\<rparr> V pv"
    and "inj_on (hash_ledger_info C) (vote_ledger_info ` insert v V)"
    and votes: "\<forall>w \<in> insert v V. round_vote C vv e r w" and "vv_valid vv" and "batch_sound (cc_ledger_info C)"
    and ins: "pv_insert_vote C v vv pv = (res, pv')"
  shows "good_certificate C vv e r res"
  using ins
proof (cases rule: insert_vote_cases)
  case seen
  then show ?thesis by (auto simp: seen_before_def split: option.splits if_splits)
next
  case qc
  from assms(1) have l: "lis_from C V pv" by (simp add: pv_inv_def)
  note li = li_with_sig_for_li [OF l assms(2)]
  from li_signed_by_quorum [OF li_with_sig_for_signed [OF l assms(2)] votes assms(4) qc(3)]
  have "lis_verify_signatures (cc_ledger_info C) (li_with_sig_for C v pv) vv = Ok ()"
    using batch_verify_iff [OF assms(4,5)] by (simp add: lis_verify_signatures_def)
  with qc(4) li round_vote_facts [of C vv e r v] votes show ?thesis
    by (auto simp: qc_verify_def qc_ledger_info_def qc_certified_block_def round_vote_def vote_epoch_def)
next
  case (added p q)
  from insert_vote_inv [OF assms(1,2) _ ins] votes round_vote_timeout
  have inv: "pv_inv C \<lparr>to_epoch = e, to_round = r\<rparr> (insert v V) pv'" by blast
  from added(3) show ?thesis
  proof (cases rule: insert_timeout_cases)
    case (timeout sg)
    with inv have s: "tc_signed_by \<lparr>to_epoch = e, to_round = r\<rparr> (insert v V) (partial_tc_with v sg (stored C v pv))"
      by (simp add: pv_inv_def)
    with tc_signed_by_quorum [OF s votes assms(4)] timeout(3) show ?thesis
      by (auto simp: tc_verify_def tc_signed_by_def verify_aggregated_iff [OF assms(4)])
  qed simp
qed simp

section \<open>Progress\<close>

lemma quorum_mono:
  assumes "vq.quorum vv A" and "A \<subseteq> B" and "B \<subseteq> validators vv"
  shows "vq.quorum vv B"
proof -
  have "voting_power vv A \<le> voting_power vv B"
    using assms(2,3) by (intro voting_power_mono) (auto intro: finite_subset [OF _ finite_validators])
  with assms show ?thesis by (simp add: quorum_iff)
qed

lemma insert_vote_authors:
  assumes "pv_insert_vote C v vv pv = (r, pv')"
  shows "fmdom (author_to_vote pv') = finsert (vote_author v) (fmdom (author_to_vote pv))"
  using assms
proof (cases rule: insert_vote_cases)
  case seen
  then show ?thesis by (auto simp: seen_before_def fmlookup_dom_iff split: option.splits)
next
  case (added p q)
  from added(3) show ?thesis by (cases rule: insert_timeout_cases) (simp_all add: stored_def)
qed (simp_all add: stored_def)

lemma insert_votes_authors:
  assumes "insert_votes C vv vs pv = (rs, pv')"
  shows "fset (fmdom (author_to_vote pv')) = fset (fmdom (author_to_vote pv)) \<union> vote_author ` set vs"
  using assms
proof (induction vs arbitrary: pv rs)
  case (Cons v vs)
  obtain r1 pv1 where 1: "pv_insert_vote C v vv pv = (r1, pv1)" by (cases "pv_insert_vote C v vv pv")
  with Cons.prems obtain rs' where 2: "insert_votes C vv vs pv1 = (rs', pv')"
    by (auto simp: Let_def split: prod.splits)
  from Cons.IH [OF 2] insert_vote_authors [OF 1] show ?case by auto
qed simp

text \<open>The vote that brings in the last author of \<open>A\<close>.\<close>

lemma split_last_author:
  assumes "A \<subseteq> f ` set vs" and "A \<noteq> {}"
  shows "\<exists>us v ws. vs = us @ v # ws \<and> f v \<in> A \<and> f v \<notin> f ` set us \<and> A \<subseteq> f ` set (us @ [v])"
  using assms(1)
proof (induction vs rule: rev_induct)
  case (snoc x xs)
  show ?case
  proof (cases "A \<subseteq> f ` set xs")
    case True
    with snoc.IH show ?thesis by (metis append.assoc append_Cons)
  next
    case False
    with snoc.prems show ?thesis by (intro exI [of _ xs] exI [of _ x] exI [of _ "[]"]) auto
  qed
qed (use assms(2) in simp)

lemma vote_completes_quorum:
  assumes inv: "pv_inv C \<lparr>to_epoch = e, to_round = r\<rparr> V pv"
    and inj: "inj_on (hash_ledger_info C) (vote_ledger_info ` insert v V)"
    and votes: "\<forall>w \<in> insert v V. round_vote C vv e r w" and "vv_valid vv"
    and A: "vq.quorum vv A" "A \<subseteq> insert (vote_author v) (fset (fmdom (author_to_vote pv)))"
    and new: "vote_author v |\<notin>| fmdom (author_to_vote pv)" and m: "vote_ledger_info v = m"
    and same: "\<forall>w \<in> V. vote_author w \<in> A \<longrightarrow> vote_ledger_info w = m"
  shows "\<exists>qc pv'. pv_insert_vote C v vv pv = (NewQuorumCertificate qc, pv')
    \<and> lis_ledger_info (qc_signed_ledger_info qc) = m"
proof -
  let ?l = "li_with_sig_for C v pv"
  from inv have l: "lis_from C V pv" and c: "counted C V pv" by (simp_all add: pv_inv_def)
  have seen: "seen_before C v pv = None" using new by (auto simp: seen_before_def fmlookup_dom_iff split: option.split)
  have "A \<subseteq> fset (fmdom (lis_signatures ?l))"
  proof
    fix a assume a: "a \<in> A"
    show "a \<in> fset (fmdom (lis_signatures ?l))"
    proof (cases "a = vote_author v")
      case False
      with a A(2) obtain w where w: "fmlookup (author_to_vote pv) a = Some w" by (auto simp: fmlookup_dom_iff)
      with c same a obtain k where "vote_ledger_info w = m" "a |\<in>| fmdom (lis_signatures k)"
        "fmlookup (li_digest_to_votes pv) (hash_ledger_info C (vote_ledger_info w)) = Some k"
        unfolding counted_def by blast
      then show ?thesis using m by (simp add: li_with_sig_for_def)
    qed (simp add: li_with_sig_for_def)
  qed
  moreover have "fset (fmdom (lis_signatures ?l)) \<subseteq> validators vv"
  proof
    fix a assume "a \<in> fset (fmdom (lis_signatures ?l))"
    then obtain sg where "fmlookup (lis_signatures ?l) a = Some sg" by (auto simp: fmlookup_dom_iff)
    with li_with_sig_for_signed [OF l inj] obtain w where "w \<in> insert v V" "vote_author w = a"
      unfolding li_signed_by_def by blast
    with votes round_vote_facts(4) show "a \<in> validators vv" by blast
  qed
  ultimately have "vq.quorum vv (set (btree_keys (lis_signatures ?l)))" using quorum_mono [OF A(1)] by simp
  with check_voting_power_quorum [OF assms(4), of "btree_keys (lis_signatures ?l)"]
  have "check_voting_power vv (btree_keys (lis_signatures ?l)) = Ok ()" by simp
  with seen li_with_sig_for_li [OF l inj] m show ?thesis by (simp add: pv_insert_vote_def Let_def)
qed

section \<open>One ledger info per author\<close>

definition one_li_each :: "consensus_crypto \<Rightarrow> PendingVotes \<Rightarrow> bool" where
  "one_li_each C pv \<longleftrightarrow> (\<forall>d l a. fmlookup (li_digest_to_votes pv) d = Some l \<longrightarrow> a |\<in>| fmdom (lis_signatures l) \<longrightarrow>
     (\<exists>v. fmlookup (author_to_vote pv) a = Some v \<and> hash_ledger_info C (vote_ledger_info v) = d))"

lemma stored_one_li_each:
  assumes "one_li_each C pv" and "seen_before C v pv = None"
  shows "one_li_each C (stored C v pv)"
  unfolding one_li_each_def
proof (intro allI impI)
  let ?d = "hash_ledger_info C (vote_ledger_info v)"
  fix d l a
  assume l: "fmlookup (li_digest_to_votes (stored C v pv)) d = Some l" and a: "a |\<in>| fmdom (lis_signatures l)"
  show "\<exists>w. fmlookup (author_to_vote (stored C v pv)) a = Some w \<and> hash_ledger_info C (vote_ledger_info w) = d"
  proof (cases "a = vote_author v")
    case True
    show ?thesis
    proof (cases "d = ?d")
      case False
      with l have "fmlookup (li_digest_to_votes pv) d = Some l" by (simp add: stored_def)
      with assms(1) a True obtain w where "fmlookup (author_to_vote pv) (vote_author v) = Some w"
        "hash_ledger_info C (vote_ledger_info w) = d" unfolding one_li_each_def by blast
      with assms(2) False show ?thesis by (auto simp: seen_before_def split: if_splits)
    qed (simp add: True stored_def)
  next
    case False
    have "\<exists>k. fmlookup (li_digest_to_votes pv) d = Some k \<and> a |\<in>| fmdom (lis_signatures k)"
      using l a False by (auto simp: stored_def li_with_sig_for_def split: if_splits option.splits)
    with assms(1) False show ?thesis unfolding one_li_each_def stored_def by auto
  qed
qed

lemma insert_vote_one_li_each:
  assumes "one_li_each C pv" and "pv_insert_vote C v vv pv = (r, pv')"
  shows "one_li_each C pv'"
  using assms(2)
proof (cases rule: insert_vote_cases)
  case (added p q)
  note s = stored_one_li_each [OF assms(1) added(1)]
  from added(3) show ?thesis
    by (cases rule: insert_timeout_cases) (use s in \<open>simp_all add: one_li_each_def\<close>)
qed (use assms(1) stored_one_li_each in auto)

lemma insert_votes_one_li_each:
  assumes "one_li_each C pv" and "insert_votes C vv vs pv = (rs, pv')"
  shows "one_li_each C pv'"
  using assms
proof (induction vs arbitrary: pv rs)
  case (Cons v vs)
  obtain r1 pv1 where 1: "pv_insert_vote C v vv pv = (r1, pv1)" by (cases "pv_insert_vote C v vv pv")
  with Cons.prems(2) obtain rs' where "insert_votes C vv vs pv1 = (rs', pv')"
    by (auto simp: Let_def split: prod.splits)
  with Cons.IH insert_vote_one_li_each [OF Cons.prems(1) 1] show ?case by blast
qed simp

section \<open>Properties\<close>

text \<open>Three of the four validators vote for one block of round 1, the last one with a timeout.\<close>

definition sample_vote_crypto :: consensus_crypto where
  "sample_vote_crypto = \<lparr>cc_ledger_info = key_scheme (\<lambda>_. True), cc_block_data = key_scheme (\<lambda>_. True),
     cc_timeout = key_scheme (\<lambda>_. True), cc_timeout_repr = key_scheme (\<lambda>_. True),
     cc_vote_proposal = key_scheme (\<lambda>_. True), hash_vote_data = (\<lambda>_. 7), hash_block_data = (\<lambda>_. 0),
     hash_ledger_info = (\<lambda>_. 8), hash_node = (\<lambda>_ _. 0), hash_waypoint = (\<lambda>_. 0), public_key_of = (\<lambda>k. k)\<rparr>"

definition sample_vote :: "Author \<Rightarrow> Ed25519Signature option \<Rightarrow> Vote" where
  "sample_vote a timeout = \<lparr>vote_vote_data = \<lparr>vd_proposed = bi_empty\<lparr>bi_epoch := 1, bi_round := 1\<rparr>,
       vd_parent = bi_empty\<lparr>bi_epoch := 1\<rparr>\<rparr>, vote_author = a,
     vote_ledger_info = \<lparr>li_commit_info = bi_empty, li_consensus_data_hash = 7\<rparr>,
     vote_signature = ucast a + 10, vote_timeout_signature = timeout\<rparr>"

definition sample_votes :: "Vote list" where
  "sample_votes = [sample_vote 1 None, sample_vote 3 None, sample_vote 2 (Some 12)]"

lemma sample_votes_valid: "\<forall>v \<in> set sample_votes. round_vote sample_vote_crypto four_verifier 1 1 v"
  by (simp add: sample_votes_def round_vote_def vote_verify_def sample_vote_def sample_vote_crypto_def
      vv_verify_def four_defs vd_verify_def bi_empty_def vote_epoch_def vote_timeout_def)

lemma sample_votes_li:
  "vote_ledger_info ` set sample_votes = {\<lparr>li_commit_info = bi_empty, li_consensus_data_hash = 7\<rparr>}"
  "vote_author ` set sample_votes = {1, 2, 3}"
  by (auto simp: sample_votes_def sample_vote_def)

definition sample_qc :: QuorumCert where
  "sample_qc = \<lparr>qc_vote_data = vote_vote_data (sample_vote 2 None), qc_signed_ledger_info =
     \<lparr>lis_ledger_info = vote_ledger_info (sample_vote 2 None),
      lis_signatures = fmupd 2 12 (fmupd 3 13 (fmupd 1 11 fmempty))\<rparr>\<rparr>"

lemma sample_votes_results:
  "fst (insert_votes sample_vote_crypto four_verifier sample_votes pv_new) =
     [VoteAdded 1, VoteAdded 2, NewQuorumCertificate sample_qc]"
  by (simp add: sample_votes_def pv_insert_vote_def seen_before_def pv_new_def sample_vote_crypto_def
      li_with_sig_for_def insert_timeout_def sample_vote_def sample_qc_def Let_def four_defs
      lis_add_signature_def or_insert_def)

text \<open>
  C26: A quorum of votes makes a certificate. Once validators holding a quorum of the voting power
  have voted for one ledger info, some insertion has returned a quorum certificate for it, whatever
  verified votes the other validators sent before, between and after.
\<close>

theorem quorum_of_votes_is_certified:
  assumes "vv_valid vv" and "\<forall>v \<in> set vs. round_vote C vv e r v"
    and "inj_on (hash_ledger_info C) (vote_ledger_info ` set vs)"
    and "vq.quorum vv A" and "A \<subseteq> vote_author ` set vs"
    and "\<forall>v \<in> set vs. vote_author v \<in> A \<longrightarrow> vote_ledger_info v = m"
  shows "\<exists>qc. NewQuorumCertificate qc \<in> set (fst (insert_votes C vv vs pv_new))
    \<and> lis_ledger_info (qc_signed_ledger_info qc) = m"
proof -
  have "A \<noteq> {}" using assms(1,4) vv_valid_total(2) by (auto simp: quorum_iff voting_power_def)
  with split_last_author [OF assms(5)] obtain us v ws where vs: "vs = us @ v # ws"
    and v: "vote_author v \<in> A" "vote_author v \<notin> vote_author ` set us" "A \<subseteq> vote_author ` set (us @ [v])"
    by blast
  obtain rs pv where i: "insert_votes C vv us pv_new = (rs, pv)" by (cases "insert_votes C vv us pv_new")
  have inj: "inj_on (hash_ledger_info C) (vote_ledger_info ` insert v (set us))"
    by (rule inj_on_subset [OF assms(3)]) (auto simp: vs)
  have inv: "pv_inv C \<lparr>to_epoch = e, to_round = r\<rparr> (set us) pv"
    using insert_votes_inv [OF i pv_inv_new [where V = "{}"]] inj_on_subset [OF inj] assms(2) round_vote_timeout vs
    by fastforce
  have auth: "fset (fmdom (author_to_vote pv)) = vote_author ` set us"
    using insert_votes_authors [OF i] by (simp add: pv_new_def)
  have "\<exists>qc pv'. pv_insert_vote C v vv pv = (NewQuorumCertificate qc, pv')
      \<and> lis_ledger_info (qc_signed_ledger_info qc) = m"
    by (rule vote_completes_quorum [OF inv inj _ assms(1,4)]) (use assms(2,6) v auth vs in auto)
  then show ?thesis
    using i by (auto simp: vs insert_votes_append Let_def split: prod.splits)
qed

theorem quorum_of_votes_is_certified_witness:
  "\<exists>qc. NewQuorumCertificate qc \<in> set (fst (insert_votes sample_vote_crypto four_verifier sample_votes pv_new))
    \<and> lis_ledger_info (qc_signed_ledger_info qc) = \<lparr>li_commit_info = bi_empty, li_consensus_data_hash = 7\<rparr>"
proof (rule quorum_of_votes_is_certified [where A = "{1, 2, 3}", OF four_verifier_valid sample_votes_valid])
  show "vq.quorum four_verifier {1, 2, 3}" by (simp add: quorum_iff four_voting_power four_lookup)
qed (use sample_votes_li in \<open>auto simp: sample_votes_def sample_vote_def\<close>)

text \<open>
  C27: No validator is counted for two ledger infos of a round, whatever votes it sends and
  whether or not they are valid: its signature is kept under at most one digest.
\<close>

theorem author_counted_once:
  assumes "insert_votes C vv vs pv_new = (rs, pv)"
    and "fmlookup (li_digest_to_votes pv) d1 = Some l1" and "a |\<in>| fmdom (lis_signatures l1)"
    and "fmlookup (li_digest_to_votes pv) d2 = Some l2" and "a |\<in>| fmdom (lis_signatures l2)"
  shows "d1 = d2"
proof -
  have "one_li_each C pv"
    by (rule insert_votes_one_li_each [OF _ assms(1)]) (simp add: one_li_each_def pv_new_def)
  with assms(2-5) show ?thesis unfolding one_li_each_def by (metis option.inject)
qed

definition equivocating_votes :: "Vote list" where
  "equivocating_votes = [sample_vote 1 None,
     (sample_vote 1 None)\<lparr>vote_ledger_info := \<lparr>li_commit_info = bi_empty, li_consensus_data_hash = 9\<rparr>\<rparr>]"

definition equivocation_crypto :: consensus_crypto where
  "equivocation_crypto = sample_vote_crypto\<lparr>hash_ledger_info := li_consensus_data_hash\<rparr>"

lemma equivocating_votes_state:
  "insert_votes equivocation_crypto four_verifier equivocating_votes pv_new =
     ([VoteAdded 1, EquivocateVote],
      \<lparr>li_digest_to_votes = fmupd 7 \<lparr>lis_ledger_info = vote_ledger_info (sample_vote 1 None),
         lis_signatures = fmupd 1 11 fmempty\<rparr> fmempty,
       maybe_partial_tc = None, author_to_vote = fmupd 1 (sample_vote 1 None) fmempty\<rparr>)"
  by (simp add: equivocating_votes_def pv_insert_vote_def seen_before_def pv_new_def sample_vote_crypto_def
      li_with_sig_for_def insert_timeout_def sample_vote_def equivocation_crypto_def Let_def four_defs
      lis_add_signature_def or_insert_def)

theorem author_counted_once_witness:
  "fst (insert_votes equivocation_crypto four_verifier equivocating_votes pv_new) = [VoteAdded 1, EquivocateVote]
    \<and> (7 :: HashValue) = 7"
proof (rule conjI)
  show "(7 :: HashValue) = 7"
    by (rule author_counted_once [OF equivocating_votes_state, where a = 1]) auto
qed (simp add: equivocating_votes_state)

end
