(* ===== verification/RoundState.thy ===== *)
theory RoundState
  imports PendingVotes
begin

text \<open>
  The pacemaker, \<open>src/consensus/src/liveness/round_state.rs\<close>: the current round, its deadline and
  the votes received for it.

  The trait \<open>RoundTimeInterval\<close> is the argument \<open>get_round_duration\<close> and the clock the argument
  \<open>now\<close>; durations are counted in nanoseconds. The tasks handed to the time service are kept in
  the state, each with its delay and the round it will send. Operations that add durations return
  \<open>None\<close> for the panic of an overflowing \<open>Duration\<close>. The implementation \<open>ExponentialTimeInterval\<close> of
  the trait computes in floating point and is not modelled.
\<close>

type_synonym Duration = nat

definition duration_add :: "Duration \<Rightarrow> Duration \<Rightarrow> Duration option" where
  "duration_add a b = (if a + b < 2 ^ 64 * 10 ^ 9 then Some (a + b) else None)"

datatype NewRoundReason = QCReady | TimeoutReason

record NewRoundEvent =
  nre_round :: Round
  nre_reason :: NewRoundReason
  nre_timeout :: Duration

record RoundState =
  rs_highest_committed_round :: Round
  rs_current_round :: Round
  rs_current_round_deadline :: Duration
  rs_pending_votes :: PendingVotes
  rs_vote_sent :: "Vote option"
  rs_scheduled :: "(Duration \<times> Round) list"

definition rs_new :: "Duration \<Rightarrow> RoundState" where
  "rs_new now = \<lparr>rs_highest_committed_round = 0, rs_current_round = 0, rs_current_round_deadline = now,
     rs_pending_votes = pv_new, rs_vote_sent = None, rs_scheduled = []\<rparr>"

text \<open>The subtractions of \<open>setup_deadline\<close> wrap around, as in a release build.\<close>

definition round_index_after_committed_round :: "RoundState \<Rightarrow> nat" where
  "round_index_after_committed_round s = unat
     (if rs_highest_committed_round s = 0 then rs_current_round s - 1
      else if rs_current_round s < rs_highest_committed_round s + 3 then 0
      else rs_current_round s - rs_highest_committed_round s - 3)"

definition setup_deadline :: "(nat \<Rightarrow> Duration) \<Rightarrow> Duration \<Rightarrow> RoundState \<Rightarrow> (Duration \<times> RoundState) option" where
  "setup_deadline get_round_duration now s =
     (let timeout = get_round_duration (round_index_after_committed_round s)
      in map_option (\<lambda>deadline. (timeout, s\<lparr>rs_current_round_deadline := deadline\<rparr>))
           (duration_add now timeout))"

definition setup_timeout :: "(nat \<Rightarrow> Duration) \<Rightarrow> Duration \<Rightarrow> RoundState \<Rightarrow> (Duration \<times> RoundState) option" where
  "setup_timeout get_round_duration now s =
     map_option (\<lambda>(timeout, s'). (timeout,
         s'\<lparr>rs_scheduled := rs_scheduled s' @ [(timeout, rs_current_round s')]\<rparr>))
       (setup_deadline get_round_duration now s)"

definition process_local_timeout ::
  "(nat \<Rightarrow> Duration) \<Rightarrow> Duration \<Rightarrow> Round \<Rightarrow> RoundState \<Rightarrow> (bool \<times> RoundState) option" where
  "process_local_timeout get_round_duration now rnd s =
     (if rnd \<noteq> rs_current_round s then Some (False, s)
      else map_option (\<lambda>(_, s'). (True, s')) (setup_timeout get_round_duration now s))"

definition process_certificates ::
  "(nat \<Rightarrow> Duration) \<Rightarrow> Duration \<Rightarrow> SyncInfo \<Rightarrow> RoundState \<Rightarrow> (NewRoundEvent option \<times> RoundState) option" where
  "process_certificates get_round_duration now sync_info s =
     (let s1 = (if highest_ordered_round sync_info > rs_highest_committed_round s
                then s\<lparr>rs_highest_committed_round := highest_ordered_round sync_info\<rparr> else s);
          new_round = highest_round sync_info + 1
      in if new_round > rs_current_round s1
         then
           (let s2 = s1\<lparr>rs_current_round := new_round, rs_pending_votes := pv_new, rs_vote_sent := None\<rparr>
            in map_option (\<lambda>(timeout, s3).
                 (Some \<lparr>nre_round = rs_current_round s3,
                    nre_reason = (if si_highest_timeout_cert sync_info = None then QCReady else TimeoutReason),
                    nre_timeout = timeout\<rparr>, s3)) (setup_timeout get_round_duration now s2))
         else Some (None, s1))"

definition rs_insert_vote ::
  "consensus_crypto \<Rightarrow> Vote \<Rightarrow> ValidatorVerifier \<Rightarrow> RoundState \<Rightarrow> VoteReceptionResult \<times> RoundState" where
  "rs_insert_vote C vote verifier s =
     (if bi_round (vd_proposed (vote_vote_data vote)) = rs_current_round s
      then (case pv_insert_vote C vote verifier (rs_pending_votes s) of
              (r, pv) \<Rightarrow> (r, s\<lparr>rs_pending_votes := pv\<rparr>))
      else (UnexpectedRound (bi_round (vd_proposed (vote_vote_data vote))) (rs_current_round s), s))"

definition record_vote :: "Vote \<Rightarrow> RoundState \<Rightarrow> RoundState" where
  "record_vote vote s =
     (if bi_round (vd_proposed (vote_vote_data vote)) = rs_current_round s
      then s\<lparr>rs_vote_sent := Some vote\<rparr> else s)"

section \<open>Runs of the pacemaker\<close>

text \<open>
  What the pacemaker is asked for and what it answers. A scheduled task fires by delivering its
  round; the time service may deliver tasks in any order and at any time.
\<close>

datatype rs_event =
    Certified SyncInfo "NewRoundEvent option"
  | Voted Vote VoteReceptionResult
  | Recorded Vote
  | TimedOut Round bool

inductive rs_run ::
  "consensus_crypto \<Rightarrow> ValidatorVerifier \<Rightarrow> (nat \<Rightarrow> Duration) \<Rightarrow> rs_event list \<Rightarrow> RoundState \<Rightarrow> bool"
  for C vv D where
  rs_start: "rs_run C vv D [] (rs_new now)"
| rs_certificates: "rs_run C vv D es s \<Longrightarrow> process_certificates D now si s = Some (ev, s') \<Longrightarrow>
     rs_run C vv D (es @ [Certified si ev]) s'"
| rs_vote: "rs_run C vv D es s \<Longrightarrow> rs_insert_vote C v vv s = (r, s') \<Longrightarrow> rs_run C vv D (es @ [Voted v r]) s'"
| rs_record: "rs_run C vv D es s \<Longrightarrow> rs_run C vv D (es @ [Recorded v]) (record_vote v s)"
| rs_timer: "rs_run C vv D es s \<Longrightarrow> (d, rnd) \<in> set (rs_scheduled s) \<Longrightarrow>
     process_local_timeout D now rnd (s\<lparr>rs_scheduled := remove1 (d, rnd) (rs_scheduled s)\<rparr>) = Some (b, s') \<Longrightarrow>
     rs_run C vv D (es @ [TimedOut rnd b]) s'"

text \<open>The events, votes and results of a run.\<close>

fun new_rounds :: "rs_event list \<Rightarrow> Round list" where
  "new_rounds [] = []"
| "new_rounds (Certified _ (Some ev) # es) = nre_round ev # new_rounds es"
| "new_rounds (_ # es) = new_rounds es"

definition votes_in :: "rs_event list \<Rightarrow> Vote set" where
  "votes_in es = {v. \<exists>r. Voted v r \<in> set es}"

lemma new_rounds_append [simp]: "new_rounds (es @ es') = new_rounds es @ new_rounds es'"
  by (induction es rule: new_rounds.induct) auto

lemma votes_in_append [simp]:
  "votes_in (es @ [Voted v r]) = insert v (votes_in es)"
  "votes_in (es @ [Certified si ev]) = votes_in es"
  "votes_in (es @ [Recorded v]) = votes_in es"
  "votes_in (es @ [TimedOut rnd b]) = votes_in es"
  by (auto simp: votes_in_def)

section \<open>Effects of the operations\<close>

lemma setup_timeout_Some:
  assumes "setup_timeout D now s = Some (t, s')"
  shows "s' = s\<lparr>rs_current_round_deadline := now + t,
    rs_scheduled := rs_scheduled s @ [(t, rs_current_round s)]\<rparr>"
    and "t = D (round_index_after_committed_round s)"
  using assms
  by (auto simp: setup_timeout_def setup_deadline_def duration_add_def Let_def split: if_splits)

lemma process_certificates_cases:
  assumes "process_certificates D now si s = Some (ev, s')"
  obtains (same) "ev = None" "rs_current_round s' = rs_current_round s" "rs_pending_votes s' = rs_pending_votes s"
      "rs_scheduled s' = rs_scheduled s" "rs_vote_sent s' = rs_vote_sent s"
      "highest_round si + 1 \<le> rs_current_round s"
  | (new) e where "ev = Some e" "nre_round e = highest_round si + 1" "rs_current_round s' = highest_round si + 1"
      "rs_current_round s < highest_round si + 1" "rs_pending_votes s' = pv_new" "rs_vote_sent s' = None"
      "rs_scheduled s' = rs_scheduled s @ [(nre_timeout e, highest_round si + 1)]"
      "rs_current_round_deadline s' = now + nre_timeout e"
proof (cases "rs_current_round s < highest_round si + 1")
  case True
  define s2 where "s2 = (if highest_ordered_round si > rs_highest_committed_round s
      then s\<lparr>rs_highest_committed_round := highest_ordered_round si\<rparr> else s)
      \<lparr>rs_current_round := highest_round si + 1, rs_pending_votes := pv_new, rs_vote_sent := None\<rparr>"
  from assms True obtain t e where st: "setup_timeout D now s2 = Some (t, s')" and ev: "ev = Some e"
    and e: "nre_round e = rs_current_round s'" "nre_timeout e = t"
    by (fastforce simp: process_certificates_def Let_def s2_def split: if_splits)
  show thesis using new [OF ev] e True setup_timeout_Some(1) [OF st] by (simp add: s2_def)
next
  case False
  with assms same show thesis by (auto simp: process_certificates_def Let_def split: if_splits)
qed

lemma rs_insert_vote_fields:
  assumes "rs_insert_vote C v vv s = (r, s')"
  shows "rs_current_round s' = rs_current_round s" and "rs_scheduled s' = rs_scheduled s"
  using assms by (auto simp: rs_insert_vote_def split: if_splits prod.splits)

lemma record_vote_fields [simp]:
  "rs_current_round (record_vote v s) = rs_current_round s"
  "rs_scheduled (record_vote v s) = rs_scheduled s"
  "rs_pending_votes (record_vote v s) = rs_pending_votes s"
  by (simp_all add: record_vote_def)

lemma process_local_timeout_cases:
  assumes "process_local_timeout D now rnd s = Some (b, s')"
  obtains (other) "rnd \<noteq> rs_current_round s" "\<not> b" "s' = s"
  | (current) "rnd = rs_current_round s" "b" "rs_current_round s' = rnd" "rs_pending_votes s' = rs_pending_votes s"
      "rs_scheduled s' = rs_scheduled s @ [(D (round_index_after_committed_round s), rnd)]"
proof (cases "rnd = rs_current_round s")
  case True
  with assms obtain t where st: "setup_timeout D now s = Some (t, s')" and b: b
    by (auto simp: process_local_timeout_def)
  show thesis by (rule current [OF True b]) (simp_all add: setup_timeout_Some [OF st] True)
next
  case False
  with assms have "\<not> b" "s' = s" by (auto simp: process_local_timeout_def)
  with False show thesis by (rule other)
qed

section \<open>Invariants\<close>

definition rounds_inv :: "rs_event list \<Rightarrow> RoundState \<Rightarrow> bool" where
  "rounds_inv es s \<longleftrightarrow> sorted_wrt (<) (new_rounds es) \<and> 0 \<notin> set (new_rounds es) \<and> (\<forall>r \<in> set (new_rounds es). r \<le> rs_current_round s)
     \<and> rs_current_round s = (if new_rounds es = [] then 0 else last (new_rounds es))
     \<and> (\<forall>si ev. Certified si ev \<in> set es \<longrightarrow> highest_round si + 1 \<le> rs_current_round s)"

lemma rounds_inv_run:
  assumes "rs_run C vv D es s"
  shows "rounds_inv es s"
  using assms
proof (induction rule: rs_run.induct)
  case (rs_certificates es s now si ev s')
  from rs_certificates.hyps(2) show ?case
  proof (cases rule: process_certificates_cases)
    case same
    with rs_certificates.IH show ?thesis by (auto simp: rounds_inv_def)
  next
    case (new e)
    with rs_certificates.IH show ?thesis
      by (auto simp: rounds_inv_def sorted_wrt_append intro: order_trans less_imp_le)
  qed
next
  case (rs_timer es s d rnd now b s')
  from rs_timer.hyps(3) show ?case
    by (cases rule: process_local_timeout_cases) (use rs_timer.IH in \<open>auto simp: rounds_inv_def\<close>)
next
  case (rs_vote es s v r s')
  with rs_insert_vote_fields(1) [OF rs_vote.hyps(2)] show ?case by (auto simp: rounds_inv_def)
qed (auto simp: rounds_inv_def rs_new_def)

definition timer_pending :: "RoundState \<Rightarrow> bool" where
  "timer_pending s \<longleftrightarrow> rs_current_round s = 0 \<or> rs_current_round s \<in> snd ` set (rs_scheduled s)"

lemma timer_pending_run:
  assumes "rs_run C vv D es s"
  shows "timer_pending s"
  using assms
proof (induction rule: rs_run.induct)
  case (rs_certificates es s now si ev s')
  from rs_certificates.hyps(2) show ?case
    by (cases rule: process_certificates_cases) (use rs_certificates.IH in \<open>auto simp: timer_pending_def\<close>)
next
  case (rs_timer es s d rnd now b s')
  from rs_timer.hyps(3) show ?case
  proof (cases rule: process_local_timeout_cases)
    case other
    then have "(t, rs_current_round s) \<in> set (remove1 (d, rnd) (rs_scheduled s))"
      if "(t, rs_current_round s) \<in> set (rs_scheduled s)" for t
      using that by (simp add: in_set_remove1)
    with other rs_timer.IH show ?thesis by (force simp: timer_pending_def)
  qed (auto simp: timer_pending_def)
next
  case (rs_vote es s v r s')
  with rs_insert_vote_fields [OF rs_vote.hyps(2)] show ?case by (simp add: timer_pending_def)
qed (auto simp: timer_pending_def rs_new_def)

definition round_votes_inv ::
  "consensus_crypto \<Rightarrow> u64 \<Rightarrow> rs_event list \<Rightarrow> RoundState \<Rightarrow> bool" where
  "round_votes_inv C e es s \<longleftrightarrow> (\<exists>V \<subseteq> votes_in es.
     (\<forall>v \<in> V. bi_round (vd_proposed (vote_vote_data v)) = rs_current_round s)
     \<and> pv_inv C \<lparr>to_epoch = e, to_round = rs_current_round s\<rparr> V (rs_pending_votes s))"

lemma round_votes_inv_fresh: "rs_pending_votes s = pv_new \<Longrightarrow> round_votes_inv C e es s"
  unfolding round_votes_inv_def by (intro exI [of _ "{}"]) (simp add: pv_inv_new)

lemma round_votes_inv_same:
  "round_votes_inv C e es s \<Longrightarrow> rs_current_round s' = rs_current_round s \<Longrightarrow>
   rs_pending_votes s' = rs_pending_votes s \<Longrightarrow> votes_in es \<subseteq> votes_in es' \<Longrightarrow> round_votes_inv C e es' s'"
  unfolding round_votes_inv_def by (metis subset_trans)

text \<open>The votes of a run as the caller hands them over: verified, and of one epoch.\<close>

definition epoch_votes :: "consensus_crypto \<Rightarrow> ValidatorVerifier \<Rightarrow> u64 \<Rightarrow> Vote set \<Rightarrow> bool" where
  "epoch_votes C vv e V \<longleftrightarrow> (\<forall>v \<in> V. vote_verify C v vv = Ok () \<and> vote_epoch v = e)
     \<and> inj_on (hash_ledger_info C) (vote_ledger_info ` V)"

lemma insert_vote_round:
  assumes inv: "round_votes_inv C e es s" and ins: "rs_insert_vote C v vv s = (r, s')"
    and V: "epoch_votes C vv e (insert v (votes_in es))" and "vv_valid vv" and "batch_sound (cc_ledger_info C)"
  shows "round_votes_inv C e (es @ [Voted v r]) s'"
    and "good_certificate C vv e (bi_round (vd_proposed (vote_vote_data v))) r"
proof -
  let ?cur = "rs_current_round s" and ?rnd = "bi_round (vd_proposed (vote_vote_data v))"
  have "round_votes_inv C e (es @ [Voted v r]) s' \<and> good_certificate C vv e ?rnd r"
  proof (cases "?rnd = ?cur")
    case False
    with ins have "s' = s" "r = UnexpectedRound ?rnd ?cur" by (auto simp: rs_insert_vote_def)
    with round_votes_inv_same [OF inv, of s' "es @ [Voted v r]"] show ?thesis by auto
  next
    case True
    obtain r' pv where pv: "pv_insert_vote C v vv (rs_pending_votes s) = (r', pv)"
      by (cases "pv_insert_vote C v vv (rs_pending_votes s)")
    with ins True have s': "r' = r" "s' = s\<lparr>rs_pending_votes := pv\<rparr>" by (auto simp: rs_insert_vote_def)
    from inv obtain W where W: "W \<subseteq> votes_in es" "\<forall>w \<in> W. bi_round (vd_proposed (vote_vote_data w)) = ?cur"
      "pv_inv C \<lparr>to_epoch = e, to_round = ?cur\<rparr> W (rs_pending_votes s)" by (auto simp: round_votes_inv_def)
    have inj: "inj_on (hash_ledger_info C) (vote_ledger_info ` insert v W)"
      using V W(1) by (auto simp: epoch_votes_def intro: inj_on_subset)
    have votes: "\<forall>w \<in> insert v W. round_vote C vv e ?cur w"
      using V W(1,2) True by (auto simp: epoch_votes_def round_vote_def)
    from insert_vote_inv [OF W(3) inj _ pv] votes round_vote_timeout
    have "pv_inv C \<lparr>to_epoch = e, to_round = ?cur\<rparr> (insert v W) pv" by blast
    with W True s' have "round_votes_inv C e (es @ [Voted v r]) s'"
      unfolding round_votes_inv_def by (intro exI [of _ "insert v W"]) auto
    with insert_vote_certificate [OF W(3) inj votes assms(4,5) pv] s' True show ?thesis by simp
  qed
  then show "round_votes_inv C e (es @ [Voted v r]) s'" and "good_certificate C vv e ?rnd r" by auto
qed

lemma epoch_votes_subset: "epoch_votes C vv e W \<Longrightarrow> V \<subseteq> W \<Longrightarrow> epoch_votes C vv e V"
  by (auto simp: epoch_votes_def intro: inj_on_subset)

lemma rs_run_certificates:
  assumes "rs_run C vv D es s" and "epoch_votes C vv e (votes_in es)" and "vv_valid vv"
    and "batch_sound (cc_ledger_info C)"
  shows "round_votes_inv C e es s \<and> (\<forall>v r. Voted v r \<in> set es \<longrightarrow>
    good_certificate C vv e (bi_round (vd_proposed (vote_vote_data v))) r)"
  using assms(1,2)
proof (induction rule: rs_run.induct)
  case (rs_start now)
  then show ?case by (simp add: round_votes_inv_fresh rs_new_def)
next
  case (rs_certificates es s now si ev s')
  then have IH: "round_votes_inv C e es s" and "\<forall>v r. Voted v r \<in> set es \<longrightarrow>
    good_certificate C vv e (bi_round (vd_proposed (vote_vote_data v))) r" by auto
  moreover from rs_certificates.hyps(2) have "round_votes_inv C e (es @ [Certified si ev]) s'"
    by (cases rule: process_certificates_cases) (auto intro: round_votes_inv_fresh round_votes_inv_same [OF IH])
  ultimately show ?case by auto
next
  case (rs_vote es s v r s')
  then have V: "epoch_votes C vv e (insert v (votes_in es))" by simp
  from epoch_votes_subset [OF V] rs_vote.IH have "round_votes_inv C e es s" "\<forall>v r. Voted v r \<in> set es \<longrightarrow>
    good_certificate C vv e (bi_round (vd_proposed (vote_vote_data v))) r" by auto
  with insert_vote_round [OF _ rs_vote.hyps(2) V assms(3,4)] show ?case by auto
next
  case (rs_record es s v)
  then show ?case by (auto intro: round_votes_inv_same)
next
  case (rs_timer es s d rnd now b s')
  then have IH: "round_votes_inv C e es s" and "\<forall>v r. Voted v r \<in> set es \<longrightarrow>
    good_certificate C vv e (bi_round (vd_proposed (vote_vote_data v))) r" by auto
  moreover from rs_timer.hyps(3) have "round_votes_inv C e (es @ [TimedOut rnd b]) s'"
    by (cases rule: process_local_timeout_cases) (auto intro: round_votes_inv_same [OF IH])
  ultimately show ?case by auto
qed

section \<open>A run of the first round\<close>

lemma rs_run_votes:
  assumes "rs_run C vv D es s" and "insert_votes C vv vs (rs_pending_votes s) = (rs, pv)"
    and "\<forall>v \<in> set vs. bi_round (vd_proposed (vote_vote_data v)) = rs_current_round s"
  shows "rs_run C vv D (es @ map2 Voted vs rs) (s\<lparr>rs_pending_votes := pv\<rparr>)"
  using assms
proof (induction vs arbitrary: es s rs)
  case (Cons v vs)
  obtain r1 pv1 where 1: "pv_insert_vote C v vv (rs_pending_votes s) = (r1, pv1)"
    by (cases "pv_insert_vote C v vv (rs_pending_votes s)")
  with Cons.prems(2) obtain rs' where 2: "insert_votes C vv vs pv1 = (rs', pv)" and rs: "rs = r1 # rs'"
    by (auto simp: Let_def split: prod.splits)
  have "rs_run C vv D (es @ [Voted v r1]) (s\<lparr>rs_pending_votes := pv1\<rparr>)"
    by (rule rs_vote [OF Cons.prems(1)]) (use 1 Cons.prems(3) in \<open>simp add: rs_insert_vote_def\<close>)
  from Cons.IH [OF this] 2 Cons.prems(3) rs show ?case by simp
next
  case Nil
  then show ?case by (cases s) simp
qed

definition sample_sync_info :: SyncInfo where
  "sample_sync_info = \<lparr>si_highest_quorum_cert = \<lparr>qc_vote_data = \<lparr>vd_proposed = bi_empty, vd_parent = bi_empty\<rparr>,
       qc_signed_ledger_info = \<lparr>lis_ledger_info = \<lparr>li_commit_info = bi_empty, li_consensus_data_hash = 0\<rparr>,
         lis_signatures = fmempty\<rparr>\<rparr>,
     si_highest_ordered_cert = None, si_highest_ledger_info = None, si_highest_timeout_cert = None\<rparr>"

definition first_round_event :: NewRoundEvent where
  "first_round_event = \<lparr>nre_round = 1, nre_reason = QCReady, nre_timeout = 5\<rparr>"

definition first_round_state :: RoundState where
  "first_round_state = \<lparr>rs_highest_committed_round = 0, rs_current_round = 1, rs_current_round_deadline = 7,
     rs_pending_votes = pv_new, rs_vote_sent = None, rs_scheduled = [(5, 1)]\<rparr>"

definition first_round_events :: "rs_event list" where
  "first_round_events = [Certified sample_sync_info (Some first_round_event), Voted (sample_vote 1 None) (VoteAdded 1),
     Voted (sample_vote 3 None) (VoteAdded 2), Voted (sample_vote 2 (Some 12)) (NewQuorumCertificate sample_qc)]"

lemma first_round_start:
  "rs_run sample_vote_crypto four_verifier (\<lambda>_. 5) [Certified sample_sync_info (Some first_round_event)] first_round_state"
proof -
  have "process_certificates (\<lambda>_. 5) 2 sample_sync_info (rs_new 1) = Some (Some first_round_event, first_round_state)"
    by (simp add: process_certificates_def rs_new_def first_round_state_def first_round_event_def sample_sync_info_def
        highest_ordered_round_def highest_ordered_cert_def highest_round_def highest_certified_round_def
        highest_timeout_round_def qc_commit_info_def qc_certified_block_def bi_empty_def setup_timeout_def
        setup_deadline_def duration_add_def Let_def)
  from rs_certificates [OF rs_start this] show ?thesis by simp
qed

lemma first_round_run: "\<exists>s. rs_run sample_vote_crypto four_verifier (\<lambda>_. 5) first_round_events s \<and> rs_current_round s = 1"
proof -
  have "\<forall>v \<in> set sample_votes. bi_round (vd_proposed (vote_vote_data v)) = rs_current_round first_round_state"
    using sample_votes_valid by (simp add: round_vote_def first_round_state_def)
  moreover obtain pv where "insert_votes sample_vote_crypto four_verifier sample_votes (rs_pending_votes first_round_state) =
      ([VoteAdded 1, VoteAdded 2, NewQuorumCertificate sample_qc], pv)"
    using sample_votes_results by (metis first_round_state_def RoundState.select_convs(4) prod.collapse)
  ultimately have "rs_run sample_vote_crypto four_verifier (\<lambda>_. 5) first_round_events
      (first_round_state\<lparr>rs_pending_votes := pv\<rparr>)"
    using rs_run_votes [OF first_round_start] by (fastforce simp: first_round_events_def sample_votes_def)
  then show ?thesis by (force simp: first_round_state_def)
qed

section \<open>Properties\<close>

text \<open>
  C28: The rounds of the pacemaker. In every run, whatever certificates, votes and expired timers
  reach it and in whichever order, the new round events have strictly increasing rounds, the
  current round is that of the last one, and it is above the rounds of all certificates seen.
\<close>

theorem round_events_increase:
  assumes "rs_run C vv D es s"
  shows "sorted_wrt (<) (new_rounds es)
    \<and> rs_current_round s = (if new_rounds es = [] then 0 else last (new_rounds es))
    \<and> (\<forall>si ev. Certified si ev \<in> set es \<longrightarrow> highest_round si + 1 \<le> rs_current_round s)"
  using rounds_inv_run [OF assms] unfolding rounds_inv_def by blast

theorem round_events_increase_witness: "new_rounds first_round_events = [1] \<and> sorted_wrt (<) [1 :: u64]"
proof -
  obtain s where "rs_run sample_vote_crypto four_verifier (\<lambda>_. 5) first_round_events s"
    using first_round_run by blast
  from round_events_increase [OF this] have "sorted_wrt (<) (new_rounds first_round_events)" by blast
  then show ?thesis by (simp add: first_round_events_def first_round_event_def)
qed

text \<open>
  C29: The pacemaker never falls asleep: from the first new round event on, the time service
  always holds a task that will deliver a local timeout for the current round.
\<close>

theorem local_timeout_always_pending:
  assumes "rs_run C vv D es s" and "new_rounds es \<noteq> []"
  shows "\<exists>d. (d, rs_current_round s) \<in> set (rs_scheduled s)"
proof -
  from rounds_inv_run [OF assms(1)] assms(2)
  have "rs_current_round s = last (new_rounds es)" "0 \<notin> set (new_rounds es)" by (simp_all add: rounds_inv_def)
  with last_in_set [OF assms(2)] have "rs_current_round s \<noteq> 0" by metis
  with timer_pending_run [OF assms(1)] show ?thesis by (auto simp: timer_pending_def)
qed

theorem local_timeout_always_pending_witness:
  "\<exists>s d. rs_run sample_vote_crypto four_verifier (\<lambda>_. 5) first_round_events s \<and> (d, 1) \<in> set (rs_scheduled s)"
proof -
  obtain s where s: "rs_run sample_vote_crypto four_verifier (\<lambda>_. 5) first_round_events s" "rs_current_round s = 1"
    using first_round_run by blast
  from local_timeout_always_pending [OF s(1)] s show ?thesis by (auto simp: first_round_events_def)
qed

text \<open>
  C30: Every certificate the pacemaker hands out is a good one for the round of the vote that
  completed it, across changes of round: quorum certificates pass \<open>QuorumCert::verify\<close> and timeout
  certificates \<open>TimeoutCertificate::verify\<close>, as long as the votes handed in are verified votes of
  the epoch.
\<close>

theorem round_state_certificates_verify:
  assumes "rs_run C vv D es s" and "epoch_votes C vv e (votes_in es)" and "vv_valid vv"
    and "batch_sound (cc_ledger_info C)" and "Voted v res \<in> set es"
  shows "(\<forall>qc. res = NewQuorumCertificate qc \<longrightarrow> qc_verify C qc vv = Ok ()
      \<and> bi_epoch (qc_certified_block qc) = e
      \<and> bi_round (qc_certified_block qc) = bi_round (vd_proposed (vote_vote_data v)))
    \<and> (\<forall>tc. res = NewTimeoutCertificate tc \<longrightarrow> tc_verify C tc vv = Ok ()
      \<and> tc_timeout tc = \<lparr>to_epoch = e, to_round = bi_round (vd_proposed (vote_vote_data v))\<rparr>)"
proof -
  from rs_run_certificates [OF assms(1-4)] assms(5)
  have "good_certificate C vv e (bi_round (vd_proposed (vote_vote_data v))) res" by blast
  then show ?thesis by auto
qed

theorem round_state_certificates_verify_witness:
  "Voted (sample_vote 2 (Some 12)) (NewQuorumCertificate sample_qc) \<in> set first_round_events
    \<and> qc_verify sample_vote_crypto sample_qc four_verifier = Ok ()"
proof -
  obtain s where s: "rs_run sample_vote_crypto four_verifier (\<lambda>_. 5) first_round_events s"
    using first_round_run by blast
  have ev: "Voted (sample_vote 2 (Some 12)) (NewQuorumCertificate sample_qc) \<in> set first_round_events"
    by (simp add: first_round_events_def)
  have "votes_in first_round_events = set sample_votes"
    by (auto simp: votes_in_def first_round_events_def sample_votes_def)
  then have "epoch_votes sample_vote_crypto four_verifier 1 (votes_in first_round_events)"
    using sample_votes_valid by (auto simp: epoch_votes_def round_vote_def sample_votes_li)
  from round_state_certificates_verify [OF s this four_verifier_valid _ ev] ev show ?thesis
    by (simp add: sample_vote_crypto_def)
qed

end
