(* ===== verification/Forest.thy ===== *)
theory Forest
  imports Main
begin

text \<open>
  Forests as finite sets of edges from parent to child, the interface of the block tree to its
  traversals: every node has at most one parent and there is no cycle. A worklist of nodes no two
  of which lie below each other can be expanded node by node, and every node below it is visited
  exactly once.
\<close>

locale forest =
  fixes valid :: "'t \<Rightarrow> bool"
    and edges :: "'t \<Rightarrow> ('a \<times> 'a) set"
  assumes finite_edges: "valid t \<Longrightarrow> finite (edges t)"
    and one_parent: "valid t \<Longrightarrow> (p, c) \<in> edges t \<Longrightarrow> (q, c) \<in> edges t \<Longrightarrow> p = q"
    and no_cycle: "valid t \<Longrightarrow> acyclic (edges t)"
begin

definition below :: "('a \<times> 'a) set \<Rightarrow> 'a set \<Rightarrow> 'a set" where
  "below E S = E\<^sup>* `` S"

definition antichain :: "('a \<times> 'a) set \<Rightarrow> 'a set \<Rightarrow> bool" where
  "antichain E S \<longleftrightarrow> (\<forall>x \<in> S. \<forall>y \<in> S. x \<noteq> y \<longrightarrow> (x, y) \<notin> E\<^sup>*)"

lemma below_finite:
  assumes "valid t" and "E \<subseteq> edges t" and "finite S"
  shows "finite (below E S)"
proof -
  have "finite E" using finite_edges [OF assms(1)] assms(2) by (rule rev_finite_subset)
  have "x \<in> S \<union> snd ` E" if "(a, x) \<in> E\<^sup>*" "a \<in> S" for a x
    using that by (cases rule: rtranclE) (auto intro: rev_image_eqI)
  then have "below E S \<subseteq> S \<union> snd ` E" unfolding below_def by blast
  then show ?thesis using \<open>finite E\<close> assms(3) by (auto intro: finite_subset)
qed

lemma above_parent:
  assumes "valid t" and "E \<subseteq> edges t" and "(p, c) \<in> E" and "(x, c) \<in> E\<^sup>*" and "x \<noteq> c"
  shows "(x, p) \<in> E\<^sup>*"
proof -
  from assms(4,5) obtain q where "(x, q) \<in> E\<^sup>*" "(q, c) \<in> E" by (auto elim: rtranclE)
  with one_parent [OF assms(1)] assms(2,3) show ?thesis by blast
qed

lemma no_way_back:
  assumes "valid t" and "E \<subseteq> edges t" and "(p, c) \<in> E"
  shows "(c, p) \<notin> E\<^sup>*"
  using no_cycle [OF assms(1)] assms(2,3) unfolding acyclic_def
  by (meson r_into_trancl rtrancl_into_trancl2 rtrancl_mono subsetD trancl_mono)

lemma expand:
  assumes v: "valid t" "E \<subseteq> edges t" and anti: "antichain E (insert b R)" and "b \<notin> R"
  shows "antichain E (E `` {b} \<union> R)" and "E `` {b} \<inter> R = {}"
    and "below E (insert b R) = insert b (below E (E `` {b} \<union> R))"
    and "b \<notin> below E (E `` {b} \<union> R)"
proof -
  note up = above_parent [OF v] and nob = no_way_back [OF v]
  have bR: "(b, r) \<notin> E\<^sup>*" "(r, b) \<notin> E\<^sup>*" if "r \<in> R" for r
    using that anti assms(4) unfolding antichain_def by (metis insertCI)+
  show disj: "E `` {b} \<inter> R = {}" using bR by blast
  show "antichain E (E `` {b} \<union> R)"
    unfolding antichain_def
  proof (intro ballI impI notI)
    fix x y assume x: "x \<in> E `` {b} \<union> R" and y: "y \<in> E `` {b} \<union> R" and "x \<noteq> y" "(x, y) \<in> E\<^sup>*"
    show False
    proof (cases "y \<in> R")
      case True
      show False
      proof (cases "x \<in> R")
        case True
        with \<open>y \<in> R\<close> anti \<open>x \<noteq> y\<close> \<open>(x, y) \<in> E\<^sup>*\<close> show False by (auto simp: antichain_def)
      next
        case False
        with x have "(b, x) \<in> E" by blast
        with \<open>(x, y) \<in> E\<^sup>*\<close> bR(1) [OF True] show False by (meson converse_rtrancl_into_rtrancl)
      qed
    next
      case False
      with y have "(b, y) \<in> E" by blast
      from up [OF this \<open>(x, y) \<in> E\<^sup>*\<close> \<open>x \<noteq> y\<close>] have "(x, b) \<in> E\<^sup>*" .
      with x bR(2) nob show False by blast
    qed
  qed
  show "below E (insert b R) = insert b (below E (E `` {b} \<union> R))"
    unfolding below_def by (auto elim: converse_rtranclE intro: converse_rtrancl_into_rtrancl)
  show "b \<notin> below E (E `` {b} \<union> R)"
    using bR(2) nob unfolding below_def by blast
qed

text \<open>Cutting the edges into a node \<open>n\<close> leaves what is not below \<open>n\<close>.\<close>

lemma below_cut:
  assumes "valid t" and n: "n \<in> below (edges t) {r}" and "n \<noteq> r"
  shows "below {(p, c) \<in> edges t. c \<noteq> n} {r} = below (edges t) {r} - below (edges t) {n}"
proof -
  let ?E = "edges t" and ?F = "{(p, c) \<in> edges t. c \<noteq> n}"
  note up = above_parent [OF assms(1) order_refl] and nob = no_way_back [OF assms(1) order_refl]
  have nr: "(n, r) \<notin> ?E\<^sup>*"
  proof
    assume "(n, r) \<in> ?E\<^sup>*"
    moreover from n assms(3) have "(r, n) \<in> ?E\<^sup>+" unfolding below_def by (simp add: rtrancl_eq_or_trancl)
    ultimately have "(r, r) \<in> ?E\<^sup>+" by (rule trancl_rtrancl_trancl [rotated])
    with no_cycle [OF assms(1)] show False by (simp add: acyclic_def)
  qed
  have "(r, x) \<in> ?E\<^sup>* \<and> (n, x) \<notin> ?E\<^sup>*" if "(r, x) \<in> ?F\<^sup>*" for x
    using that
  proof (induction rule: rtrancl_induct)
    case (step y z)
    then have yz: "(y, z) \<in> ?E" and "n \<noteq> z" by auto
    with up [OF yz] step.IH have "(n, z) \<notin> ?E\<^sup>*" by blast
    with step.IH yz show ?case by (auto intro: rtrancl_into_rtrancl)
  qed (use nr in simp)
  moreover have "(r, x) \<in> ?F\<^sup>*" if "(r, x) \<in> ?E\<^sup>*" "(n, x) \<notin> ?E\<^sup>*" for x
    using that
  proof (induction rule: rtrancl_induct)
    case (step y z)
    then have "(n, y) \<notin> ?E\<^sup>*" "z \<noteq> n" by (auto intro: rtrancl_into_rtrancl)
    with step show ?case by (auto intro: rtrancl_into_rtrancl)
  qed simp
  ultimately show ?thesis unfolding below_def by blast
qed

end

end
