(* ===== verification/BlockTree.thy ===== *)
theory BlockTree
  imports ConsensusTypes Forest
begin

text \<open>
  The tree of blocks a validator has executed and not yet forgotten,
  \<open>src/consensus/src/block_storage/block_tree.rs\<close>, with the blocks it holds,
  \<open>src/consensus/consensus-types/src/executed_block.rs\<close>.

  Hash maps are finite maps and the children of a block a finite set. A hash set is iterated in an
  order of its own: \<open>find_blocks_to_prune\<close> takes this order as the argument \<open>order\<close>. Counters and log
  lines are left out. The loops that follow links are partial functions, so that a loop that does
  not return or a failed \<open>expect\<close> inside it is the value \<open>None\<close>; they are shown to return.

  The tree keeps its links consistent and its roots in memory over every sequence of operations,
  pruning removes exactly what does not descend from the new root, and the path from the root
  to a block is found whenever there is one.
\<close>

section \<open>Executed blocks\<close>

text \<open>
  The status codes of a transaction are enumerated with a \<open>u64\<close> representation and are kept as their
  numbers; contract events are only passed through and are bytes.
\<close>

type_synonym StatusCode = u64

datatype AbortLocation = Module AccountAddress string | Script

datatype KeptVMStatus =
    Executed
  | OutOfGas
  | MoveAbort AbortLocation u64
  | ExecutionFailure AbortLocation "16 word" "16 word"
  | MiscellaneousError

datatype TransactionStatus = Discard StatusCode | Keep KeptVMStatus | Retry

record StateComputeResult =
  scr_root_hash :: HashValue
  scr_frozen_subtree_roots :: "HashValue list"
  scr_parent_frozen_subtree_roots :: "HashValue list"
  scr_num_leaves :: u64
  scr_parent_num_leaves :: u64
  scr_epoch_state :: "EpochState option"
  scr_compute_status :: "TransactionStatus list"
  scr_transaction_info_hashes :: "HashValue list"
  scr_signature :: "Ed25519Signature option"
  scr_reconfig_events :: "8 word list list"

definition scr_new ::
  "HashValue \<Rightarrow> HashValue list \<Rightarrow> u64 \<Rightarrow> HashValue list \<Rightarrow> u64 \<Rightarrow> EpochState option \<Rightarrow> TransactionStatus list
     \<Rightarrow> HashValue list \<Rightarrow> 8 word list list \<Rightarrow> StateComputeResult" where
  "scr_new root_hash frozen_subtree_roots num_leaves parent_frozen_subtree_roots parent_num_leaves
     epoch_state compute_status transaction_info_hashes reconfig_events =
     \<lparr>scr_root_hash = root_hash, scr_frozen_subtree_roots = frozen_subtree_roots,
      scr_parent_frozen_subtree_roots = parent_frozen_subtree_roots, scr_num_leaves = num_leaves,
      scr_parent_num_leaves = parent_num_leaves, scr_epoch_state = epoch_state,
      scr_compute_status = compute_status, scr_transaction_info_hashes = transaction_info_hashes,
      scr_signature = None, scr_reconfig_events = reconfig_events\<rparr>"

definition scr_new_dummy_with_root_hash :: "HashValue \<Rightarrow> StateComputeResult" where
  "scr_new_dummy_with_root_hash root_hash = scr_new root_hash [] 0 [] 0 None [] [] []"

definition scr_new_dummy :: StateComputeResult where
  "scr_new_dummy = scr_new_dummy_with_root_hash ACCUMULATOR_PLACEHOLDER_HASH"

definition scr_version :: "StateComputeResult \<Rightarrow> Version" where
  "scr_version r = max (scr_num_leaves r) 1 - 1"

definition scr_extension_proof :: "StateComputeResult \<Rightarrow> AccumulatorExtensionProof" where
  "scr_extension_proof r =
     \<lparr>aep_frozen_subtree_roots = scr_parent_frozen_subtree_roots r,
      aep_num_leaves = scr_parent_num_leaves r, aep_leaves = scr_transaction_info_hashes r\<rparr>"

definition scr_has_reconfiguration :: "StateComputeResult \<Rightarrow> bool" where
  "scr_has_reconfiguration r \<longleftrightarrow> scr_epoch_state r \<noteq> None"

record ExecutedBlock =
  eb_block :: Block
  eb_state_compute_result :: StateComputeResult

definition eb_id :: "ExecutedBlock \<Rightarrow> HashValue" where
  "eb_id b = blk_id (eb_block b)"

definition eb_quorum_cert :: "ExecutedBlock \<Rightarrow> QuorumCert" where
  "eb_quorum_cert b = blk_quorum_cert (eb_block b)"

definition eb_parent_id :: "ExecutedBlock \<Rightarrow> HashValue" where
  "eb_parent_id b = bi_id (qc_certified_block (eb_quorum_cert b))"

definition eb_round :: "ExecutedBlock \<Rightarrow> Round" where
  "eb_round b = blk_round (eb_block b)"

definition eb_block_info :: "ExecutedBlock \<Rightarrow> BlockInfo" where
  "eb_block_info b =
     gen_block_info (eb_block b) (scr_root_hash (eb_state_compute_result b))
       (scr_version (eb_state_compute_result b)) (scr_epoch_state (eb_state_compute_result b))"

definition eb_maybe_signed_vote_proposal :: "ExecutedBlock \<Rightarrow> MaybeSignedVoteProposal" where
  "eb_maybe_signed_vote_proposal b =
     \<lparr>mvp_vote_proposal =
        \<lparr>vp_accumulator_extension_proof = scr_extension_proof (eb_state_compute_result b),
         vp_block = eb_block b, vp_next_epoch_state = scr_epoch_state (eb_state_compute_result b)\<rparr>,
      mvp_signature = scr_signature (eb_state_compute_result b)\<rparr>"

text \<open>\<open>zip_eq\<close> panics on lists of different lengths.\<close>

definition eb_transactions_to_commit :: "ExecutedBlock \<Rightarrow> Transaction list option" where
  "eb_transactions_to_commit b =
     (if qc_ends_epoch (eb_quorum_cert b) then Some []
      else let txns = transactions_to_execute (eb_block b);
               status = scr_compute_status (eb_state_compute_result b)
           in if length txns \<noteq> length status then None
              else Some (List.map_filter (\<lambda>(txn, st). case st of Keep _ \<Rightarrow> Some txn | _ \<Rightarrow> None)
                     (zip txns status)))"

definition eb_reconfig_event :: "ExecutedBlock \<Rightarrow> 8 word list list" where
  "eb_reconfig_event b =
     (if qc_ends_epoch (eb_quorum_cert b) then []
      else scr_reconfig_events (eb_state_compute_result b))"

section \<open>The tree\<close>

record LinkableBlock =
  lb_executed_block :: ExecutedBlock
  lb_children :: "HashValue fset"

definition lb_new :: "ExecutedBlock \<Rightarrow> LinkableBlock" where
  "lb_new block = \<lparr>lb_executed_block = block, lb_children = {||}\<rparr>"

definition lb_id :: "LinkableBlock \<Rightarrow> HashValue" where
  "lb_id lb = eb_id (lb_executed_block lb)"

text \<open>\<open>None\<close> is the failed assertion that the child is new.\<close>

definition add_child :: "HashValue \<Rightarrow> LinkableBlock \<Rightarrow> LinkableBlock option" where
  "add_child child_id lb =
     (if child_id |\<in>| lb_children lb then None else Some (lb\<lparr>lb_children := finsert child_id (lb_children lb)\<rparr>))"

record BlockTree =
  id_to_block :: "(HashValue, LinkableBlock) fmap"
  ordered_root_id :: HashValue
  commit_root_id :: HashValue
  highest_certified_block_id :: HashValue
  bt_highest_quorum_cert :: QuorumCert
  bt_highest_timeout_cert :: "TimeoutCertificate option"
  bt_highest_ordered_cert :: QuorumCert
  bt_highest_ledger_info :: LedgerInfoWithSignatures
  id_to_quorum_cert :: "(HashValue, QuorumCert) fmap"
  pruned_block_ids :: "HashValue list"
  max_pruned_blocks_in_mem :: nat

definition bt_new ::
  "ExecutedBlock \<Rightarrow> QuorumCert \<Rightarrow> QuorumCert \<Rightarrow> LedgerInfoWithSignatures \<Rightarrow> nat \<Rightarrow> TimeoutCertificate option
     \<Rightarrow> BlockTree option" where
  "bt_new root root_quorum_cert root_ordered_cert root_commit_ledger_info max_pruned highest_timeout_cert =
     (if eb_id root \<noteq> bi_id (qc_commit_info root_ordered_cert) then None
      else Some
        \<lparr>id_to_block = fmupd (eb_id root) (lb_new root) fmempty,
         ordered_root_id = eb_id root, commit_root_id = eb_id root,
         highest_certified_block_id = eb_id root, bt_highest_quorum_cert = root_quorum_cert,
         bt_highest_timeout_cert = highest_timeout_cert, bt_highest_ordered_cert = root_ordered_cert,
         bt_highest_ledger_info = root_commit_ledger_info,
         id_to_quorum_cert = fmupd (bi_id (qc_certified_block root_quorum_cert)) root_quorum_cert fmempty,
         pruned_block_ids = [], max_pruned_blocks_in_mem = max_pruned\<rparr>)"

definition block_exists :: "BlockTree \<Rightarrow> HashValue \<Rightarrow> bool" where
  "block_exists t block_id \<longleftrightarrow> block_id |\<in>| fmdom (id_to_block t)"

definition bt_get_block :: "BlockTree \<Rightarrow> HashValue \<Rightarrow> ExecutedBlock option" where
  "bt_get_block t block_id = map_option lb_executed_block (fmlookup (id_to_block t) block_id)"

definition get_all_quorum_certs_with_commit_info :: "BlockTree \<Rightarrow> QuorumCert list" where
  "get_all_quorum_certs_with_commit_info t =
     filter (\<lambda>qc. qc_commit_info qc \<noteq> bi_empty) (btree_values (id_to_quorum_cert t))"

text \<open>The roots and the highest certified block, \<open>None\<close> being the failed \<open>expect\<close>.\<close>

definition linkable_root :: "BlockTree \<Rightarrow> LinkableBlock option" where
  "linkable_root t = fmlookup (id_to_block t) (commit_root_id t)"

definition ordered_root :: "BlockTree \<Rightarrow> ExecutedBlock option" where
  "ordered_root t = bt_get_block t (ordered_root_id t)"

definition commit_root :: "BlockTree \<Rightarrow> ExecutedBlock option" where
  "commit_root t = bt_get_block t (commit_root_id t)"

definition highest_certified_block :: "BlockTree \<Rightarrow> ExecutedBlock option" where
  "highest_certified_block t = bt_get_block t (highest_certified_block_id t)"

definition remove_block :: "HashValue \<Rightarrow> BlockTree \<Rightarrow> BlockTree" where
  "remove_block block_id t =
     t\<lparr>id_to_block := fmdrop block_id (id_to_block t),
       id_to_quorum_cert := fmdrop block_id (id_to_quorum_cert t)\<rparr>"

definition replace_timeout_cert :: "TimeoutCertificate \<Rightarrow> BlockTree \<Rightarrow> BlockTree" where
  "replace_timeout_cert tc t = t\<lparr>bt_highest_timeout_cert := Some tc\<rparr>"

definition get_quorum_cert_for_block :: "BlockTree \<Rightarrow> HashValue \<Rightarrow> QuorumCert option" where
  "get_quorum_cert_for_block t block_id = fmlookup (id_to_quorum_cert t) block_id"

definition insert_block :: "ExecutedBlock \<Rightarrow> (BlockTree, ExecutedBlock, anyhow) st_result" where
  "insert_block block t =
     (let block_id = eb_id block
      in case bt_get_block t block_id of
           Some existing_block \<Rightarrow>
             if eb_state_compute_result existing_block = eb_state_compute_result block
             then (Ok existing_block, t) else (Panic, t)
         | None \<Rightarrow>
             (case fmlookup (id_to_block t) (eb_parent_id block) of
                None \<Rightarrow> (Err (Msg ''Parent block not found''), t)
              | Some parent_block \<Rightarrow>
                  (case add_child block_id parent_block of
                     None \<Rightarrow> (Panic, t)
                   | Some parent_block' \<Rightarrow>
                       let m = fmupd (eb_parent_id block) parent_block' (id_to_block t)
                       in if block_id |\<in>| fmdom m then (Panic, t)
                          else (Ok block, t\<lparr>id_to_block := fmupd block_id (lb_new block) m\<rparr>))))"

definition update_highest_ledger_info :: "LedgerInfoWithSignatures \<Rightarrow> BlockTree \<Rightarrow> BlockTree" where
  "update_highest_ledger_info new_ledger_info_with_sig t =
     (if bi_round (lis_commit_info new_ledger_info_with_sig) > bi_round (lis_commit_info (bt_highest_ledger_info t))
      then t\<lparr>bt_highest_ledger_info := new_ledger_info_with_sig\<rparr> else t)"

definition insert_quorum_cert :: "QuorumCert \<Rightarrow> (BlockTree, unit, anyhow) st_result" where
  "insert_quorum_cert qc t =
     (let block_id = bi_id (qc_certified_block qc)
      in case bt_get_block t block_id of
           None \<Rightarrow> (Err (Msg ''Block not found''), t)
         | Some block \<Rightarrow>
             (case highest_certified_block t of
                None \<Rightarrow> (Panic, t)
              | Some highest \<Rightarrow>
                  let t1 = (if eb_round block > eb_round highest
                            then t\<lparr>highest_certified_block_id := eb_id block, bt_highest_quorum_cert := qc\<rparr> else t);
                      t2 = t1\<lparr>id_to_quorum_cert := or_insert block_id qc (id_to_quorum_cert t1)\<rparr>;
                      t3 = (if bi_round (qc_commit_info (bt_highest_ordered_cert t2)) < bi_round (qc_commit_info qc)
                            then t2\<lparr>bt_highest_ordered_cert := qc\<rparr> else t2)
                  in (Ok (), t3)))"

text \<open>The loop of \<open>find_blocks_to_prune\<close>: the stack with its top first, and the blocks pruned so far.\<close>

partial_function (option) prune_loop ::
  "(HashValue fset \<Rightarrow> HashValue list) \<Rightarrow> BlockTree \<Rightarrow> HashValue \<Rightarrow> LinkableBlock list \<Rightarrow> HashValue list
     \<Rightarrow> HashValue list option" where
  "prune_loop order t next_root_id stack blocks_pruned =
     (case stack of
        [] \<Rightarrow> Some blocks_pruned
      | block_to_remove # rest \<Rightarrow>
          (case those (map (fmlookup (id_to_block t))
                 (filter (\<lambda>child_id. next_root_id \<noteq> child_id) (order (lb_children block_to_remove)))) of
             None \<Rightarrow> None
           | Some blocks \<Rightarrow>
               prune_loop order t next_root_id (rev blocks @ rest) (blocks_pruned @ [lb_id block_to_remove])))"

definition find_blocks_to_prune ::
  "(HashValue fset \<Rightarrow> HashValue list) \<Rightarrow> BlockTree \<Rightarrow> HashValue \<Rightarrow> HashValue list option" where
  "find_blocks_to_prune order t next_root_id =
     (if next_root_id = commit_root_id t then Some []
      else case linkable_root t of
             None \<Rightarrow> None
           | Some root \<Rightarrow> prune_loop order t next_root_id [root] [])"

definition update_ordered_root_id :: "HashValue \<Rightarrow> BlockTree \<Rightarrow> BlockTree option" where
  "update_ordered_root_id root_id t =
     (if block_exists t root_id then Some (t\<lparr>ordered_root_id := root_id\<rparr>) else None)"

text \<open>The oldest pruned blocks leave the buffer and the tree until the buffer fits.\<close>

fun forget_pruned :: "nat \<Rightarrow> BlockTree \<Rightarrow> BlockTree" where
  "forget_pruned 0 t = t"
| "forget_pruned (Suc n) t =
     (case pruned_block_ids t of
        [] \<Rightarrow> forget_pruned n t
      | block_id # rest \<Rightarrow> forget_pruned n (remove_block block_id (t\<lparr>pruned_block_ids := rest\<rparr>)))"

definition update_commit_id_and_process_pruned_blocks :: "HashValue \<Rightarrow> HashValue list \<Rightarrow> BlockTree \<Rightarrow> BlockTree" where
  "update_commit_id_and_process_pruned_blocks next_root_id newly_pruned_blocks t =
     (let t1 = t\<lparr>commit_root_id := next_root_id, pruned_block_ids := pruned_block_ids t @ newly_pruned_blocks\<rparr>
      in if length (pruned_block_ids t1) > max_pruned_blocks_in_mem t1
         then forget_pruned (length (pruned_block_ids t1) - max_pruned_blocks_in_mem t1) t1 else t1)"

text \<open>
  The loop of \<open>path_from_root_to_block\<close>: the last block id and the path, its start first. The inner
  \<open>None\<close> is the early return.
\<close>

partial_function (option) path_loop ::
  "BlockTree \<Rightarrow> u64 \<Rightarrow> HashValue \<Rightarrow> ExecutedBlock list \<Rightarrow> (HashValue \<times> ExecutedBlock list) option option" where
  "path_loop t root_round cur_block_id res =
     (case bt_get_block t cur_block_id of
        None \<Rightarrow> Some None
      | Some block \<Rightarrow>
          if eb_round block \<le> root_round then Some (Some (cur_block_id, res))
          else path_loop t root_round (eb_parent_id block) (block # res))"

definition path_from_root_to_block ::
  "BlockTree \<Rightarrow> HashValue \<Rightarrow> HashValue \<Rightarrow> u64 \<Rightarrow> ExecutedBlock list option option" where
  "path_from_root_to_block t block_id root_id root_round =
     map_option (\<lambda>r. case r of
         None \<Rightarrow> None
       | Some (cur_block_id, res) \<Rightarrow> if cur_block_id \<noteq> root_id then None else Some res)
     (path_loop t root_round block_id [])"

definition bt_path_from_ordered_root :: "BlockTree \<Rightarrow> HashValue \<Rightarrow> ExecutedBlock list option option" where
  "bt_path_from_ordered_root t block_id =
     (case ordered_root t of
        None \<Rightarrow> None
      | Some root \<Rightarrow> path_from_root_to_block t block_id (ordered_root_id t) (eb_round root))"

definition bt_path_from_commit_root :: "BlockTree \<Rightarrow> HashValue \<Rightarrow> ExecutedBlock list option option" where
  "bt_path_from_commit_root t block_id =
     (case commit_root t of
        None \<Rightarrow> None
      | Some root \<Rightarrow> path_from_root_to_block t block_id (commit_root_id t) (eb_round root))"

section \<open>Links\<close>

definition bt_edges :: "BlockTree \<Rightarrow> (HashValue \<times> HashValue) set" where
  "bt_edges t = {(p, c). \<exists>lb. fmlookup (id_to_block t) p = Some lb \<and> c |\<in>| lb_children lb}"

definition descendants :: "BlockTree \<Rightarrow> HashValue \<Rightarrow> HashValue set" where
  "descendants t i = (bt_edges t)\<^sup>* `` {i}"

text \<open>Blocks are filed under their ids, and a child link leads to a later block that names the parent.\<close>

definition link_ok :: "BlockTree \<Rightarrow> HashValue \<Rightarrow> HashValue \<Rightarrow> bool" where
  "link_ok t p c \<longleftrightarrow> (\<exists>b q. bt_get_block t c = Some b \<and> eb_parent_id b = p
     \<and> bt_get_block t p = Some q \<and> eb_round q < eb_round b)"

definition bt_links :: "BlockTree \<Rightarrow> bool" where
  "bt_links t \<longleftrightarrow> (\<forall>i lb. fmlookup (id_to_block t) i = Some lb \<longrightarrow> lb_id lb = i)
     \<and> (\<forall>p c. (p, c) \<in> bt_edges t \<longrightarrow> link_ok t p c)"

lemma bt_get_block_Some: "bt_get_block t i = Some b \<longleftrightarrow> (\<exists>lb. fmlookup (id_to_block t) i = Some lb \<and> lb_executed_block lb = b)"
  by (simp add: bt_get_block_def)

lemma bt_get_block_id: "bt_links t \<Longrightarrow> bt_get_block t i = Some b \<Longrightarrow> eb_id b = i"
  by (auto simp: bt_links_def bt_get_block_Some lb_id_def)

lemma block_exists_Some: "block_exists t i \<longleftrightarrow> (\<exists>b. bt_get_block t i = Some b)"
  by (auto simp: block_exists_def bt_get_block_def fmlookup_dom_iff)

lemma edge_exists:
  assumes "bt_links t" and "(p, c) \<in> bt_edges t"
  shows "block_exists t p" and "block_exists t c"
  using assms unfolding bt_links_def link_ok_def block_exists_Some by metis+

interpretation bf: forest bt_links bt_edges
proof
  fix t assume l: "bt_links t"
  have "bt_edges t \<subseteq> fset (fmdom (id_to_block t)) \<times> fset (fmdom (id_to_block t))"
    using edge_exists [OF l] by (auto simp: block_exists_def)
  then show "finite (bt_edges t)" by (rule finite_subset) simp
  show "p = q" if "(p, c) \<in> bt_edges t" "(q, c) \<in> bt_edges t" for p q c
    using l that unfolding bt_links_def link_ok_def by (metis option.inject)
  let ?rnd = "\<lambda>i. unat (eb_round (the (bt_get_block t i)))"
  have "bt_edges t \<subseteq> measure ?rnd"
    using l unfolding bt_links_def link_ok_def by (fastforce simp: word_less_nat_alt)
  then show "acyclic (bt_edges t)" by (rule acyclic_subset [OF wf_acyclic [OF wf_measure]])
qed

lemma below_descendants [simp]: "bf.below (bt_edges t) {i} = descendants t i"
  by (simp add: bf.below_def descendants_def)

lemma descendants_exist: "bt_links t \<Longrightarrow> block_exists t r \<Longrightarrow> i \<in> descendants t r \<Longrightarrow> block_exists t i"
  unfolding descendants_def by (auto elim: rtranclE dest: edge_exists)

lemma descendants_refl [simp]: "i \<in> descendants t i"
  by (simp add: descendants_def)

section \<open>Finding the blocks to prune\<close>

text \<open>An order in which a hash set is iterated: every element once.\<close>

definition iteration_order :: "(HashValue fset \<Rightarrow> HashValue list) \<Rightarrow> bool" where
  "iteration_order order \<longleftrightarrow> (\<forall>s. distinct (order s) \<and> set (order s) = fset s)"

lemma those_lookup:
  assumes "bt_links t" and "\<And>c. c \<in> set cs \<Longrightarrow> block_exists t c"
  shows "\<exists>bs. those (map (fmlookup (id_to_block t)) cs) = Some bs \<and> map lb_id bs = cs
    \<and> (\<forall>lb \<in> set bs. fmlookup (id_to_block t) (lb_id lb) = Some lb)"
  using assms(2)
proof (induction cs)
  case (Cons c cs)
  then obtain bs where "those (map (fmlookup (id_to_block t)) cs) = Some bs" "map lb_id bs = cs"
    "\<forall>lb \<in> set bs. fmlookup (id_to_block t) (lb_id lb) = Some lb" by auto
  moreover from Cons.prems [of c] obtain lb where "fmlookup (id_to_block t) c = Some lb"
    by (auto simp: block_exists_def fmlookup_dom_iff)
  moreover from this have "lb_id lb = c" using assms(1) by (simp add: bt_links_def)
  ultimately show ?case by simp
qed simp

definition cut :: "BlockTree \<Rightarrow> HashValue \<Rightarrow> (HashValue \<times> HashValue) set" where
  "cut t n = {(p, c) \<in> bt_edges t. c \<noteq> n}"

lemma cut_subset: "cut t n \<subseteq> bt_edges t"
  by (auto simp: cut_def)

lemma cut_children:
  assumes "iteration_order order" and "fmlookup (id_to_block t) i = Some lb"
  shows "set (filter (\<lambda>c. n \<noteq> c) (order (lb_children lb))) = cut t n `` {i}"
  using assms by (auto simp: iteration_order_def cut_def bt_edges_def)

text \<open>Every block on the list comes after its parent, unless it was on the stack from the start.\<close>

definition parents_first :: "(HashValue \<times> HashValue) set \<Rightarrow> HashValue set \<Rightarrow> HashValue list \<Rightarrow> bool" where
  "parents_first E S vs \<longleftrightarrow> (\<forall>xs x ys. vs = xs @ x # ys \<longrightarrow> x \<in> S \<or> (\<exists>p \<in> set xs. (p, x) \<in> E))"

lemma parents_first_Cons:
  assumes "parents_first E (E `` {b} \<union> R) vs"
  shows "parents_first E (insert b R) (b # vs)"
  using assms unfolding parents_first_def by (fastforce simp: Cons_eq_append_conv)

lemma prune_loop_visits:
  assumes l: "bt_links t" and o: "iteration_order order"
    and "\<forall>lb \<in> set stack. fmlookup (id_to_block t) (lb_id lb) = Some lb" and "distinct (map lb_id stack)"
    and "bf.antichain (cut t n) (set (map lb_id stack))"
  shows "\<exists>vs. prune_loop order t n stack acc = Some (acc @ vs) \<and> distinct vs
    \<and> set vs = bf.below (cut t n) (set (map lb_id stack)) \<and> parents_first (cut t n) (set (map lb_id stack)) vs"
  using assms(3-)
proof (induction "card (bf.below (cut t n) (set (map lb_id stack)))" arbitrary: stack acc rule: less_induct)
  case less
  let ?E = "cut t n"
  show ?case
  proof (cases stack)
    case Nil
    then show ?thesis by (subst prune_loop.simps) (simp add: bf.below_def parents_first_def)
  next
    case (Cons b rest)
    let ?i = "lb_id b" and ?R = "set (map lb_id rest)"
    let ?cs = "filter (\<lambda>c. n \<noteq> c) (order (lb_children b))"
    from Cons less.prems have anti: "bf.antichain ?E (insert ?i ?R)" and ni: "?i \<notin> ?R"
      and b: "fmlookup (id_to_block t) ?i = Some b" by auto
    note ex = bf.expand [OF l cut_subset anti ni] and cs = cut_children [OF o b, of n]
    have "block_exists t c" if "c \<in> set ?cs" for c
      using that cs edge_exists(2) [OF l] cut_subset by blast
    from those_lookup [OF l this] obtain bs where bs: "those (map (fmlookup (id_to_block t)) ?cs) = Some bs"
      "map lb_id bs = ?cs" "\<forall>lb \<in> set bs. fmlookup (id_to_block t) (lb_id lb) = Some lb" by blast
    let ?stack = "rev bs @ rest"
    have m: "map lb_id ?stack = rev ?cs @ map lb_id rest" by (simp only: map_append rev_map [symmetric] bs(2))
    have ids: "set (map lb_id ?stack) = ?E `` {?i} \<union> ?R" unfolding m by (simp only: set_append set_rev cs)
    have fin: "finite (bf.below ?E (set (map lb_id stack)))" by (rule bf.below_finite [OF l cut_subset]) simp
    have stack: "bf.below ?E (set (map lb_id stack)) = insert ?i (bf.below ?E (set (map lb_id ?stack)))"
      using ex(3) by (simp only: Cons ids list.simps list.set)
    have smaller: "card (bf.below ?E (set (map lb_id ?stack))) < card (bf.below ?E (set (map lb_id stack)))"
      using fin ex(4) unfolding stack ids by (simp add: card_insert_disjoint)
    have "distinct (rev ?cs)" using o by (simp add: iteration_order_def)
    moreover have "set (rev ?cs) \<inter> ?R = {}" using ex(2) by (simp only: set_rev cs)
    ultimately have d: "distinct (map lb_id ?stack)"
      using less.prems(2) unfolding m distinct_append by (simp add: Cons)
    have lk: "\<forall>lb \<in> set ?stack. fmlookup (id_to_block t) (lb_id lb) = Some lb"
      using less.prems(1) bs(3) by (auto simp: Cons)
    from less.hyps [OF smaller lk d, of "acc @ [?i]"] ex(1)
    obtain vs where vs: "prune_loop order t n ?stack (acc @ [?i]) = Some ((acc @ [?i]) @ vs)" "distinct vs"
      "set vs = bf.below ?E (set (map lb_id ?stack))" "parents_first ?E (set (map lb_id ?stack)) vs"
      unfolding ids by blast
    have "prune_loop order t n stack acc = Some (acc @ ?i # vs)"
      by (subst prune_loop.simps) (simp add: Cons bs(1) vs(1))
    moreover have "parents_first ?E (set (map lb_id stack)) (?i # vs)"
      using parents_first_Cons [of ?E ?i ?R vs] vs(4) unfolding ids by (simp add: Cons)
    ultimately show ?thesis
      using vs(2,3) ex(4) unfolding stack ids by (intro exI [of _ "?i # vs"]) auto
  qed
qed

lemma find_blocks_to_prune_exact:
  assumes l: "bt_links t" and o: "iteration_order order" and root: "block_exists t (commit_root_id t)"
    and r: "r \<in> descendants t (commit_root_id t)"
  obtains vs where "find_blocks_to_prune order t r = Some vs" and "distinct vs"
    and "set vs = descendants t (commit_root_id t) - descendants t r"
    and "parents_first (bt_edges t) {commit_root_id t} vs"
proof (cases "r = commit_root_id t")
  case True
  then show thesis using that [of "[]"] by (simp add: find_blocks_to_prune_def parents_first_def)
next
  case False
  from root obtain lb where lb: "fmlookup (id_to_block t) (commit_root_id t) = Some lb"
    by (auto simp: block_exists_def fmlookup_dom_iff)
  with l have id: "lb_id lb = commit_root_id t" by (simp add: bt_links_def)
  obtain vs where vs: "prune_loop order t r [lb] [] = Some vs" "distinct vs"
      "set vs = bf.below (cut t r) {commit_root_id t}" "parents_first (cut t r) {commit_root_id t} vs"
    using prune_loop_visits [OF l o, of "[lb]" r "[]"] lb by (auto simp: id bf.antichain_def)
  have "set vs = descendants t (commit_root_id t) - descendants t r"
    using bf.below_cut [OF l, of r "commit_root_id t"] r False vs(3) by (simp add: cut_def)
  moreover have "parents_first (bt_edges t) {commit_root_id t} vs"
    using vs(4) cut_subset unfolding parents_first_def by blast
  ultimately show thesis
    using that [of vs] vs(1,2) False lb by (simp add: find_blocks_to_prune_def linkable_root_def)
qed

section \<open>The invariant of the tree\<close>

text \<open>
  For all parent links a child link exists. The blocks in the buffer of pruned blocks are in the tree, off the commit root, and in an order
  in which no child comes before its parent.
\<close>

definition parents_linked :: "BlockTree \<Rightarrow> bool" where
  "parents_linked t \<longleftrightarrow> (\<forall>i b. bt_get_block t i = Some b \<longrightarrow> block_exists t (eb_parent_id b) \<longrightarrow>
     (eb_parent_id b, i) \<in> bt_edges t)"

definition roots_ok :: "BlockTree \<Rightarrow> bool" where
  "roots_ok t \<longleftrightarrow> block_exists t (commit_root_id t) \<and> ordered_root_id t \<in> descendants t (commit_root_id t)
     \<and> highest_certified_block_id t \<in> descendants t (commit_root_id t)"

definition pruned_order :: "BlockTree \<Rightarrow> HashValue list \<Rightarrow> bool" where
  "pruned_order t ids \<longleftrightarrow> (\<forall>xs x ys. ids = xs @ x # ys \<longrightarrow> (\<forall>p. (p, x) \<in> bt_edges t \<longrightarrow> p \<in> set xs))"

definition pruned_ok :: "BlockTree \<Rightarrow> bool" where
  "pruned_ok t \<longleftrightarrow> distinct (pruned_block_ids t) \<and> (\<forall>i \<in> set (pruned_block_ids t). block_exists t i)
     \<and> set (pruned_block_ids t) \<inter> descendants t (commit_root_id t) = {}
     \<and> pruned_order t (pruned_block_ids t)
     \<and> (\<forall>p. (p, commit_root_id t) \<in> bt_edges t \<longrightarrow> p \<in> set (pruned_block_ids t))"

definition bt_inv :: "BlockTree \<Rightarrow> bool" where
  "bt_inv t \<longleftrightarrow> bt_links t \<and> parents_linked t \<and> roots_ok t \<and> pruned_ok t"

text \<open>The invariant depends only on these fields.\<close>

lemma bt_inv_cong:
  assumes "id_to_block t' = id_to_block t" and "commit_root_id t' = commit_root_id t"
    and "pruned_block_ids t' = pruned_block_ids t"
    and "ordered_root_id t' \<in> descendants t (commit_root_id t)"
    and "highest_certified_block_id t' \<in> descendants t (commit_root_id t)" and "bt_inv t"
  shows "bt_inv t'"
proof -
  have g: "bt_get_block t' = bt_get_block t" and e: "bt_edges t' = bt_edges t"
    and x: "block_exists t' = block_exists t"
    using assms(1) by (auto simp: bt_get_block_def bt_edges_def block_exists_def fun_eq_iff)
  then have d: "descendants t' = descendants t" by (simp add: descendants_def fun_eq_iff)
  from assms show ?thesis
    by (simp add: bt_inv_def bt_links_def link_ok_def parents_linked_def roots_ok_def pruned_ok_def
        pruned_order_def g e x d)
qed

lemma bt_new_inv:
  assumes "bt_new root qc oc li m tc = Some t" and "eb_parent_id root \<noteq> eb_id root"
  shows "bt_inv t"
proof -
  from assms(1) have t: "id_to_block t = fmupd (eb_id root) (lb_new root) fmempty" "commit_root_id t = eb_id root"
    "ordered_root_id t = eb_id root" "highest_certified_block_id t = eb_id root" "pruned_block_ids t = []"
    by (auto simp: bt_new_def split: if_splits)
  then have e: "bt_edges t = {}" by (auto simp: bt_edges_def lb_new_def split: if_splits)
  with t assms(2) show ?thesis
    by (auto simp: bt_inv_def bt_links_def parents_linked_def roots_ok_def pruned_ok_def pruned_order_def
        block_exists_def bt_get_block_def lb_id_def lb_new_def split: if_splits)
qed

section \<open>Insertion\<close>

text \<open>
  What the caller knows of a block it inserts: its round is above that of the parent it names, as
  for every well-formed block whose parent has been certified, and no block of the tree names it
  as its parent, because blocks are inserted after their parents and name them by hash.
\<close>

definition insertable :: "BlockTree \<Rightarrow> ExecutedBlock \<Rightarrow> bool" where
  "insertable t b \<longleftrightarrow> bt_get_block t (eb_id b) \<noteq> None \<or>
     (\<forall>p. bt_get_block t (eb_parent_id b) = Some p \<longrightarrow> eb_round p < eb_round b) \<and>
     (\<forall>i c. bt_get_block t i = Some c \<longrightarrow> eb_parent_id c \<noteq> eb_id b)"

lemma insert_block_cases:
  assumes "bt_links t"
  obtains (existing) b' where "bt_get_block t (eb_id b) = Some b'"
      "eb_state_compute_result b' = eb_state_compute_result b" "insert_block b t = (Ok b', t)"
  | (conflict) b' where "bt_get_block t (eb_id b) = Some b'"
      "eb_state_compute_result b' \<noteq> eb_state_compute_result b" "insert_block b t = (Panic, t)"
  | (orphan) "bt_get_block t (eb_id b) = None" "\<not> block_exists t (eb_parent_id b)"
      "insert_block b t = (Err (Msg ''Parent block not found''), t)"
  | (added) lb where "bt_get_block t (eb_id b) = None" "fmlookup (id_to_block t) (eb_parent_id b) = Some lb"
      "eb_parent_id b \<noteq> eb_id b"
      "insert_block b t = (Ok b, t\<lparr>id_to_block := fmupd (eb_id b) (lb_new b)
         (fmupd (eb_parent_id b) (lb\<lparr>lb_children := finsert (eb_id b) (lb_children lb)\<rparr>) (id_to_block t))\<rparr>)"
proof (cases "bt_get_block t (eb_id b)")
  case (Some b')
  with existing conflict show thesis by (auto simp: insert_block_def)
next
  case None
  show thesis
  proof (cases "fmlookup (id_to_block t) (eb_parent_id b)")
    case (Some lb)
    have ne: "eb_parent_id b \<noteq> eb_id b" using Some None by (auto simp: bt_get_block_def)
    have "eb_id b |\<notin>| lb_children lb"
      using edge_exists(2) [OF assms, of "eb_parent_id b" "eb_id b"] None Some
      by (auto simp: bt_edges_def block_exists_Some)
    moreover have "eb_id b |\<notin>| fmdom (id_to_block t)" using None by (auto simp: bt_get_block_def fmlookup_dom_iff)
    ultimately have "insert_block b t = (Ok b, t\<lparr>id_to_block := fmupd (eb_id b) (lb_new b)
         (fmupd (eb_parent_id b) (lb\<lparr>lb_children := finsert (eb_id b) (lb_children lb)\<rparr>) (id_to_block t))\<rparr>)"
      using None Some ne by (auto simp: insert_block_def add_child_def Let_def)
    with added None Some ne show thesis by blast
  qed (use orphan None in \<open>auto simp: insert_block_def block_exists_def fmlookup_dom_iff\<close>)
qed

lemma added_leaf:
  assumes l: "bt_links t" and n: "bt_get_block t (eb_id b) = None"
    and lb: "fmlookup (id_to_block t) (eb_parent_id b) = Some lb" and "eb_parent_id b \<noteq> eb_id b"
  defines "t' \<equiv> t\<lparr>id_to_block := fmupd (eb_id b) (lb_new b)
         (fmupd (eb_parent_id b) (lb\<lparr>lb_children := finsert (eb_id b) (lb_children lb)\<rparr>) (id_to_block t))\<rparr>"
  shows "bt_edges t' = insert (eb_parent_id b, eb_id b) (bt_edges t)"
    and "bt_get_block t' = (bt_get_block t)(eb_id b \<mapsto> b)"
    and "(p, eb_id b) \<notin> bt_edges t" and "(eb_id b, c) \<notin> bt_edges t"
proof -
  have nd: "fmlookup (id_to_block t) (eb_id b) = None" using n by (simp add: bt_get_block_def)
  show "bt_edges t' = insert (eb_parent_id b, eb_id b) (bt_edges t)"
    using lb nd assms(4) by (auto simp: bt_edges_def t'_def lb_new_def split: if_splits)
  show "bt_get_block t' = (bt_get_block t)(eb_id b \<mapsto> b)"
    using lb nd assms(4) by (auto simp: bt_get_block_def t'_def lb_new_def fun_eq_iff)
  show "(p, eb_id b) \<notin> bt_edges t" "(eb_id b, c) \<notin> bt_edges t"
    using edge_exists [OF l] n unfolding block_exists_Some by (metis option.distinct(1))+
qed

lemma leaf_rtrancl:
  assumes "\<And>c. (n, c) \<notin> E" and "(x, y) \<in> (insert (p, n) E)\<^sup>*" and "y \<noteq> n"
  shows "(x, y) \<in> E\<^sup>*"
  using assms(2,3)
proof (induction rule: rtrancl_induct)
  case (step y z)
  then show ?case using assms(1) by (metis Pair_inject insertE rtrancl.rtrancl_into_rtrancl)
qed simp

lemma insert_block_inv:
  assumes inv: "bt_inv t" and ok: "insertable t b" and "insert_block b t = (r, t')"
  shows "bt_inv t'"
proof -
  from inv have l: "bt_links t" by (simp add: bt_inv_def)
  from l show ?thesis
  proof (cases rule: insert_block_cases [where b = b])
    case (added lb)
    let ?n = "eb_id b" and ?p = "eb_parent_id b"
    from added(4) assms(3) have t': "t' = t\<lparr>id_to_block := fmupd ?n (lb_new b)
         (fmupd ?p (lb\<lparr>lb_children := finsert ?n (lb_children lb)\<rparr>) (id_to_block t))\<rparr>" by simp
    note leaf = added_leaf [OF l added(1-3), folded t']
    have same: "commit_root_id t' = commit_root_id t" "ordered_root_id t' = ordered_root_id t"
      "highest_certified_block_id t' = highest_certified_block_id t" "pruned_block_ids t' = pruned_block_ids t"
      by (simp_all add: t')
    have ex: "block_exists t' i \<longleftrightarrow> i = ?n \<or> block_exists t i" for i by (auto simp: block_exists_Some leaf(2))
    have new: "\<not> block_exists t ?n" using added(1) by (simp add: block_exists_Some)
    have up: "descendants t i \<subseteq> descendants t' i" for i
      unfolding descendants_def leaf(1) by (intro Image_mono rtrancl_mono) auto
    have down: "descendants t' i \<subseteq> insert ?n (descendants t i)" for i
      using leaf_rtrancl [OF leaf(4)] unfolding descendants_def leaf(1) by blast
    have "link_ok t' q c" if "(q, c) \<in> bt_edges t'" for q c
    proof (cases "(q, c) = (?p, ?n)")
      case True
      then show ?thesis
        using added ok by (auto simp: link_ok_def leaf(2) insertable_def bt_get_block_def)
    next
      case False
      with that leaf(1) have "link_ok t q c" "(q, c) \<in> bt_edges t" using l by (auto simp: bt_links_def)
      with leaf(3,4) show ?thesis unfolding link_ok_def leaf(2) by (metis fun_upd_other)
    qed
    then have "bt_links t'" using l by (auto simp: bt_links_def t' lb_id_def lb_new_def added(2) split: if_splits)
    moreover have "parents_linked t'"
      using inv ok added(1) by (auto simp: bt_inv_def parents_linked_def insertable_def leaf(1,2) ex split: if_splits)
    moreover have "roots_ok t'" using inv up by (auto simp: bt_inv_def roots_ok_def same ex)
    moreover have "pruned_ok t'"
      using inv new down [of "commit_root_id t"] leaf(1)
      unfolding bt_inv_def pruned_ok_def pruned_order_def same ex roots_ok_def by auto
    ultimately show ?thesis by (simp add: bt_inv_def)
  qed (use assms(3) inv in auto)
qed

section \<open>Certificates and the ordered root\<close>

text \<open>A certified block of a higher round than any before extends the committed one.\<close>

definition extends_commit :: "BlockTree \<Rightarrow> QuorumCert \<Rightarrow> bool" where
  "extends_commit t qc \<longleftrightarrow> (\<forall>b h. bt_get_block t (bi_id (qc_certified_block qc)) = Some b \<longrightarrow>
     highest_certified_block t = Some h \<longrightarrow> eb_round b > eb_round h \<longrightarrow>
     bi_id (qc_certified_block qc) \<in> descendants t (commit_root_id t))"

lemma roots_exist:
  assumes "bt_inv t"
  shows "\<exists>b. commit_root t = Some b" and "\<exists>b. ordered_root t = Some b" and "\<exists>b. highest_certified_block t = Some b"
  using assms descendants_exist [of t "commit_root_id t"]
  unfolding bt_inv_def roots_ok_def commit_root_def ordered_root_def highest_certified_block_def block_exists_Some
  by metis+

lemma insert_quorum_cert_inv:
  assumes inv: "bt_inv t" and "extends_commit t qc" and ins: "insert_quorum_cert qc t = (r, t')"
  shows "bt_inv t'" and "r \<noteq> Panic"
proof -
  obtain h where h: "highest_certified_block t = Some h" using roots_exist(3) [OF inv] by blast
  have "bt_inv t' \<and> r \<noteq> Panic"
  proof (cases "bt_get_block t (bi_id (qc_certified_block qc))")
    case None
    with ins inv show ?thesis by (auto simp: insert_quorum_cert_def)
  next
    case (Some b)
    with inv have id: "eb_id b = bi_id (qc_certified_block qc)" using bt_get_block_id by (auto simp: bt_inv_def)
    from ins Some h have r: "r = Ok ()" and f: "id_to_block t' = id_to_block t" "commit_root_id t' = commit_root_id t"
      "pruned_block_ids t' = pruned_block_ids t" "ordered_root_id t' = ordered_root_id t"
      "highest_certified_block_id t' = (if eb_round b > eb_round h then eb_id b else highest_certified_block_id t)"
      by (auto simp: insert_quorum_cert_def Let_def split: if_splits)
    from inv have ro: "ordered_root_id t \<in> descendants t (commit_root_id t)"
      "highest_certified_block_id t \<in> descendants t (commit_root_id t)" by (simp_all add: bt_inv_def roots_ok_def)
    have "highest_certified_block_id t' \<in> descendants t (commit_root_id t)"
      using assms(2) Some h id f(5) ro(2) unfolding extends_commit_def by auto
    with bt_inv_cong [OF f(1-3) _ _ inv] f(4) ro(1) r show ?thesis by simp
  qed
  then show "bt_inv t'" and "r \<noteq> Panic" by auto
qed

lemma update_ordered_root_inv:
  assumes "bt_inv t" and "i \<in> descendants t (commit_root_id t)" and "update_ordered_root_id i t = Some t'"
  shows "bt_inv t'"
proof -
  from assms(3) have "t' = t\<lparr>ordered_root_id := i\<rparr>" by (auto simp: update_ordered_root_id_def split: if_splits)
  with assms(1,2) show ?thesis
    by (intro bt_inv_cong [OF _ _ _ _ _ assms(1)]) (auto simp: bt_inv_def roots_ok_def)
qed

section \<open>Pruning\<close>

lemma forget_one:
  assumes inv: "bt_inv t" and ids: "pruned_block_ids t = x # rest"
  defines "t' \<equiv> remove_block x (t\<lparr>pruned_block_ids := rest\<rparr>)"
  shows "bt_inv t'" and "descendants t' (commit_root_id t) = descendants t (commit_root_id t)"
    and "i \<noteq> x \<Longrightarrow> fmlookup (id_to_block t') i = fmlookup (id_to_block t) i"
proof -
  let ?r = "commit_root_id t"
  from inv have l: "bt_links t" and p: "pruned_ok t" and ro: "roots_ok t" by (simp_all add: bt_inv_def)
  from p ids have xr: "x \<notin> descendants t ?r" "x \<notin> set rest" by (auto simp: pruned_ok_def)
  from p ids have po: "pruned_order t (x # rest)" by (simp add: pruned_ok_def)
  from this [unfolded pruned_order_def, rule_format, of "[]" x rest] have into: "(q, x) \<notin> bt_edges t" for q by auto
  have e: "bt_edges t' = {(q, c) \<in> bt_edges t. q \<noteq> x}" by (auto simp: bt_edges_def t'_def remove_block_def split: if_splits)
  have g: "bt_get_block t' i = (if i = x then None else bt_get_block t i)" for i
    by (simp add: bt_get_block_def t'_def remove_block_def)
  have ex: "block_exists t' i \<longleftrightarrow> i \<noteq> x \<and> block_exists t i" for i by (simp add: block_exists_Some g)
  have "(?r, i) \<in> (bt_edges t')\<^sup>*" if "(?r, i) \<in> (bt_edges t)\<^sup>*" for i
    using that
  proof (induction rule: rtrancl_induct)
    case (step y z)
    with xr(1) have "y \<noteq> x" by (auto simp: descendants_def)
    with step e show ?case by (auto intro: rtrancl_into_rtrancl)
  qed simp
  moreover have "(bt_edges t')\<^sup>* \<subseteq> (bt_edges t)\<^sup>*" by (rule rtrancl_mono) (auto simp: e)
  ultimately show d: "descendants t' ?r = descendants t ?r" unfolding descendants_def by blast
  show "i \<noteq> x \<Longrightarrow> fmlookup (id_to_block t') i = fmlookup (id_to_block t) i"
    by (simp add: t'_def remove_block_def)
  have same: "commit_root_id t' = ?r" "ordered_root_id t' = ordered_root_id t" "pruned_block_ids t' = rest"
    "highest_certified_block_id t' = highest_certified_block_id t" by (simp_all add: t'_def remove_block_def)
  have "link_ok t' q c" if "(q, c) \<in> bt_edges t'" for q c
  proof -
    from that e have qc: "(q, c) \<in> bt_edges t" "q \<noteq> x" by auto
    with into have "c \<noteq> x" by blast
    with qc l show ?thesis by (simp add: bt_links_def link_ok_def g)
  qed
  then have "bt_links t'"
    using l by (auto simp: bt_links_def t'_def remove_block_def split: if_splits)
  moreover have "parents_linked t'"
    using inv by (auto simp: bt_inv_def parents_linked_def e g ex split: if_splits)
  moreover have "roots_ok t'" using ro xr(1) by (auto simp: roots_ok_def same d ex)
  moreover have "pruned_order t' rest"
    unfolding pruned_order_def
  proof (intro allI impI)
    fix xs y ys q assume "rest = xs @ y # ys" "(q, y) \<in> bt_edges t'"
    with po [unfolded pruned_order_def, rule_format, of "x # xs" y ys q] e have "q \<in> set (x # xs)" by simp
    with \<open>(q, y) \<in> bt_edges t'\<close> e show "q \<in> set xs" by auto
  qed
  then have "pruned_ok t'" using p ids xr by (auto simp: pruned_ok_def same d ex e)
  ultimately show "bt_inv t'" by (simp add: bt_inv_def)
qed

lemma forget_pruned_inv:
  assumes "bt_inv t"
  shows "bt_inv (forget_pruned n t)"
    and "descendants (forget_pruned n t) (commit_root_id t) = descendants t (commit_root_id t)"
    and "i \<notin> set (pruned_block_ids t) \<Longrightarrow> fmlookup (id_to_block (forget_pruned n t)) i = fmlookup (id_to_block t) i"
    and "pruned_block_ids (forget_pruned n t) = drop n (pruned_block_ids t)"
    and "commit_root_id (forget_pruned n t) = commit_root_id t"
    and "max_pruned_blocks_in_mem (forget_pruned n t) = max_pruned_blocks_in_mem t"
proof -
  have "bt_inv (forget_pruned n t) \<and> descendants (forget_pruned n t) (commit_root_id t) = descendants t (commit_root_id t)
    \<and> (\<forall>i. i \<notin> set (pruned_block_ids t) \<longrightarrow> fmlookup (id_to_block (forget_pruned n t)) i = fmlookup (id_to_block t) i)
    \<and> pruned_block_ids (forget_pruned n t) = drop n (pruned_block_ids t)
    \<and> commit_root_id (forget_pruned n t) = commit_root_id t
    \<and> max_pruned_blocks_in_mem (forget_pruned n t) = max_pruned_blocks_in_mem t"
    using assms
  proof (induction n arbitrary: t)
    case (Suc n)
    show ?case
    proof (cases "pruned_block_ids t")
      case Nil
      with Suc show ?thesis by simp
    next
      case (Cons x rest)
      let ?t = "remove_block x (t\<lparr>pruned_block_ids := rest\<rparr>)"
      have f: "pruned_block_ids ?t = rest" "commit_root_id ?t = commit_root_id t"
        "max_pruned_blocks_in_mem ?t = max_pruned_blocks_in_mem t" by (simp_all add: remove_block_def)
      note one = forget_one [OF Suc.prems Cons]
      from Suc.IH [OF one(1)] one(2,3) Cons f show ?thesis by auto
    qed
  qed simp
  then show "bt_inv (forget_pruned n t)"
    and "descendants (forget_pruned n t) (commit_root_id t) = descendants t (commit_root_id t)"
    and "i \<notin> set (pruned_block_ids t) \<Longrightarrow> fmlookup (id_to_block (forget_pruned n t)) i = fmlookup (id_to_block t) i"
    and "pruned_block_ids (forget_pruned n t) = drop n (pruned_block_ids t)"
    and "commit_root_id (forget_pruned n t) = commit_root_id t"
    and "max_pruned_blocks_in_mem (forget_pruned n t) = max_pruned_blocks_in_mem t" by auto
qed

text \<open>A block may become the commit root when the tree still needs only what descends from it.\<close>

definition committable :: "BlockTree \<Rightarrow> HashValue \<Rightarrow> bool" where
  "committable t r \<longleftrightarrow> r \<in> descendants t (commit_root_id t) \<and> ordered_root_id t \<in> descendants t r
     \<and> highest_certified_block_id t \<in> descendants t r"

lemma descendants_trans: "i \<in> descendants t r \<Longrightarrow> j \<in> descendants t i \<Longrightarrow> j \<in> descendants t r"
  unfolding descendants_def by (auto intro: rtrancl_trans)

lemma new_commit_root_inv:
  assumes inv: "bt_inv t" and c: "committable t r" and vs: "distinct vs"
      "set vs = descendants t (commit_root_id t) - descendants t r" "parents_first (bt_edges t) {commit_root_id t} vs"
  defines "t1 \<equiv> t\<lparr>commit_root_id := r, pruned_block_ids := pruned_block_ids t @ vs\<rparr>"
  shows "bt_inv t1" and "descendants t1 = descendants t"
proof -
  let ?root = "commit_root_id t" and ?P = "pruned_block_ids t"
  from inv have l: "bt_links t" and ro: "block_exists t ?root" and p: "pruned_ok t" by (simp_all add: bt_inv_def roots_ok_def)
  from c have r: "r \<in> descendants t ?root" by (simp add: committable_def)
  have g: "bt_get_block t1 = bt_get_block t" "bt_edges t1 = bt_edges t" "block_exists t1 = block_exists t"
    by (simp_all add: t1_def bt_get_block_def bt_edges_def block_exists_def fun_eq_iff)
  then show d: "descendants t1 = descendants t" by (simp add: descendants_def fun_eq_iff)
  have sub: "descendants t r \<subseteq> descendants t ?root" using descendants_trans [OF r] by blast
  have P: "set ?P \<inter> descendants t ?root = {}" "pruned_order t ?P" using p by (simp_all add: pruned_ok_def)
  have rootp: "q \<in> set ?P" if "(q, ?root) \<in> bt_edges t" for q using p that by (simp add: pruned_ok_def)
  have "pruned_order t1 (?P @ vs)"
    unfolding pruned_order_def g
  proof (intro allI impI)
    fix xs x ys q assume split: "?P @ vs = xs @ x # ys" and q: "(q, x) \<in> bt_edges t"
    then consider us where "?P = xs @ x # us" | us where "xs = ?P @ us" "vs = us @ x # ys"
      by (auto simp: append_eq_append_conv2 append_eq_Cons_conv Cons_eq_append_conv)
    then show "q \<in> set xs"
    proof cases
      case 1
      with P(2) q show ?thesis unfolding pruned_order_def by blast
    next
      case 2
      with vs(3) consider "x = ?root" | q' where "q' \<in> set us" "(q', x) \<in> bt_edges t"
        unfolding parents_first_def by blast
      then show ?thesis using 2(1) q rootp bf.one_parent [OF l] by cases auto
    qed
  qed
  moreover have "q \<in> set (?P @ vs)" if q: "(q, r) \<in> bt_edges t" for q
  proof (cases "r = ?root")
    case False
    with r have "(?root, q) \<in> (bt_edges t)\<^sup>*"
      using bf.above_parent [OF l order_refl q, of ?root] by (auto simp: descendants_def)
    with bf.no_way_back [OF l order_refl q] vs(2) show ?thesis by (auto simp: descendants_def)
  qed (use q rootp in auto)
  ultimately have "pruned_ok t1"
    using p P(1) vs sub descendants_exist [OF l ro] unfolding pruned_ok_def g d
    by (auto simp: t1_def)
  moreover have "roots_ok t1"
    using c descendants_exist [OF l ro r] unfolding roots_ok_def g d by (simp add: committable_def t1_def)
  moreover have "bt_links t1" using l by (simp add: bt_links_def link_ok_def g) (simp add: t1_def)
  moreover have "parents_linked t1" using inv by (simp add: bt_inv_def parents_linked_def g)
  ultimately show "bt_inv t1" by (simp add: bt_inv_def)
qed

lemma prune_to_committed:
  assumes inv: "bt_inv t" and o: "iteration_order order" and c: "committable t r"
    and f: "find_blocks_to_prune order t r = Some vs"
  defines "t' \<equiv> update_commit_id_and_process_pruned_blocks r vs t"
  shows "bt_inv t'" and "commit_root_id t' = r" and "descendants t' r = descendants t r"
    and "i \<in> descendants t r \<Longrightarrow> bt_get_block t' i = bt_get_block t i"
    and "length (pruned_block_ids t') \<le> max_pruned_blocks_in_mem t"
proof -
  from inv have l: "bt_links t" and ro: "block_exists t (commit_root_id t)" by (simp_all add: bt_inv_def roots_ok_def)
  from c have r: "r \<in> descendants t (commit_root_id t)" by (simp add: committable_def)
  obtain vs' where "find_blocks_to_prune order t r = Some vs'" and vs: "distinct vs'"
    "set vs' = descendants t (commit_root_id t) - descendants t r"
    "parents_first (bt_edges t) {commit_root_id t} vs'"
    by (rule find_blocks_to_prune_exact [OF l o ro r])
  with f have "vs' = vs" by simp
  note vs = vs [unfolded this]
  let ?t1 = "t\<lparr>commit_root_id := r, pruned_block_ids := pruned_block_ids t @ vs\<rparr>"
  note one = new_commit_root_inv [OF inv c vs]
  let ?n = "if length (pruned_block_ids ?t1) > max_pruned_blocks_in_mem ?t1
    then length (pruned_block_ids ?t1) - max_pruned_blocks_in_mem ?t1 else 0"
  have t': "t' = forget_pruned ?n ?t1"
    by (simp add: t'_def update_commit_id_and_process_pruned_blocks_def Let_def)
  note fp = forget_pruned_inv [OF one(1), where n = ?n, folded t']
  show "bt_inv t'" by (rule fp(1))
  show "commit_root_id t' = r" using fp(5) by simp
  show d: "descendants t' r = descendants t r" using fp(2) one(2) by simp
  have "set (pruned_block_ids t @ vs) \<inter> descendants t r = {}"
    using one(1) one(2) unfolding bt_inv_def pruned_ok_def by simp
  then have "i \<in> descendants t r \<Longrightarrow> i \<notin> set (pruned_block_ids t @ vs)" by blast
  then show "i \<in> descendants t r \<Longrightarrow> bt_get_block t' i = bt_get_block t i"
    using fp(3) [of i] by (simp add: bt_get_block_def)
  show "length (pruned_block_ids t') \<le> max_pruned_blocks_in_mem t"
    using fp(4) by (simp split: if_splits)
qed

section \<open>Paths\<close>

text \<open>\<open>linked t r bs\<close>: blocks of the tree, the first a child of \<open>r\<close> and every other one of its predecessor.\<close>

fun linked :: "BlockTree \<Rightarrow> HashValue \<Rightarrow> ExecutedBlock list \<Rightarrow> bool" where
  "linked t r [] \<longleftrightarrow> True"
| "linked t r (b # bs) \<longleftrightarrow> bt_get_block t (eb_id b) = Some b \<and> eb_parent_id b = r \<and> linked t (eb_id b) bs"

definition path_end :: "HashValue \<Rightarrow> ExecutedBlock list \<Rightarrow> HashValue" where
  "path_end r bs = (if bs = [] then r else eb_id (last bs))"

lemma linked_snoc:
  "linked t r (bs @ [b]) \<longleftrightarrow> linked t r bs \<and> eb_parent_id b = path_end r bs \<and> bt_get_block t (eb_id b) = Some b"
  by (induction bs arbitrary: r) (auto simp: path_end_def)

lemma parent_round:
  assumes "bt_inv t" and "bt_get_block t i = Some b" and "bt_get_block t (eb_parent_id b) = Some p"
  shows "eb_round p < eb_round b"
proof -
  have "(eb_parent_id b, i) \<in> bt_edges t"
    using assms unfolding bt_inv_def parents_linked_def block_exists_Some by blast
  with assms show ?thesis unfolding bt_inv_def bt_links_def link_ok_def by fastforce
qed

lemma path_loop_returns:
  assumes "bt_inv t"
  shows "\<exists>r. path_loop t rr i res = Some r \<and> (\<forall>j bs. r = Some (j, bs) \<longrightarrow>
    (\<exists>cs b. bs = cs @ res \<and> linked t j cs \<and> path_end j cs = i \<and> bt_get_block t j = Some b \<and> eb_round b \<le> rr))"
proof (cases "bt_get_block t i")
  case None
  then show ?thesis by (subst path_loop.simps) simp
next
  case (Some b)
  then show ?thesis
  proof (induction "unat (eb_round b)" arbitrary: i b res rule: less_induct)
    case less
    show ?case
    proof (cases "eb_round b \<le> rr")
      case True
      with less.prems have "path_loop t rr i res = Some (Some (i, res))" by (subst path_loop.simps) simp
      with less.prems True show ?thesis by (auto simp: path_end_def intro!: exI [of _ "[]"])
    next
      case False
      with less.prems have step: "path_loop t rr i res = path_loop t rr (eb_parent_id b) (b # res)"
        by (subst path_loop.simps) simp
      have id: "eb_id b = i" using less.prems assms bt_get_block_id by (auto simp: bt_inv_def)
      show ?thesis
      proof (cases "bt_get_block t (eb_parent_id b)")
        case None
        then have "path_loop t rr (eb_parent_id b) (b # res) = Some None" by (subst path_loop.simps) simp
        with step show ?thesis by simp
      next
        case (Some p)
        with parent_round [OF assms less.prems] have "unat (eb_round p) < unat (eb_round b)"
          by (simp add: word_less_nat_alt)
        from less.hyps [OF this Some, of "b # res"] obtain r where
          r: "path_loop t rr (eb_parent_id b) (b # res) = Some r" "\<forall>j bs. r = Some (j, bs) \<longrightarrow>
            (\<exists>cs c. bs = cs @ b # res \<and> linked t j cs \<and> path_end j cs = eb_parent_id b
               \<and> bt_get_block t j = Some c \<and> eb_round c \<le> rr)" by blast
        have "\<exists>cs c. bs = cs @ res \<and> linked t j cs \<and> path_end j cs = i \<and> bt_get_block t j = Some c \<and> eb_round c \<le> rr"
          if "r = Some (j, bs)" for j bs
        proof -
          from r(2) that obtain cs c where "bs = (cs @ [b]) @ res" "linked t j (cs @ [b])"
            "bt_get_block t j = Some c" "eb_round c \<le> rr"
            using less.prems id by (auto simp: linked_snoc)
          then show ?thesis using id by (intro exI [of _ "cs @ [b]"]) (auto simp: path_end_def)
        qed
        with r(1) step show ?thesis by simp
      qed
    qed
  qed
qed

lemma path_loop_finds:
  assumes inv: "bt_inv t" and "linked t j cs" and "bt_get_block t j = Some bj"
  shows "path_loop t (eb_round bj) (path_end j cs) res = Some (Some (j, cs @ res))
    \<and> (cs \<noteq> [] \<longrightarrow> eb_round bj < eb_round (last cs))"
  using assms(2)
proof (induction cs arbitrary: res rule: rev_induct)
  case Nil
  with assms(3) show ?case by (subst path_loop.simps) (simp add: path_end_def)
next
  case (snoc b cs)
  then have cs: "linked t j cs" and b: "bt_get_block t (eb_id b) = Some b" "eb_parent_id b = path_end j cs"
    by (auto simp: linked_snoc)
  have "eb_round bj < eb_round b"
  proof (cases "cs = []")
    case True
    with parent_round [OF inv b(1)] b(2) assms(3) show ?thesis by (simp add: path_end_def)
  next
    case False
    with cs have "bt_get_block t (path_end j cs) = Some (last cs)"
      by (cases cs rule: rev_cases) (auto simp: linked_snoc path_end_def)
    with parent_round [OF inv b(1)] b(2) have "eb_round (last cs) < eb_round b" by simp
    with snoc.IH [OF cs] False show ?thesis by (meson order.strict_trans)
  qed
  moreover from this b snoc.IH [OF cs, of "b # res"]
  have "path_loop t (eb_round bj) (eb_id b) res = Some (Some (j, cs @ b # res))"
    by (subst path_loop.simps) simp
  ultimately show ?case by (simp add: path_end_def)
qed

lemma path_from_root_exact:
  assumes inv: "bt_inv t" and r: "bt_get_block t r = Some b"
  shows "\<exists>p. path_from_root_to_block t i r (eb_round b) = Some p
    \<and> (\<forall>bs. p = Some bs \<longleftrightarrow> linked t r bs \<and> path_end r bs = i)"
proof -
  obtain q where q: "path_loop t (eb_round b) i [] = Some q" "\<forall>j bs. q = Some (j, bs) \<longrightarrow>
      linked t j bs \<and> path_end j bs = i"
    using path_loop_returns [OF inv, of "eb_round b" i "[]"] by force
  define p where "p = (case q of None \<Rightarrow> None | Some (j, bs) \<Rightarrow> if j \<noteq> r then None else Some bs)"
  have "path_from_root_to_block t i r (eb_round b) = Some p"
    by (simp add: path_from_root_to_block_def q(1) p_def)
  moreover have "p = Some bs \<longleftrightarrow> linked t r bs \<and> path_end r bs = i" for bs
  proof
    assume "p = Some bs"
    then show "linked t r bs \<and> path_end r bs = i" using q(2) by (auto simp: p_def split: option.splits if_splits)
  next
    assume "linked t r bs \<and> path_end r bs = i"
    with path_loop_finds [OF inv _ r, of bs "[]"] q(1) have "q = Some (r, bs)" by simp
    then show "p = Some bs" by (simp add: p_def)
  qed
  ultimately show ?thesis by blast
qed

section \<open>Runs of the block tree\<close>

text \<open>
  The operations of the tree in any order. Certificates for higher rounds extend what has been
  committed, which is what consensus guarantees, and a block becomes the commit root after it has
  become an ordered one.
\<close>

inductive bt_run :: "(HashValue fset \<Rightarrow> HashValue list) \<Rightarrow> BlockTree \<Rightarrow> bool" for order where
  bt_start: "bt_new root qc oc li m tc = Some t \<Longrightarrow> eb_parent_id root \<noteq> eb_id root \<Longrightarrow> bt_run order t"
| bt_insert: "bt_run order t \<Longrightarrow> insertable t b \<Longrightarrow> insert_block b t = (r, t') \<Longrightarrow> bt_run order t'"
| bt_certify: "bt_run order t \<Longrightarrow> extends_commit t qc \<Longrightarrow> insert_quorum_cert qc t = (r', t') \<Longrightarrow> bt_run order t'"
| bt_ledger_info: "bt_run order t \<Longrightarrow> bt_run order (update_highest_ledger_info li t)"
| bt_timeout: "bt_run order t \<Longrightarrow> bt_run order (replace_timeout_cert tc t)"
| bt_order: "bt_run order t \<Longrightarrow> i \<in> descendants t (ordered_root_id t) \<Longrightarrow>
     update_ordered_root_id i t = Some t' \<Longrightarrow> bt_run order t'"
| bt_commit: "bt_run order t \<Longrightarrow> committable t i \<Longrightarrow> find_blocks_to_prune order t i = Some ids \<Longrightarrow>
     bt_run order (update_commit_id_and_process_pruned_blocks i ids t)"

lemma bt_run_inv:
  assumes "bt_run order t" and o: "iteration_order order"
  shows "bt_inv t"
  using assms(1)
proof (induction rule: bt_run.induct)
  case (bt_start root qc oc li m tc t)
  from bt_new_inv [OF this] show ?case .
next
  case (bt_insert t b r t')
  from insert_block_inv [OF bt_insert.IH bt_insert.hyps(2,3)] show ?case .
next
  case (bt_certify t qc r' t')
  from insert_quorum_cert_inv(1) [OF bt_certify.IH bt_certify.hyps(2,3)] show ?case .
next
  case (bt_ledger_info t li)
  show ?case
    by (rule bt_inv_cong [OF _ _ _ _ _ bt_ledger_info.IH])
      (use bt_ledger_info.IH in \<open>simp_all add: update_highest_ledger_info_def bt_inv_def roots_ok_def\<close>)
next
  case (bt_timeout t tc)
  show ?case
    by (rule bt_inv_cong [OF _ _ _ _ _ bt_timeout.IH])
      (use bt_timeout.IH in \<open>simp_all add: replace_timeout_cert_def bt_inv_def roots_ok_def\<close>)
next
  case (bt_order t i t')
  from bt_order.IH have "ordered_root_id t \<in> descendants t (commit_root_id t)" by (simp add: bt_inv_def roots_ok_def)
  from update_ordered_root_inv [OF bt_order.IH descendants_trans [OF this bt_order.hyps(2)] bt_order.hyps(3)]
  show ?case .
next
  case (bt_commit t i ids)
  from prune_to_committed(1) [OF bt_commit.IH o bt_commit.hyps(2,3)] show ?case .
qed

section \<open>Properties\<close>

text \<open>A root with two children in rounds 1 and 2, and a grandchild below the second one.\<close>

definition sample_block :: "HashValue \<Rightarrow> HashValue \<Rightarrow> Round \<Rightarrow> ExecutedBlock" where
  "sample_block i p rnd = \<lparr>eb_block = \<lparr>blk_id = i, blk_block_data = \<lparr>bd_epoch = 1, bd_round = rnd, bd_timestamp_usecs = 0,
       bd_quorum_cert = \<lparr>qc_vote_data = \<lparr>vd_proposed = bi_empty\<lparr>bi_id := p\<rparr>, vd_parent = bi_empty\<rparr>,
         qc_signed_ledger_info = \<lparr>lis_ledger_info = \<lparr>li_commit_info = bi_empty\<lparr>bi_id := i\<rparr>, li_consensus_data_hash = 0\<rparr>,
           lis_signatures = fmempty\<rparr>\<rparr>, bd_block_type = NilBlock\<rparr>, blk_signature = None\<rparr>,
     eb_state_compute_result = scr_new_dummy\<rparr>"

lemma sample_block_fields [simp]:
  "eb_id (sample_block i p r) = i" "eb_parent_id (sample_block i p r) = p" "eb_round (sample_block i p r) = r"
  by (simp_all add: sample_block_def eb_id_def eb_parent_id_def eb_round_def eb_quorum_cert_def
      blk_quorum_cert_def blk_round_def qc_certified_block_def)

definition sample_tree :: "(HashValue, LinkableBlock) fmap \<Rightarrow> BlockTree" where
  "sample_tree m = \<lparr>id_to_block = m, ordered_root_id = 0, commit_root_id = 0, highest_certified_block_id = 0,
     bt_highest_quorum_cert = eb_quorum_cert (sample_block 0 9 0), bt_highest_timeout_cert = None,
     bt_highest_ordered_cert = eb_quorum_cert (sample_block 0 9 0),
     bt_highest_ledger_info = qc_ledger_info (eb_quorum_cert (sample_block 0 9 0)),
     id_to_quorum_cert = fmupd 9 (eb_quorum_cert (sample_block 0 9 0)) fmempty,
     pruned_block_ids = [], max_pruned_blocks_in_mem = 1\<rparr>"

definition sample_map :: "nat \<Rightarrow> (HashValue, LinkableBlock) fmap" where
  "sample_map n = (let b = sample_block;
       m0 = fmupd 0 (lb_new (b 0 9 0)) fmempty;
       m1 = fmupd 1 (lb_new (b 1 0 1)) (fmupd 0 \<lparr>lb_executed_block = b 0 9 0, lb_children = {|1|}\<rparr> m0);
       m2 = fmupd 2 (lb_new (b 2 0 2)) (fmupd 0 \<lparr>lb_executed_block = b 0 9 0, lb_children = {|2, 1|}\<rparr> m1);
       m3 = fmupd 3 (lb_new (b 3 2 3)) (fmupd 2 \<lparr>lb_executed_block = b 2 0 2, lb_children = {|3|}\<rparr> m2)
     in [m0, m1, m2, m3] ! n)"

lemma sample_quorum_cert [simp]:
  "bi_id (li_commit_info (lis_ledger_info (qc_signed_ledger_info (eb_quorum_cert (sample_block i p r))))) = i"
  "bi_id (vd_proposed (qc_vote_data (eb_quorum_cert (sample_block i p r)))) = p"
  by (simp_all add: sample_block_def eb_quorum_cert_def blk_quorum_cert_def qc_commit_info_def qc_certified_block_def
      lis_commit_info_def)

lemma sample_tree_run:
  "bt_run order (sample_tree (sample_map 0))" "bt_run order (sample_tree (sample_map 1))"
  "bt_run order (sample_tree (sample_map 2))" "bt_run order (sample_tree (sample_map 3))"
proof -
  show 0: "bt_run order (sample_tree (sample_map 0))"
    by (rule bt_start [of "sample_block 0 9 0" "eb_quorum_cert (sample_block 0 9 0)" "eb_quorum_cert (sample_block 0 9 0)"
          "qc_ledger_info (eb_quorum_cert (sample_block 0 9 0))" 1 None])
      (simp_all add: bt_new_def sample_tree_def sample_map_def)
  show 1: "bt_run order (sample_tree (sample_map 1))"
    by (rule bt_insert [OF 0, of "sample_block 1 0 1" "Ok (sample_block 1 0 1)"])
      (auto simp: insertable_def insert_block_def sample_tree_def sample_map_def bt_get_block_def add_child_def lb_new_def Let_def
        split: if_splits)
  show 2: "bt_run order (sample_tree (sample_map 2))"
    by (rule bt_insert [OF 1, of "sample_block 2 0 2" "Ok (sample_block 2 0 2)"])
      (auto simp: insertable_def insert_block_def sample_tree_def sample_map_def bt_get_block_def add_child_def lb_new_def Let_def
        split: if_splits)
  show "bt_run order (sample_tree (sample_map 3))"
    by (rule bt_insert [OF 2, of "sample_block 3 2 3" "Ok (sample_block 3 2 3)"])
      (auto simp: insertable_def insert_block_def sample_tree_def sample_map_def bt_get_block_def add_child_def lb_new_def Let_def
        split: if_splits)
qed

lemma sample_edges: "bt_edges (sample_tree (sample_map 3)) = {(0, 1), (0, 2), (2, 3)}"
  by (auto simp: bt_edges_def sample_tree_def sample_map_def lb_new_def split: if_splits)

definition sample_order :: "HashValue fset \<Rightarrow> HashValue list" where
  "sample_order s = sorted_list_of_fset s"

lemma sample_order_iterates: "iteration_order sample_order"
  by (simp add: iteration_order_def sample_order_def sorted_list_of_fset.rep_eq)



text \<open>
  C32: Pruning is exact and the loop that finds the blocks to prune ends. For a block that becomes
  the commit root, \<open>find_blocks_to_prune\<close> returns every block that descends from the old root and
  not from the new one, once, and the tree that \<open>update_commit_id_and_process_pruned_blocks\<close> leaves
  still holds every descendant of the new root, unchanged, with a buffer of pruned blocks within
  its bound.
\<close>

theorem prune_keeps_descendants:
  assumes "bt_run order t" and "iteration_order order" and "committable t r"
  shows "\<exists>ids. find_blocks_to_prune order t r = Some ids \<and> distinct ids
    \<and> set ids = descendants t (commit_root_id t) - descendants t r
    \<and> commit_root_id (update_commit_id_and_process_pruned_blocks r ids t) = r
    \<and> descendants (update_commit_id_and_process_pruned_blocks r ids t) r = descendants t r
    \<and> (\<forall>i \<in> descendants t r. bt_get_block (update_commit_id_and_process_pruned_blocks r ids t) i = bt_get_block t i)
    \<and> length (pruned_block_ids (update_commit_id_and_process_pruned_blocks r ids t)) \<le> max_pruned_blocks_in_mem t"
proof -
  have inv: "bt_inv t" by (rule bt_run_inv [OF assms(1,2)])
  then have l: "bt_links t" and ro: "block_exists t (commit_root_id t)" by (simp_all add: bt_inv_def roots_ok_def)
  from assms(3) have r: "r \<in> descendants t (commit_root_id t)" by (simp add: committable_def)
  obtain ids where ids: "find_blocks_to_prune order t r = Some ids" "distinct ids"
    "set ids = descendants t (commit_root_id t) - descendants t r"
    by (rule find_blocks_to_prune_exact [OF l assms(2) ro r])
  from prune_to_committed [OF inv assms(2,3) ids(1)] ids show ?thesis by blast
qed

text \<open>The second child is certified and ordered before it is committed.\<close>

definition sample_ordered_tree :: BlockTree where
  "sample_ordered_tree = (snd (insert_quorum_cert (eb_quorum_cert (sample_block 3 2 3)) (sample_tree (sample_map 3))))
     \<lparr>ordered_root_id := 2\<rparr>"

lemma sample_ordered_fields:
  "bt_edges sample_ordered_tree = {(0, 1), (0, 2), (2, 3)}" "commit_root_id sample_ordered_tree = 0"
  "ordered_root_id sample_ordered_tree = 2" "highest_certified_block_id sample_ordered_tree = 2"
proof -
  let ?t = "sample_tree (sample_map 3)"
  have g: "bt_get_block ?t 2 = Some (sample_block 2 0 2)" "bt_get_block ?t 0 = Some (sample_block 0 9 0)"
    by (simp_all add: bt_get_block_def sample_tree_def sample_map_def)
  then have h: "highest_certified_block ?t = Some (sample_block 0 9 0)"
    by (simp add: highest_certified_block_def) (simp add: sample_tree_def)
  show "bt_edges sample_ordered_tree = {(0, 1), (0, 2), (2, 3)}"
    using sample_edges by (simp add: sample_ordered_tree_def insert_quorum_cert_def g h bt_edges_def Let_def)
  show "commit_root_id sample_ordered_tree = 0" "ordered_root_id sample_ordered_tree = 2"
    "highest_certified_block_id sample_ordered_tree = 2"
    by (simp_all add: sample_ordered_tree_def insert_quorum_cert_def g h Let_def) (simp add: sample_tree_def)
qed

lemma sample_descendants:
  assumes "bt_edges t = {(0, 1), (0, 2), (2, 3)}"
  shows "descendants t 2 = {2, 3}" and "descendants t 0 = {0, 1, 2, 3}"
proof -
  have "x = 2 \<or> x = 3" if "(2, x) \<in> (bt_edges t)\<^sup>*" for x
    using that by (induction rule: rtrancl_induct) (auto simp: assms)
  moreover have "x = 0 \<or> x = 1 \<or> x = 2 \<or> x = 3" if "(0, x) \<in> (bt_edges t)\<^sup>*" for x
    using that by (induction rule: rtrancl_induct) (auto simp: assms)
  moreover have "(0, 1) \<in> (bt_edges t)\<^sup>*" "(0, 2) \<in> (bt_edges t)\<^sup>*" "(2, 3) \<in> (bt_edges t)\<^sup>*"
    by (auto simp: assms)
  moreover from this have "(0, 3) \<in> (bt_edges t)\<^sup>*" by (meson rtrancl_trans)
  ultimately show "descendants t 2 = {2, 3}" and "descendants t 0 = {0, 1, 2, 3}"
    unfolding descendants_def by auto
qed

lemma sample_committable: "committable sample_ordered_tree 2"
  using sample_descendants [OF sample_ordered_fields(1)] sample_ordered_fields by (simp add: committable_def)

lemma sample_ordered_run: "bt_run order sample_ordered_tree"
proof -
  let ?t = "sample_tree (sample_map 3)" and ?qc = "eb_quorum_cert (sample_block 3 2 3)"
  let ?t1 = "snd (insert_quorum_cert ?qc ?t)"
  have root: "commit_root_id ?t = 0" "ordered_root_id ?t1 = 0" "id_to_block ?t1 = id_to_block ?t"
    by (simp_all add: sample_tree_def insert_quorum_cert_def Let_def split: option.split)
  have "extends_commit ?t ?qc"
    unfolding extends_commit_def root(1) using sample_descendants(2) [OF sample_edges] by (simp add: qc_certified_block_def)
  from bt_certify [OF sample_tree_run(4) this surjective_pairing] have "bt_run order ?t1" .
  moreover have "2 \<in> descendants ?t1 (ordered_root_id ?t1)"
    using sample_descendants(2) [of ?t1] sample_edges by (simp add: root bt_edges_def)
  moreover have "update_ordered_root_id 2 ?t1 = Some sample_ordered_tree"
    by (simp add: update_ordered_root_id_def block_exists_def root sample_ordered_tree_def)
      (simp add: sample_tree_def sample_map_def)
  ultimately show ?thesis by (rule bt_order)
qed

theorem prune_keeps_descendants_witness:
  "\<exists>ids. find_blocks_to_prune sample_order sample_ordered_tree 2 = Some ids \<and> set ids = {0, 1}
    \<and> descendants (update_commit_id_and_process_pruned_blocks 2 ids sample_ordered_tree) 2 = {2, 3}"
  using prune_keeps_descendants [OF sample_ordered_run sample_order_iterates sample_committable]
    sample_descendants [OF sample_ordered_fields(1)] sample_ordered_fields(2) by auto

text \<open>
  C33: The path from a root to a block. \<open>path_from_root_to_block\<close> always returns, and it returns a
  path exactly when the parent links of the tree lead from the block back to the root: the blocks
  on the way, the child of the root first and the block itself last.
\<close>

theorem path_from_root_is_exact:
  assumes "bt_run order t" and "iteration_order order" and "bt_get_block t r = Some b"
  shows "\<exists>p. path_from_root_to_block t i r (eb_round b) = Some p
    \<and> (\<forall>bs. p = Some bs \<longleftrightarrow> linked t r bs \<and> path_end r bs = i)"
  by (rule path_from_root_exact [OF bt_run_inv [OF assms(1,2)] assms(3)])

theorem path_from_root_is_exact_witness:
  "path_from_root_to_block (sample_tree (sample_map 3)) 3 0 0 = Some (Some [sample_block 2 0 2, sample_block 3 2 3])"
proof -
  let ?t = "sample_tree (sample_map 3)"
  have r: "bt_get_block ?t 0 = Some (sample_block 0 9 0)"
    by (simp add: bt_get_block_def sample_tree_def sample_map_def)
  have "linked ?t 0 [sample_block 2 0 2, sample_block 3 2 3]"
    by (simp add: bt_get_block_def sample_tree_def sample_map_def lb_new_def)
  with path_from_root_is_exact [OF sample_tree_run(4) sample_order_iterates r, of 3] show ?thesis
    by (auto simp: path_end_def)
qed

end
