(* ===== verification/Recovery.thy ===== *)
theory Recovery
  imports ConsensusTypes "HOL-Library.Product_Lexorder"
begin

text \<open>
  What consensus keeps on disk and how it starts from it:
  \<open>src/consensus/src/persistent_liveness_storage.rs\<close> over
  \<open>src/consensus/src/consensusdb/mod.rs\<close>.

  The database is a key-value store that writes a batch as a whole: \<open>ConsensusDB\<close> holds a finite map
  per column family, and \<open>cdb_outcomes\<close> says of the next writes which go through (all further ones do).
  The serialised
  vote and timeout certificate are kept as the values they stand for. Maps read back from the
  database come in the order of a hash map, the arguments \<open>ord_b\<close> and \<open>ord_q\<close>. The startup information
  of the ledger is an argument. Recovery is shown to keep exactly the blocks that descend from the
  root, in an order in which every block comes after its parent.
\<close>

section \<open>The root\<close>

record RootInfo =
  ri_block :: Block
  ri_quorum_cert :: QuorumCert
  ri_ordered_cert :: QuorumCert
  ri_commit_li :: LedgerInfoWithSignatures

record RootMetadata =
  rm_accu_hash :: HashValue
  rm_frozen_root_hashes :: "HashValue list"
  rm_num_leaves :: Version

definition rm_version :: "RootMetadata \<Rightarrow> Version" where
  "rm_version m = max (rm_num_leaves m) 1 - 1"

record LedgerRecoveryData =
  lrd_storage_ledger :: LedgerInfoWithSignatures

definition commit_round :: "LedgerRecoveryData \<Rightarrow> Round" where
  "commit_round l = li_round (lis_ledger_info (lrd_storage_ledger l))"

text \<open>
  The root id, its ledger info, and the blocks and certificates to search: at the end of an epoch the
  virtual genesis block of the next one is added to them.
\<close>

definition root_candidates ::
  "consensus_crypto \<Rightarrow> LedgerRecoveryData \<Rightarrow> Block list \<Rightarrow> QuorumCert list
     \<Rightarrow> (HashValue \<times> LedgerInfoWithSignatures \<times> Block list \<times> QuorumCert list) option" where
  "root_candidates C l blocks quorum_certs =
     (let li = lis_ledger_info (lrd_storage_ledger l)
      in if ends_epoch li
         then (case make_genesis_block_from_ledger_info C li of
                 None \<Rightarrow> None
               | Some genesis \<Rightarrow>
                   map_option (\<lambda>genesis_qc.
                       (blk_id genesis, qc_ledger_info genesis_qc, blocks @ [genesis], quorum_certs @ [genesis_qc]))
                     (certificate_for_genesis_from_ledger_info C li (blk_id genesis)))
         else Some (li_consensus_block_id li, lrd_storage_ledger l, blocks, quorum_certs))"

text \<open>\<open>position\<close> followed by \<open>remove\<close>.\<close>

fun remove_first :: "('a \<Rightarrow> bool) \<Rightarrow> 'a list \<Rightarrow> ('a \<times> 'a list) option" where
  "remove_first p [] = None"
| "remove_first p (x # xs) =
     (if p x then Some (x, xs) else map_option (\<lambda>(y, ys). (y, x # ys)) (remove_first p xs))"

definition block_order :: "Block \<Rightarrow> u64 \<times> Round" where
  "block_order b = (blk_epoch b, blk_round b)"

definition find_root ::
  "consensus_crypto \<Rightarrow> LedgerRecoveryData \<Rightarrow> Block list \<Rightarrow> QuorumCert list
     \<Rightarrow> (RootInfo \<times> Block list \<times> QuorumCert list, anyhow) result" where
  "find_root C l blocks quorum_certs =
     rbind (expect (root_candidates C l blocks quorum_certs)) (\<lambda>(root_id, latest_ledger_info_sig, blocks, quorum_certs).
     rbind (ok_or (remove_first (\<lambda>block. blk_id block = root_id) (sort_key block_order blocks))
              (Msg ''unable to find root'')) (\<lambda>(root_block, blocks).
     rbind (ok_or (List.find (\<lambda>qc. bi_id (qc_certified_block qc) = blk_id root_block) quorum_certs)
              (Msg ''No QC found for root'')) (\<lambda>root_quorum_cert.
     rbind (ok_or (List.find (\<lambda>qc. bi_id (qc_commit_info qc) = blk_id root_block) quorum_certs)
              (Msg ''No LI found for root'')) (\<lambda>root_ordered_cert.
     Ok (\<lparr>ri_block = root_block, ri_quorum_cert = root_quorum_cert, ri_ordered_cert = root_ordered_cert,
          ri_commit_li = latest_ledger_info_sig\<rparr>, blocks, quorum_certs)))))"

section \<open>Recovery data\<close>

record RecoveryData =
  rd_last_vote :: "Vote option"
  rd_root :: RootInfo
  rd_root_metadata :: RootMetadata
  rd_blocks :: "Block list"
  rd_quorum_certs :: "QuorumCert list"
  rd_blocks_to_prune :: "HashValue list option"
  rd_highest_timeout_certificate :: "TimeoutCertificate option"

text \<open>\<open>blocks.retain\<close> of \<open>find_blocks_to_prune\<close>: the tree so far, the blocks kept, the ids removed.\<close>

fun retain_tree :: "HashValue fset \<Rightarrow> Block list \<Rightarrow> HashValue fset \<times> Block list \<times> HashValue list" where
  "retain_tree tree [] = (tree, [], [])"
| "retain_tree tree (block # blocks) =
     (if blk_parent_id block |\<in>| tree
      then let (tree', kept, removed) = retain_tree (finsert (blk_id block) tree) blocks
           in (tree', block # kept, removed)
      else let (tree', kept, removed) = retain_tree tree blocks
           in (tree', kept, blk_id block # removed))"

definition rd_find_blocks_to_prune ::
  "HashValue \<Rightarrow> Block list \<Rightarrow> QuorumCert list \<Rightarrow> HashValue list \<times> Block list \<times> QuorumCert list" where
  "rd_find_blocks_to_prune root_id blocks quorum_certs =
     (let (tree, blocks', to_remove) = retain_tree {|root_id|} blocks
      in (to_remove, blocks', filter (\<lambda>qc. bi_id (qc_certified_block qc) |\<in>| tree) quorum_certs))"

definition rd_new ::
  "consensus_crypto \<Rightarrow> Vote option \<Rightarrow> LedgerRecoveryData \<Rightarrow> Block list \<Rightarrow> RootMetadata \<Rightarrow> QuorumCert list
     \<Rightarrow> TimeoutCertificate option \<Rightarrow> (RecoveryData, anyhow) result" where
  "rd_new C last_vote l blocks root_metadata quorum_certs highest_timeout_certificate =
     rbind (map_err (WithContext ''Root id, blocks and quorum certs in db'') (find_root C l blocks quorum_certs))
     (\<lambda>(root, blocks, quorum_certs).
     let (to_remove, blocks, quorum_certs) = rd_find_blocks_to_prune (blk_id (ri_block root)) blocks quorum_certs;
         epoch = blk_epoch (ri_block root)
     in Ok \<lparr>rd_last_vote = (case last_vote of Some v \<Rightarrow> if vote_epoch v = epoch then Some v else None | None \<Rightarrow> None),
            rd_root = root, rd_root_metadata = root_metadata, rd_blocks = blocks, rd_quorum_certs = quorum_certs,
            rd_blocks_to_prune = Some to_remove,
            rd_highest_timeout_certificate = (case highest_timeout_certificate of
               Some tc \<Rightarrow> if tc_epoch tc = epoch then Some tc else None | None \<Rightarrow> None)\<rparr>)"

definition take_blocks_to_prune :: "RecoveryData \<Rightarrow> (HashValue list \<times> RecoveryData) option" where
  "take_blocks_to_prune d = map_option (\<lambda>ids. (ids, d\<lparr>rd_blocks_to_prune := None\<rparr>)) (rd_blocks_to_prune d)"

section \<open>The database of consensus\<close>

record ConsensusDB =
  cdb_last_vote :: "Vote option"
  cdb_highest_timeout_certificate :: "TimeoutCertificate option"
  cdb_blocks :: "(HashValue, Block) fmap"
  cdb_quorum_certs :: "(HashValue, QuorumCert) fmap"
  cdb_outcomes :: "bool list"

definition cdb_commit :: "(ConsensusDB \<Rightarrow> ConsensusDB) \<Rightarrow> (ConsensusDB, unit, anyhow) st_result" where
  "cdb_commit batch db =
     (case cdb_outcomes db of
        [] \<Rightarrow> (Ok (), batch db)
      | ok # oks \<Rightarrow>
          let db' = db\<lparr>cdb_outcomes := oks\<rparr>
          in if ok then (Ok (), batch db') else (Err (Msg ''write_schemas''), db'))"

definition cdb_get_data ::
  "(Block list \<Rightarrow> Block list) \<Rightarrow> (QuorumCert list \<Rightarrow> QuorumCert list) \<Rightarrow> ConsensusDB
     \<Rightarrow> Vote option \<times> TimeoutCertificate option \<times> Block list \<times> QuorumCert list" where
  "cdb_get_data ord_b ord_q db =
     (cdb_last_vote db, cdb_highest_timeout_certificate db,
      ord_b (btree_values (cdb_blocks db)), ord_q (btree_values (cdb_quorum_certs db)))"

definition save_highest_timeout_certificate :: "TimeoutCertificate \<Rightarrow> (ConsensusDB, unit, anyhow) st_result" where
  "save_highest_timeout_certificate tc = cdb_commit (\<lambda>db. db\<lparr>cdb_highest_timeout_certificate := Some tc\<rparr>)"

definition cdb_save_vote :: "Vote \<Rightarrow> (ConsensusDB, unit, anyhow) st_result" where
  "cdb_save_vote v = cdb_commit (\<lambda>db. db\<lparr>cdb_last_vote := Some v\<rparr>)"

definition save_blocks_and_quorum_certificates ::
  "Block list \<Rightarrow> QuorumCert list \<Rightarrow> (ConsensusDB, unit, anyhow) st_result" where
  "save_blocks_and_quorum_certificates block_data qc_data =
     (if block_data = [] \<and> qc_data = [] then sthrow (Msg ''Consensus block and qc data is empty!'')
      else cdb_commit (\<lambda>db.
        db\<lparr>cdb_blocks := fold (\<lambda>block. fmupd (blk_id block) block) block_data (cdb_blocks db),
           cdb_quorum_certs := fold (\<lambda>qc. fmupd (bi_id (qc_certified_block qc)) qc) qc_data (cdb_quorum_certs db)\<rparr>))"

definition delete_blocks_and_quorum_certificates :: "HashValue list \<Rightarrow> (ConsensusDB, unit, anyhow) st_result" where
  "delete_blocks_and_quorum_certificates block_ids =
     (if block_ids = [] then sthrow (Msg ''Consensus block ids is empty!'')
      else cdb_commit (\<lambda>db.
        db\<lparr>cdb_blocks := fold fmdrop block_ids (cdb_blocks db),
           cdb_quorum_certs := fold fmdrop block_ids (cdb_quorum_certs db)\<rparr>))"

definition delete_highest_timeout_certificate :: "(ConsensusDB, unit, anyhow) st_result" where
  "delete_highest_timeout_certificate = cdb_commit (\<lambda>db. db\<lparr>cdb_highest_timeout_certificate := None\<rparr>)"

definition delete_last_vote_msg :: "(ConsensusDB, unit, anyhow) st_result" where
  "delete_last_vote_msg = cdb_commit (\<lambda>db. db\<lparr>cdb_last_vote := None\<rparr>)"

section \<open>The storage proxy\<close>

definition swp_save_tree :: "Block list \<Rightarrow> QuorumCert list \<Rightarrow> (ConsensusDB, unit, anyhow) st_result" where
  "swp_save_tree blocks quorum_certs = save_blocks_and_quorum_certificates blocks quorum_certs"

definition swp_prune_tree :: "HashValue list \<Rightarrow> (ConsensusDB, unit, anyhow) st_result" where
  "swp_prune_tree block_ids = (if block_ids \<noteq> [] then delete_blocks_and_quorum_certificates block_ids else sret ())"

definition swp_save_vote :: "Vote \<Rightarrow> (ConsensusDB, unit, anyhow) st_result" where
  "swp_save_vote vote = cdb_save_vote vote"

definition swp_save_highest_timeout_cert :: "TimeoutCertificate \<Rightarrow> (ConsensusDB, unit, anyhow) st_result" where
  "swp_save_highest_timeout_cert tc = save_highest_timeout_certificate tc"

record TreeState =
  tstate_num_transactions :: LeafCount
  tstate_ledger_frozen_subtree_hashes :: "HashValue list"
  tstate_account_state_root_hash :: HashValue

record StartupInfo =
  si_latest_ledger_info :: LedgerInfoWithSignatures
  si_latest_epoch_state :: "EpochState option"
  si_committed_tree_state :: TreeState
  si_synced_tree_state :: "TreeState option"

definition swp_recover_from_ledger :: "StartupInfo option \<Rightarrow> LedgerRecoveryData option" where
  "swp_recover_from_ledger startup_info =
     map_option (\<lambda>s. \<lparr>lrd_storage_ledger = si_latest_ledger_info s\<rparr>) startup_info"

text \<open>The root metadata from the accumulator of \<open>ExecutedTrees\<close>; \<open>Panic\<close> when the startup info is not valid.\<close>

definition startup_metadata :: "hasher \<Rightarrow> TreeState \<Rightarrow> (RootMetadata, anyhow) result" where
  "startup_metadata H ts =
     (case acc_new H (tstate_ledger_frozen_subtree_hashes ts) (tstate_num_transactions ts) of
        Ok acc \<Rightarrow> Ok \<lparr>rm_accu_hash = acc_root_hash acc,
                     rm_frozen_root_hashes = tstate_ledger_frozen_subtree_hashes ts,
                     rm_num_leaves = acc_num_leaves acc\<rparr>
      | _ \<Rightarrow> Panic)"

datatype LivenessStorageData = FullRecovery RecoveryData | LedgerRecovery LedgerRecoveryData

text \<open>An error of a clean-up of \<open>start\<close> is a panic.\<close>

definition or_panic :: "('s, 'a, 'e) st_result \<Rightarrow> ('s, 'a, 'f) st_result" where
  "or_panic m s = (case m s of (Ok a, s') \<Rightarrow> (Ok a, s') | (_, s') \<Rightarrow> (Panic, s'))"

definition clean_up :: "RecoveryData \<Rightarrow> (ConsensusDB, LivenessStorageData, anyhow) st_result" where
  "clean_up initial_data =
     (case take_blocks_to_prune initial_data of
        None \<Rightarrow> slift Panic
      | Some (ids, initial_data) \<Rightarrow>
          sbind (or_panic (swp_prune_tree ids)) (\<lambda>_.
          sbind (if rd_last_vote initial_data = None then or_panic delete_last_vote_msg else sret ()) (\<lambda>_.
          sbind (if rd_highest_timeout_certificate initial_data = None
                 then or_panic delete_highest_timeout_certificate else sret ()) (\<lambda>_.
          sret (FullRecovery initial_data)))))"

definition swp_start ::
  "consensus_crypto \<Rightarrow> hasher \<Rightarrow> (Block list \<Rightarrow> Block list) \<Rightarrow> (QuorumCert list \<Rightarrow> QuorumCert list)
     \<Rightarrow> StartupInfo option \<Rightarrow> (ConsensusDB, LivenessStorageData, anyhow) st_result" where
  "swp_start C H ord_b ord_q startup db =
     (let (last_vote, highest_timeout_certificate, blocks, quorum_certs) = cdb_get_data ord_b ord_q db
      in case startup of
           None \<Rightarrow> (Panic, db)
         | Some startup_info \<Rightarrow>
             let l = \<lparr>lrd_storage_ledger = si_latest_ledger_info startup_info\<rparr>
             in case startup_metadata H (si_committed_tree_state startup_info) of
                  Ok root_metadata \<Rightarrow>
                    (case rd_new C last_vote l blocks root_metadata quorum_certs highest_timeout_certificate of
                       Ok initial_data \<Rightarrow> clean_up initial_data db
                     | Err _ \<Rightarrow> (Ok (LedgerRecovery l), db)
                     | Panic \<Rightarrow> (Panic, db))
                | _ \<Rightarrow> (Panic, db))"

definition expect_recovery_data :: "LivenessStorageData \<Rightarrow> RecoveryData option" where
  "expect_recovery_data d = (case d of FullRecovery r \<Rightarrow> Some r | LedgerRecovery _ \<Rightarrow> None)"

section \<open>What is kept\<close>

definition parent_links :: "Block set \<Rightarrow> (HashValue \<times> HashValue) set" where
  "parent_links B = (\<lambda>b. (blk_parent_id b, blk_id b)) ` B"

fun parents_earlier :: "Block list \<Rightarrow> bool" where
  "parents_earlier [] \<longleftrightarrow> True"
| "parents_earlier (b # bs) \<longleftrightarrow> blk_parent_id b \<notin> blk_id ` set (b # bs) \<and> parents_earlier bs"

lemma sorted_parents_earlier:
  assumes "sorted (map block_order bs)"
    and "\<And>b c. b \<in> set bs \<Longrightarrow> c \<in> set bs \<Longrightarrow> blk_parent_id c = blk_id b \<Longrightarrow> block_order b < block_order c"
  shows "parents_earlier bs"
  using assms
proof (induction bs)
  case (Cons c bs)
  have "blk_parent_id c \<noteq> blk_id b" if "b \<in> set (c # bs)" for b
    using Cons.prems(1) Cons.prems(2) [OF that, of c] that by fastforce
  moreover have "parents_earlier bs"
    using Cons.prems by (intro Cons.IH) (simp_all del: blk_parent_id_def)
  ultimately show ?case by (auto simp del: blk_parent_id_def)
qed simp

text \<open>A block that is no child of a later one is reached first or not at all.\<close>

lemma reach_first_edge:
  assumes "p \<notin> snd ` E" and "p \<noteq> n"
  shows "(\<exists>t \<in> T. (t, x) \<in> (insert (p, n) E)\<^sup>*) \<longleftrightarrow>
    (\<exists>t \<in> (if p \<in> T then insert n T else T). (t, x) \<in> E\<^sup>*)" (is "?L \<longleftrightarrow> ?R")
proof
  assume ?L
  then obtain t where t: "t \<in> T" "(t, x) \<in> (insert (p, n) E)\<^sup>*" by blast
  from t(2) show ?R
  proof (induction rule: rtrancl_induct)
    case base
    with t(1) show ?case by auto
  next
    case (step y z)
    then obtain u where u: "u \<in> (if p \<in> T then insert n T else T)" "(u, y) \<in> E\<^sup>*" by blast
    show ?case
    proof (cases "(y, z) = (p, n)")
      case True
      with u(2) have "(u, p) \<in> E\<^sup>*" by simp
      then have "u = p" by (cases rule: rtranclE) (use assms(1) in force)+
      with u(1) assms(2) True show ?thesis by (auto split: if_splits)
    next
      case False
      with step.hyps(2) have "(y, z) \<in> E" by auto
      with u(2) have "(u, z) \<in> E\<^sup>*" by (rule rtrancl_into_rtrancl)
      with u(1) show ?thesis by blast
    qed
  qed
next
  assume ?R
  then obtain u where u: "u \<in> (if p \<in> T then insert n T else T)" "(u, x) \<in> E\<^sup>*" by blast
  then have "(u, x) \<in> (insert (p, n) E)\<^sup>*" by (meson in_mono rtrancl_mono subset_insertI)
  with u(1) show ?L by (auto split: if_splits intro: converse_rtrancl_into_rtrancl)
qed

definition reached :: "HashValue fset \<Rightarrow> Block list \<Rightarrow> Block \<Rightarrow> bool" where
  "reached tree bs b \<longleftrightarrow> (\<exists>t \<in> fset tree. (t, blk_parent_id b) \<in> (parent_links (set bs))\<^sup>*)"

lemma reached_Cons:
  assumes "parents_earlier (c # bs)"
  shows "reached tree (c # bs) = reached (if blk_parent_id c |\<in>| tree then finsert (blk_id c) tree else tree) bs"
    and "reached tree (c # bs) c \<longleftrightarrow> blk_parent_id c |\<in>| tree"
proof -
  let ?p = "blk_parent_id c" and ?n = "blk_id c" and ?E = "parent_links (set bs)"
  from assms have p: "?p \<notin> snd ` ?E" "?p \<noteq> ?n" by (auto simp: parent_links_def image_image simp del: blk_parent_id_def)
  have e: "parent_links (set (c # bs)) = insert (?p, ?n) ?E" by (simp add: parent_links_def)
  have f: "fset (if ?p |\<in>| tree then finsert ?n tree else tree) = (if ?p \<in> fset tree then insert ?n (fset tree) else fset tree)"
    by simp
  note r = reach_first_edge [OF p, of "fset tree"]
  show "reached tree (c # bs) = reached (if ?p |\<in>| tree then finsert ?n tree else tree) bs"
    unfolding reached_def e f fun_eq_iff by (intro allI r)
  have "t = ?p" if "(t, ?p) \<in> ?E\<^sup>*" for t using that by (cases rule: rtranclE) (use p(1) in force)+
  then have "(t, ?p) \<in> ?E\<^sup>* \<longleftrightarrow> t = ?p" for t by auto
  with p(2) show "reached tree (c # bs) c \<longleftrightarrow> ?p |\<in>| tree" unfolding reached_def e r by (auto split: if_splits)
qed

lemma retain_tree_exact:
  assumes "parents_earlier bs" and "retain_tree tree bs = (tree', kept, removed)"
  shows "kept = filter (reached tree bs) bs" and "removed = map blk_id (filter (\<lambda>b. \<not> reached tree bs b) bs)"
    and "fset tree' = fset tree \<union> blk_id ` set kept"
    and "kept = xs @ b # ys \<Longrightarrow> blk_parent_id b \<in> fset tree \<union> blk_id ` set xs"
proof -
  have "kept = filter (reached tree bs) bs \<and> removed = map blk_id (filter (\<lambda>b. \<not> reached tree bs b) bs)
    \<and> fset tree' = fset tree \<union> blk_id ` set kept
    \<and> (\<forall>xs b ys. kept = xs @ b # ys \<longrightarrow> blk_parent_id b \<in> fset tree \<union> blk_id ` set xs)"
    using assms
  proof (induction bs arbitrary: tree kept removed)
    case (Cons c bs)
    let ?t = "if blk_parent_id c |\<in>| tree then finsert (blk_id c) tree else tree"
    obtain k r where kr: "retain_tree ?t bs = (tree', k, r)"
      and ks: "kept = (if blk_parent_id c |\<in>| tree then c # k else k)"
        "removed = (if blk_parent_id c |\<in>| tree then r else blk_id c # r)"
      using Cons.prems(2) by (auto simp: Let_def split: if_splits prod.splits simp del: blk_parent_id_def)
    from Cons.prems(1) have "parents_earlier bs" by simp
    note IH = Cons.IH [OF this kr] and rc = reached_Cons [OF Cons.prems(1), of tree]
    have "blk_parent_id b \<in> fset tree \<union> blk_id ` set xs" if split: "kept = xs @ b # ys" for xs b ys
    proof (cases "blk_parent_id c |\<in>| tree")
      case True
      show ?thesis
      proof (cases xs)
        case Nil
        with True split ks(1) show ?thesis by (simp del: blk_parent_id_def)
      next
        case (Cons x xs')
        with True split ks(1) have "x = c" "k = xs' @ b # ys" by auto
        with IH True Cons show ?thesis by (auto simp del: blk_parent_id_def)
      qed
    qed (use IH split ks(1) in \<open>auto simp del: blk_parent_id_def\<close>)
    moreover have "kept = filter (reached tree (c # bs)) (c # bs)"
      using IH ks(1) rc(2) unfolding filter.simps by (simp add: rc(1) del: blk_parent_id_def)
    moreover have "removed = map blk_id (filter (\<lambda>b. \<not> reached tree (c # bs) b) (c # bs))"
      using IH ks(2) rc(2) unfolding filter.simps by (simp add: rc(1) del: blk_parent_id_def)
    moreover have "fset tree' = fset tree \<union> blk_id ` set kept"
      using IH ks(1) by (auto simp del: blk_parent_id_def)
    ultimately show ?case by blast
  qed simp
  then show "kept = filter (reached tree bs) bs" and "removed = map blk_id (filter (\<lambda>b. \<not> reached tree bs b) bs)"
    and "fset tree' = fset tree \<union> blk_id ` set kept"
    and "kept = xs @ b # ys \<Longrightarrow> blk_parent_id b \<in> fset tree \<union> blk_id ` set xs" by blast+
qed

lemma remove_first_Some:
  assumes "remove_first p xs = Some (x, ys)"
  shows "p x" and "set xs = insert x (set ys)" and "sorted (map f xs) \<Longrightarrow> sorted (map f ys)"
proof -
  have "p x \<and> set xs = insert x (set ys) \<and> (sorted (map f xs) \<longrightarrow> sorted (map f ys))"
    using assms by (induction xs arbitrary: ys) (auto split: if_splits prod.splits)
  then show "p x" and "set xs = insert x (set ys)" and "sorted (map f xs) \<Longrightarrow> sorted (map f ys)" by blast+
qed

definition parents_below :: "Block set \<Rightarrow> bool" where
  "parents_below B \<longleftrightarrow> (\<forall>b \<in> B. \<forall>c \<in> B. blk_parent_id c = blk_id b \<longrightarrow> block_order b < block_order c)"

lemma linked_above:
  assumes "parents_below B" and "r \<in> B" and "(blk_id r, x) \<in> (parent_links B)\<^sup>*"
  shows "x = blk_id r \<or> (\<exists>b \<in> B. x = blk_id b \<and> block_order r < block_order b)"
  using assms(3)
proof (induction rule: rtrancl_induct)
  case (step y z)
  then obtain c where c: "c \<in> B" "y = blk_parent_id c" "z = blk_id c" by (auto simp: parent_links_def simp del: blk_parent_id_def)
  from step.IH assms(2) obtain b where b: "b \<in> B" "y = blk_id b" "b = r \<or> block_order r < block_order b" by blast
  have "block_order b < block_order c"
    using assms(1) [unfolded parents_below_def, rule_format, OF b(1) c(1)] b(2) c(2) by simp
  with b(3) have "block_order r < block_order c" using order.strict_trans by blast
  with c show ?case by blast
qed simp

lemma rd_new_exact:
  assumes "rd_new C v l blocks md qcs tc = Ok rd" and "root_candidates C l blocks qcs = Some (rid, li, cb, cq)"
    and ord: "parents_below (set cb)"
  shows "blk_id (ri_block (rd_root rd)) = rid"
    and "set (rd_blocks rd) = {b \<in> set cb. (rid, blk_parent_id b) \<in> (parent_links (set cb))\<^sup>*}"
    and "rd_blocks rd = xs @ b # ys \<Longrightarrow> blk_parent_id b \<in> insert rid (blk_id ` set xs)"
    and "rd_quorum_certs rd = filter (\<lambda>qc. bi_id (qc_certified_block qc) \<in> insert rid (blk_id ` set (rd_blocks rd))) cq"
proof -
  from assms(1) obtain root bs cq' where fr: "find_root C l blocks qcs = Ok (root, bs, cq')"
    unfolding rd_new_def rbind_Ok map_err_Ok by (metis prod_cases3)
  obtain ids kept kqcs where p: "rd_find_blocks_to_prune (blk_id (ri_block root)) bs cq' = (ids, kept, kqcs)"
    by (metis prod_cases3)
  from assms(1) fr p have rd: "rd_root rd = root" "rd_blocks rd = kept" "rd_quorum_certs rd = kqcs"
    by (auto simp: rd_new_def Let_def)
  from fr assms(2) obtain rb where
    rf: "remove_first (\<lambda>block. blk_id block = rid) (sort_key block_order cb) = Some (rb, bs)"
    and root: "ri_block root = rb" "cq' = cq"
    by (auto simp: find_root_def simp del: qc_certified_block_def qc_commit_info_def)
  note r = remove_first_Some [OF rf]
  show id: "blk_id (ri_block (rd_root rd)) = rid" using r(1) rd(1) root(1) by simp
  have cb: "set cb = insert rb (set bs)" using r(2) by simp
  have pe: "parents_earlier bs"
    using ord r(3) [of block_order] by (intro sorted_parents_earlier) (auto simp: parents_below_def cb)
  obtain tree removed where rt: "retain_tree {|rid|} bs = (tree, rd_blocks rd, removed)"
    and qcs: "rd_quorum_certs rd = filter (\<lambda>qc. bi_id (qc_certified_block qc) |\<in>| tree) cq"
    using p r(1) rd root by (auto simp: rd_find_blocks_to_prune_def Let_def split: prod.splits)
  note ex = retain_tree_exact [OF pe rt]
  have reach: "reached {|rid|} bs c \<longleftrightarrow> (rid, blk_parent_id c) \<in> (parent_links (set cb))\<^sup>*" for c
    using r(1) unfolding reached_def cb parent_links_def image_insert rtrancl_insert by auto
  have "\<not> (rid, blk_parent_id rb) \<in> (parent_links (set cb))\<^sup>*"
    using linked_above [OF ord, of rb "blk_parent_id rb"] r(1) ord cb unfolding parents_below_def
    by (metis insertI1 order.asym order.irrefl)
  then show "set (rd_blocks rd) = {b \<in> set cb. (rid, blk_parent_id b) \<in> (parent_links (set cb))\<^sup>*}"
    using ex(1) by (auto simp: reach cb simp del: blk_parent_id_def)
  show "rd_blocks rd = xs @ b # ys \<Longrightarrow> blk_parent_id b \<in> insert rid (blk_id ` set xs)" using ex(4) by simp
  show "rd_quorum_certs rd = filter (\<lambda>qc. bi_id (qc_certified_block qc) \<in> insert rid (blk_id ` set (rd_blocks rd))) cq"
    unfolding qcs using ex(3) by simp
qed

end
