(* ===== verification/BlockStore.thy ===== *)
theory BlockStore
  imports BlockTree Recovery
begin

text \<open>
  The block store, \<open>src/consensus/src/block_storage/block_store.rs\<close>: the block tree together with
  the state computer that executes and commits blocks and the storage that persists them. The state
  computers are those of \<open>src/consensus/src/state_computer.rs\<close> and
  \<open>src/consensus/src/experimental/ordering_state_computer.rs\<close>.

  The state computer and the storage are trait objects: records of their methods over states of
  their own. The future of \<open>StateComputer::commit\<close> may run the callback before it completes or leave
  it for later; \<open>sc_commit\<close> returns the arguments of the callback in the first case, and
  \<open>commit_callback\<close> is the callback. The iteration order of hash containers is an argument. Counters,
  log lines and the wait for the local clock to pass the block's time are left out.

  The blocks handed to the state computer over all commits are shown to form one chain, and
  a restart to find all blocks above the committed one again.
\<close>

section \<open>The store and its environment\<close>

datatype ExecutorError =
    BlockNotFound HashValue
  | ExecutorInternalError string
  | ExecutorSerializationError string

record 'x state_computer =
  sc_compute :: "Block \<Rightarrow> HashValue \<Rightarrow> ('x, StateComputeResult, ExecutorError) st_result"
  sc_commit :: "ExecutedBlock list \<Rightarrow> LedgerInfoWithSignatures
    \<Rightarrow> ('x, (ExecutedBlock list \<times> LedgerInfoWithSignatures) option, ExecutorError) st_result"

record 'd liveness_storage =
  db_save_tree :: "Block list \<Rightarrow> QuorumCert list \<Rightarrow> ('d, unit, anyhow) st_result"
  db_prune_tree :: "HashValue list \<Rightarrow> ('d, unit, anyhow) st_result"
  db_save_highest_timeout_cert :: "TimeoutCertificate \<Rightarrow> ('d, unit, anyhow) st_result"

record ('x, 'd) store_env =
  se_computer :: "'x state_computer"
  se_storage :: "'d liveness_storage"
  hash_order :: "HashValue fset \<Rightarrow> HashValue list"
  cert_order :: "QuorumCert list \<Rightarrow> QuorumCert list"

record ('x, 'd) BlockStore =
  bs_inner :: BlockTree
  bs_state_computer :: 'x
  bs_storage :: 'd

definition consensus_storage :: "ConsensusDB liveness_storage" where
  "consensus_storage = \<lparr>db_save_tree = swp_save_tree, db_prune_tree = swp_prune_tree,
     db_save_highest_timeout_cert = swp_save_highest_timeout_cert\<rparr>"

section \<open>State computers\<close>

text \<open>
  The state computer of decoupled execution hands ordered blocks to the execution phase through a
  channel. \<open>osc_open\<close> says whether the receiver is still there.
\<close>

record OrderingStateComputer =
  osc_executor_channel :: "(Block list \<times> LedgerInfoWithSignatures) list"
  osc_open :: bool

definition osc_compute ::
  "Block \<Rightarrow> HashValue \<Rightarrow> (OrderingStateComputer, StateComputeResult, ExecutorError) st_result" where
  "osc_compute block parent_block_id = sret scr_new_dummy"

definition osc_commit ::
  "ExecutedBlock list \<Rightarrow> LedgerInfoWithSignatures
     \<Rightarrow> (OrderingStateComputer, (ExecutedBlock list \<times> LedgerInfoWithSignatures) option, ExecutorError) st_result" where
  "osc_commit blocks finality_proof s =
     (if blocks = [] then (Panic, s)
      else if osc_open s
      then (Ok None, s\<lparr>osc_executor_channel := osc_executor_channel s @ [(map eb_block blocks, finality_proof)]\<rparr>)
      else (Err (ExecutorInternalError ''send failed''), s))"

definition ordering_state_computer :: "OrderingStateComputer state_computer" where
  "ordering_state_computer = \<lparr>sc_compute = osc_compute, sc_commit = osc_commit\<rparr>"

text \<open>
  The proxy of the executor: \<open>execution_client\<close> holds the methods it calls of the execution correctness
  client and of the state synchroniser, whose errors are only logged.
\<close>

record 'c execution_client =
  ec_execute_block :: "Block \<Rightarrow> HashValue \<Rightarrow> ('c, StateComputeResult, ExecutorError) st_result"
  ec_commit_blocks :: "HashValue list \<Rightarrow> LedgerInfoWithSignatures \<Rightarrow> ('c, unit, ExecutorError) st_result"
  ec_notify_state_sync :: "Transaction list \<Rightarrow> 8 word list list \<Rightarrow> ('c, unit, anyhow) st_result"

definition ep_compute ::
  "'c execution_client \<Rightarrow> Block \<Rightarrow> HashValue \<Rightarrow> ('c, StateComputeResult, ExecutorError) st_result" where
  "ep_compute K block parent_block_id = ec_execute_block K block parent_block_id"

definition ep_commit ::
  "'c execution_client \<Rightarrow> ExecutedBlock list \<Rightarrow> LedgerInfoWithSignatures
     \<Rightarrow> ('c, (ExecutedBlock list \<times> LedgerInfoWithSignatures) option, ExecutorError) st_result" where
  "ep_commit K blocks finality_proof =
     (case those (map eb_transactions_to_commit blocks) of
        None \<Rightarrow> slift Panic
      | Some txns \<Rightarrow>
          sbind (ec_commit_blocks K (map eb_id blocks) finality_proof) (\<lambda>_ s.
          case ec_notify_state_sync K (concat txns) (concat (map eb_reconfig_event blocks)) s of
            (Panic, s') \<Rightarrow> (Panic, s')
          | (_, s') \<Rightarrow> (Ok (Some (blocks, finality_proof)), s')))"

definition execution_proxy :: "'c execution_client \<Rightarrow> 'c state_computer" where
  "execution_proxy K = \<lparr>sc_compute = ep_compute K, sc_commit = ep_commit K\<rparr>"

section \<open>Inserting blocks and certificates\<close>

text \<open>An executor error that \<open>?\<close> turns into an \<open>anyhow\<close> error.\<close>

definition from_executor_error :: "ExecutorError \<Rightarrow> anyhow" where
  "from_executor_error e =
     Msg (case e of BlockNotFound _ \<Rightarrow> ''Cannot find speculation result for block id''
          | ExecutorInternalError s \<Rightarrow> ''Internal error: '' @ s
          | ExecutorSerializationError s \<Rightarrow> ''Serialization error: '' @ s)"

definition on_tree :: "(BlockTree, 'a, 'e) st_result \<Rightarrow> (('x, 'd) BlockStore, 'a, 'e) st_result" where
  "on_tree m = sfield bs_inner (\<lambda>t s. s\<lparr>bs_inner := t\<rparr>) m"

definition on_computer :: "('x, 'a, 'e) st_result \<Rightarrow> (('x, 'd) BlockStore, 'a, 'e) st_result" where
  "on_computer m = sfield bs_state_computer (\<lambda>x s. s\<lparr>bs_state_computer := x\<rparr>) m"

definition on_db :: "('d, 'a, 'e) st_result \<Rightarrow> (('x, 'd) BlockStore, 'a, 'e) st_result" where
  "on_db m = sfield bs_storage (\<lambda>d s. s\<lparr>bs_storage := d\<rparr>) m"

definition execute_block ::
  "('x, 'd) store_env \<Rightarrow> Block \<Rightarrow> (('x, 'd) BlockStore, ExecutedBlock, ExecutorError) st_result" where
  "execute_block E block =
     sbind (on_computer (sc_compute (se_computer E) block (blk_parent_id block))) (\<lambda>state_compute_result.
     sret \<lparr>eb_block = block, eb_state_compute_result = state_compute_result\<rparr>)"

primrec reexecute_blocks ::
  "('x, 'd) store_env \<Rightarrow> ExecutedBlock list \<Rightarrow> (('x, 'd) BlockStore, unit, anyhow) st_result" where
  "reexecute_blocks E [] = sret ()"
| "reexecute_blocks E (b # bs) =
     sbind (smap_err from_executor_error (execute_block E (eb_block b))) (\<lambda>_. reexecute_blocks E bs)"

text \<open>The path from the ordered root as \<open>unwrap_or_else(Vec::new)\<close> leaves it.\<close>

definition ordered_path :: "BlockTree \<Rightarrow> HashValue \<Rightarrow> (ExecutedBlock list, 'e) result" where
  "ordered_path t block_id =
     (case bt_path_from_ordered_root t block_id of
        None \<Rightarrow> Panic
      | Some None \<Rightarrow> Ok []
      | Some (Some bs) \<Rightarrow> Ok bs)"

definition execute_with_recovery ::
  "('x, 'd) store_env \<Rightarrow> Block \<Rightarrow> (('x, 'd) BlockStore, ExecutedBlock, anyhow) st_result" where
  "execute_with_recovery E block s =
     (case execute_block E block s of
        (Ok res, s1) \<Rightarrow> (Ok res, s1)
      | (Err (BlockNotFound parent_block_id), s1) \<Rightarrow>
          sbind (sread (\<lambda>s. ordered_path (bs_inner s) parent_block_id)) (\<lambda>blocks_to_reexecute.
          sbind (reexecute_blocks E blocks_to_reexecute) (\<lambda>_.
          smap_err from_executor_error (execute_block E block))) s1
      | (Err e, s1) \<Rightarrow> (Err (from_executor_error e), s1)
      | (Panic, s1) \<Rightarrow> (Panic, s1))"

definition execute_and_insert_block ::
  "('x, 'd) store_env \<Rightarrow> Block \<Rightarrow> (('x, 'd) BlockStore, ExecutedBlock, anyhow) st_result" where
  "execute_and_insert_block E block s =
     (case bt_get_block (bs_inner s) (blk_id block) of
        Some existing_block \<Rightarrow> (Ok existing_block, s)
      | None \<Rightarrow>
          sbind (sread (\<lambda>s. rbind (expect (ordered_root (bs_inner s))) (\<lambda>root.
                   ensure (eb_round root < blk_round block) (Msg ''Block with old round'')))) (\<lambda>_.
          sbind (execute_with_recovery E block) (\<lambda>executed_block.
          sbind (smap_err (WithContext ''Insert block failed when saving block'')
                   (on_db (db_save_tree (se_storage E) [eb_block executed_block] []))) (\<lambda>_.
          on_tree (insert_block executed_block)))) s)"

definition insert_single_quorum_cert ::
  "('x, 'd) store_env \<Rightarrow> QuorumCert \<Rightarrow> (('x, 'd) BlockStore, unit, anyhow) st_result" where
  "insert_single_quorum_cert E qc =
     sbind (sread (\<lambda>s. case bt_get_block (bs_inner s) (bi_id (qc_certified_block qc)) of
              Some executed_block \<Rightarrow>
                ensure (match_ordered_only (eb_block_info executed_block) (qc_certified_block qc))
                  (Msg ''QC for block has different info than local'')
            | None \<Rightarrow> Err (Msg ''Insert QC without having the block in store first''))) (\<lambda>_.
     sbind (smap_err (WithContext ''Insert block failed when saving quorum'')
              (on_db (db_save_tree (se_storage E) [] [qc]))) (\<lambda>_.
     on_tree (insert_quorum_cert qc)))"

definition insert_timeout_certificate ::
  "('x, 'd) store_env \<Rightarrow> TimeoutCertificate \<Rightarrow> (('x, 'd) BlockStore, unit, anyhow) st_result" where
  "insert_timeout_certificate E tc s =
     (let cur_tc_round = (case bt_highest_timeout_cert (bs_inner s) of Some tc \<Rightarrow> tc_round tc | None \<Rightarrow> 0)
      in if tc_round tc \<le> cur_tc_round then (Ok (), s)
         else sbind (smap_err (WithContext ''Timeout certificate insert failed when persisting to DB'')
                       (on_db (db_save_highest_timeout_cert (se_storage E) tc))) (\<lambda>_.
              on_tree (smodify (replace_timeout_cert tc))) s)"

section \<open>Committing\<close>

text \<open>\<open>update_counters_and_prune_blocks\<close>: a failure to prune the storage is only logged.\<close>

definition update_counters_and_prune_blocks ::
  "('x, 'd) store_env \<Rightarrow> ExecutedBlock list \<Rightarrow> (('x, 'd) BlockStore, unit, anyhow) st_result" where
  "update_counters_and_prune_blocks E blocks_to_commit s =
     (if blocks_to_commit = [] then (Panic, s)
      else
        let block_to_commit = last blocks_to_commit
        in case find_blocks_to_prune (hash_order E) (bs_inner s) (eb_id block_to_commit) of
             None \<Rightarrow> (Panic, s)
           | Some id_to_remove \<Rightarrow>
               (case on_db (db_prune_tree (se_storage E) id_to_remove) s of
                  (Panic, s1) \<Rightarrow> (Panic, s1)
                | (_, s1) \<Rightarrow>
                    on_tree (smodify (update_commit_id_and_process_pruned_blocks (eb_id block_to_commit) id_to_remove)) s1))"

definition commit_callback ::
  "('x, 'd) store_env \<Rightarrow> ExecutedBlock list \<Rightarrow> LedgerInfoWithSignatures \<Rightarrow> (('x, 'd) BlockStore, unit, anyhow) st_result" where
  "commit_callback E executed_blocks commit_decision =
     sbind (on_tree (smodify (update_highest_ledger_info commit_decision))) (\<lambda>_.
     update_counters_and_prune_blocks E executed_blocks)"

text \<open>The first half of \<open>commit\<close>: the blocks to commit, with the ordered root moved to the last of them.\<close>

definition commit_order ::
  "LedgerInfoWithSignatures \<Rightarrow> (('x, 'd) BlockStore, ExecutedBlock list, anyhow) st_result" where
  "commit_order finality_proof =
     (let block_id_to_commit = li_consensus_block_id (lis_ledger_info finality_proof)
      in sbind (sread (\<lambda>s. ok_or (bt_get_block (bs_inner s) block_id_to_commit)
                              (Msg ''Committed block id not found''))) (\<lambda>block_to_commit.
         sbind (sread (\<lambda>s. rbind (expect (ordered_root (bs_inner s))) (\<lambda>root.
                  ensure (eb_round block_to_commit > eb_round root)
                    (Msg ''Committed block round lower than root'')))) (\<lambda>_.
         sbind (sread (\<lambda>s. ordered_path (bs_inner s) block_id_to_commit)) (\<lambda>blocks_to_commit.
         sbind (slift (assert_panic (blocks_to_commit \<noteq> []))) (\<lambda>_.
         sbind (sread (\<lambda>s. expect (commit_root (bs_inner s)))) (\<lambda>_.
         sbind (on_tree (\<lambda>t. case update_ordered_root_id (eb_id block_to_commit) t of
                    Some t' \<Rightarrow> (Ok (), t') | None \<Rightarrow> (Panic, t))) (\<lambda>_.
         sret blocks_to_commit)))))))"

definition bs_commit ::
  "('x, 'd) store_env \<Rightarrow> LedgerInfoWithSignatures \<Rightarrow> (('x, 'd) BlockStore, unit, anyhow) st_result" where
  "bs_commit E finality_proof =
     sbind (commit_order finality_proof) (\<lambda>blocks_to_commit s.
     case on_computer (sc_commit (se_computer E) blocks_to_commit finality_proof) s of
       (Ok None, s1) \<Rightarrow> (Ok (), s1)
     | (Ok (Some (executed_blocks, commit_decision)), s1) \<Rightarrow>
         commit_callback E executed_blocks commit_decision s1
     | (_, s1) \<Rightarrow> (Panic, s1))"

text \<open>\<open>try_commit\<close> goes through the certificates by the round they commit; errors are logged.\<close>

primrec commit_certs ::
  "('x, 'd) store_env \<Rightarrow> QuorumCert list \<Rightarrow> (('x, 'd) BlockStore, unit, anyhow) st_result" where
  "commit_certs E [] = sret ()"
| "commit_certs E (qc # qcs) =
     sbind (sread (\<lambda>s. expect (commit_root (bs_inner s)))) (\<lambda>root s.
     if bi_round (qc_commit_info qc) > eb_round root
     then (case bs_commit E (qc_ledger_info qc) s of
             (Panic, s1) \<Rightarrow> (Panic, s1)
           | (_, s1) \<Rightarrow> commit_certs E qcs s1)
     else commit_certs E qcs s)"

definition try_commit :: "('x, 'd) store_env \<Rightarrow> (('x, 'd) BlockStore, unit, anyhow) st_result" where
  "try_commit E s =
     commit_certs E (sort_key (\<lambda>qc. bi_round (qc_commit_info qc))
       (cert_order E (get_all_quorum_certs_with_commit_info (bs_inner s)))) s"

section \<open>Building and rebuilding the store\<close>

text \<open>An insertion that fails while the store is built is a panic.\<close>

primrec insert_all ::
  "('a \<Rightarrow> ('s, 'b, 'e) st_result) \<Rightarrow> 'a list \<Rightarrow> ('s, unit, 'f) st_result" where
  "insert_all f [] = sret ()"
| "insert_all f (a # as) = (\<lambda>s. case f a s of (Ok _, s1) \<Rightarrow> insert_all f as s1 | (_, s1) \<Rightarrow> (Panic, s1))"

definition insert_recovered ::
  "('x, 'd) store_env \<Rightarrow> Block list \<Rightarrow> QuorumCert list \<Rightarrow> (('x, 'd) BlockStore, unit, anyhow) st_result" where
  "insert_recovered E blocks quorum_certs =
     sbind (insert_all (execute_and_insert_block E) blocks) (\<lambda>_.
     insert_all (insert_single_quorum_cert E) quorum_certs)"

definition bs_build ::
  "('x, 'd) store_env \<Rightarrow> RootInfo \<Rightarrow> RootMetadata \<Rightarrow> Block list \<Rightarrow> QuorumCert list \<Rightarrow> TimeoutCertificate option
     \<Rightarrow> nat \<Rightarrow> 'x \<Rightarrow> 'd \<Rightarrow> (unit, anyhow) result \<times> ('x, 'd) BlockStore option" where
  "bs_build E root root_metadata blocks quorum_certs highest_timeout_cert max_pruned x d =
     (let root_qc = ri_quorum_cert root;
          result = scr_new (rm_accu_hash root_metadata) (rm_frozen_root_hashes root_metadata)
                     (rm_num_leaves root_metadata) [] 0 None [] [] []
      in if \<not> (bi_version (qc_certified_block root_qc) = 0
                \<or> bi_version (qc_certified_block root_qc) = rm_version root_metadata)
            \<or> \<not> (bi_executed_state_id (qc_certified_block root_qc) = ACCUMULATOR_PLACEHOLDER_HASH
                \<or> bi_executed_state_id (qc_certified_block root_qc) = rm_accu_hash root_metadata)
         then (Panic, None)
         else case bt_new \<lparr>eb_block = ri_block root, eb_state_compute_result = result\<rparr> root_qc
                     (ri_ordered_cert root) (ri_commit_li root) max_pruned highest_timeout_cert of
                None \<Rightarrow> (Panic, None)
              | Some tree \<Rightarrow>
                  map_prod id Some
                    (insert_recovered E blocks quorum_certs
                     \<lparr>bs_inner = tree, bs_state_computer = x, bs_storage = d\<rparr>))"

definition get_all_block_id :: "(HashValue fset \<Rightarrow> HashValue list) \<Rightarrow> BlockTree \<Rightarrow> HashValue list" where
  "get_all_block_id order t = order (fmdom (id_to_block t))"

definition bs_new ::
  "('x, 'd) store_env \<Rightarrow> RecoveryData \<Rightarrow> nat \<Rightarrow> 'x \<Rightarrow> 'd \<Rightarrow> (unit, anyhow) result \<times> ('x, 'd) BlockStore option" where
  "bs_new E initial_data max_pruned x d =
     (case bs_build E (rd_root initial_data) (rd_root_metadata initial_data) (rd_blocks initial_data)
             (rd_quorum_certs initial_data) (rd_highest_timeout_certificate initial_data) max_pruned x d of
        (Ok _, Some s) \<Rightarrow> map_prod id Some (try_commit E s)
      | r \<Rightarrow> r)"

definition bs_rebuild ::
  "('x, 'd) store_env \<Rightarrow> RootInfo \<Rightarrow> RootMetadata \<Rightarrow> Block list \<Rightarrow> QuorumCert list
     \<Rightarrow> (('x, 'd) BlockStore, unit, anyhow) st_result" where
  "bs_rebuild E root root_metadata blocks quorum_certs s =
     (case bs_build E root root_metadata blocks quorum_certs (bt_highest_timeout_cert (bs_inner s))
             (max_pruned_blocks_in_mem (bs_inner s)) (bs_state_computer s) (bs_storage s) of
        (Ok _, Some s1) \<Rightarrow>
          (case on_db (db_prune_tree (se_storage E) (get_all_block_id (hash_order E) (bs_inner s))) s1 of
             (Panic, s2) \<Rightarrow> (Panic, s2)
           | (_, s2) \<Rightarrow> try_commit E s2)
      | (_, Some s1) \<Rightarrow> (Panic, s\<lparr>bs_state_computer := bs_state_computer s1, bs_storage := bs_storage s1\<rparr>)
      | (_, None) \<Rightarrow> (Panic, s))"

definition bs_sync_info :: "('x, 'd) BlockStore \<Rightarrow> SyncInfo" where
  "bs_sync_info s =
     si_new_decoupled (bt_highest_quorum_cert (bs_inner s)) (bt_highest_ordered_cert (bs_inner s))
       (Some (bt_highest_ledger_info (bs_inner s))) (bt_highest_timeout_cert (bs_inner s))"

section \<open>What the operations keep\<close>

lemma sread_Ok: "sread f s = (Ok a, s') \<longleftrightarrow> f s = Ok a \<and> s' = s" "slift m s = (Ok a, s') \<longleftrightarrow> m = Ok a \<and> s' = s"
  by auto

text \<open>A method keeps a predicate when the predicate holds afterwards unless the process has panicked.\<close>

definition keeps :: "('s \<Rightarrow> bool) \<Rightarrow> ('s, 'a, 'e) st_result \<Rightarrow> bool" where
  "keeps P m \<longleftrightarrow> (\<forall>s r s'. P s \<longrightarrow> m s = (r, s') \<longrightarrow> r \<noteq> Panic \<longrightarrow> P s')"

named_theorems keeps_intros \<open>methods that keep a predicate because their parts do\<close>

lemma keepsI: "(\<And>s r s'. P s \<Longrightarrow> m s = (r, s') \<Longrightarrow> r \<noteq> Panic \<Longrightarrow> P s') \<Longrightarrow> keeps P m"
  by (simp add: keeps_def)

lemma keepsD: "keeps P m \<Longrightarrow> P s \<Longrightarrow> m s = (r, s') \<Longrightarrow> r \<noteq> Panic \<Longrightarrow> P s'"
  unfolding keeps_def by blast

lemma keeps_bind [keeps_intros]:
  assumes "keeps P m" and "\<And>a. keeps P (f a)"
  shows "keeps P (sbind m f)"
proof (rule keepsI)
  fix s r s' assume P: "P s" and b: "sbind m f s = (r, s')" and r: "r \<noteq> Panic"
  obtain r1 s1 where m: "m s = (r1, s1)" by (cases "m s")
  show "P s'"
  proof (cases r1)
    case (Ok a)
    with m b have "f a s1 = (r, s')" by (simp add: sbind_def)
    with keepsD [OF assms(1) P m] keepsD [OF assms(2)] Ok r show ?thesis by blast
  qed (use keepsD [OF assms(1) P m] m b r in \<open>auto simp: sbind_def\<close>)
qed

lemma keeps_pure [keeps_intros]:
  "keeps P (sret a)" "keeps P (sread f)" "keeps P (slift m)"
  by (auto simp: keeps_def)

lemma keeps_map_err [keeps_intros]: "keeps P m \<Longrightarrow> keeps P (smap_err g m)"
  by (fastforce simp: keeps_def smap_err_def split: prod.splits)

lemma keeps_field:
  "keeps P (on_tree m) \<longleftrightarrow> (\<forall>s r t. P s \<longrightarrow> m (bs_inner s) = (r, t) \<longrightarrow> r \<noteq> Panic \<longrightarrow> P (s\<lparr>bs_inner := t\<rparr>))"
  "keeps P (on_computer m') \<longleftrightarrow> (\<forall>s r x. P s \<longrightarrow> m' (bs_state_computer s) = (r, x) \<longrightarrow> r \<noteq> Panic \<longrightarrow> P (s\<lparr>bs_state_computer := x\<rparr>))"
  "keeps P (on_db m'') \<longleftrightarrow> (\<forall>s r d. P s \<longrightarrow> m'' (bs_storage s) = (r, d) \<longrightarrow> r \<noteq> Panic \<longrightarrow> P (s\<lparr>bs_storage := d\<rparr>))"
  unfolding keeps_def on_tree_def on_computer_def on_db_def sfield_iff by blast+

text \<open>
  The steps that change the store: running the state computer, saving before inserting, moving the
  ordered root with the state computer, and the callback.
\<close>

definition kept_by_compute :: "('x, 'd) store_env \<Rightarrow> (('x, 'd) BlockStore \<Rightarrow> bool) \<Rightarrow> bool" where
  "kept_by_compute E P \<longleftrightarrow> (\<forall>b p. keeps P (on_computer (sc_compute (se_computer E) b p)))"

definition save_and_insert ::
  "('x, 'd) store_env \<Rightarrow> ExecutedBlock \<Rightarrow> (('x, 'd) BlockStore, ExecutedBlock, anyhow) st_result" where
  "save_and_insert E b = sbind (on_db (db_save_tree (se_storage E) [eb_block b] [])) (\<lambda>_. on_tree (insert_block b))"

definition kept_by_steps :: "('x, 'd) store_env \<Rightarrow> (('x, 'd) BlockStore \<Rightarrow> bool) \<Rightarrow> bool" where
  "kept_by_steps E P \<longleftrightarrow> kept_by_compute E P
     \<and> (\<forall>b s r s'. P s \<longrightarrow> bt_get_block (bs_inner s) (eb_id b) = None \<longrightarrow> save_and_insert E b s = (r, s') \<longrightarrow> r \<noteq> Panic \<longrightarrow> P s')
     \<and> (\<forall>qc. keeps P (sbind (on_db (db_save_tree (se_storage E) [] [qc])) (\<lambda>_. on_tree (insert_quorum_cert qc))))
     \<and> (\<forall>tc. keeps P (sbind (on_db (db_save_highest_timeout_cert (se_storage E) tc)) (\<lambda>_. on_tree (smodify (replace_timeout_cert tc)))))
     \<and> (\<forall>li. keeps P (bs_commit E li))
     \<and> (\<forall>bs li. keeps P (commit_callback E bs li))"

lemma smap_err_Ok [simp]: "smap_err g m s = (Ok a, s') \<longleftrightarrow> m s = (Ok a, s')"
  by (auto simp: smap_err_def split: prod.splits)

lemma sbind_smap_err:
  assumes "sbind (smap_err g m) f s = (r, s')" and "r \<noteq> Panic"
  shows "\<exists>r'. sbind m f s = (r', s') \<and> r' \<noteq> Panic"
  using assms by (cases "m s"; cases "fst (m s)") (auto simp: sbind_def smap_err_def)

lemma sbind_smap_err_keeps: "keeps P (sbind m f) \<Longrightarrow> keeps P (sbind (smap_err g m) f)"
  by (rule keepsI) (meson keepsD sbind_smap_err)

lemma keeps_execute_block:
  assumes "kept_by_compute E P" shows "keeps P (execute_block E b)"
  unfolding execute_block_def using assms by (intro keeps_intros) (simp add: kept_by_compute_def)

lemma keeps_reexecute:
  assumes "kept_by_compute E P" shows "keeps P (reexecute_blocks E bs)"
  by (induction bs) (auto intro!: keeps_intros keeps_execute_block assms)

lemma keeps_execute_with_recovery:
  assumes "kept_by_compute E P" shows "keeps P (execute_with_recovery E b)"
proof (rule keepsI)
  note ex = keeps_execute_block [OF assms, of b]
  fix s r s' assume P: "P s" and b: "execute_with_recovery E b s = (r, s')" and r: "r \<noteq> Panic"
  obtain r1 s1 where m: "execute_block E b s = (r1, s1)" by (cases "execute_block E b s")
  have keep: "keeps P (sbind (sread (\<lambda>s. ordered_path (bs_inner s) i)) (\<lambda>bs. sbind (reexecute_blocks E bs) (\<lambda>_.
      smap_err from_executor_error (execute_block E b))))" for i
    by (intro keeps_intros keeps_reexecute ex assms)
  show "P s'"
  proof (cases r1)
    case (Err e)
    with m keepsD [OF ex P m] have "P s1" by simp
    with Err m b keepsD [OF keep] r show ?thesis
      by (cases e) (auto simp: execute_with_recovery_def)
  qed (use m b r keepsD [OF ex P m] in \<open>auto simp: execute_with_recovery_def\<close>)
qed

lemma execute_with_recovery_block:
  assumes "execute_with_recovery E b s = (Ok x, s')"
  shows "eb_block x = b" and "bs_inner s' = bs_inner s"
proof -
  have ex: "execute_block E b s1 = (Ok y, s2) \<Longrightarrow> eb_block y = b" for s1 y s2
    by (auto simp: execute_block_def)
  obtain r1 s1 where m: "execute_block E b s = (r1, s1)" by (cases "execute_block E b s")
  with assms show "eb_block x = b"
    by (cases r1) (auto simp: execute_with_recovery_def ex split: ExecutorError.splits prod.splits)
  have "kept_by_compute E (\<lambda>s1. bs_inner s1 = bs_inner s)" unfolding kept_by_compute_def keeps_field by simp
  from keepsD [OF keeps_execute_with_recovery [OF this] _ assms] show "bs_inner s' = bs_inner s" by simp
qed

lemma keeps_execute_and_insert_block:
  assumes "kept_by_steps E P" shows "keeps P (execute_and_insert_block E b)"
proof (rule keepsI)
  fix s r s' assume P: "P s" and b: "execute_and_insert_block E b s = (r, s')" and r: "r \<noteq> Panic"
  have c: "kept_by_compute E P" using assms by (simp add: kept_by_steps_def)
  show "P s'"
  proof (cases "bt_get_block (bs_inner s) (blk_id b)")
    case None
    obtain r1 s1 where e: "execute_with_recovery E b s = (r1, s1)" by (cases "execute_with_recovery E b s")
    have step: "r1 = Ok x \<Longrightarrow> sbind (smap_err (WithContext ''Insert block failed when saving block'')
        (on_db (db_save_tree (se_storage E) [eb_block x] []))) (\<lambda>_. on_tree (insert_block x)) s1 = (r, s') \<Longrightarrow> P s'" for x
      using sbind_smap_err [OF _ r] assms keepsD [OF keeps_execute_with_recovery [OF c] P e]
        execute_with_recovery_block [of E b s x s1] e None
      unfolding kept_by_steps_def save_and_insert_def eb_id_def by (metis result.distinct(3))
    have "r1 \<noteq> Panic \<Longrightarrow> P s1" using keepsD [OF keeps_execute_with_recovery [OF c] P e] .
    with b None r e P step show ?thesis
      by (cases r1; cases "ordered_root (bs_inner s)")
        (auto simp: execute_and_insert_block_def sbind_def sread_def rbind_def expect_def ensure_def split: if_splits)
  qed (use b P in \<open>simp add: execute_and_insert_block_def\<close>)
qed

lemma keeps_save:
  assumes "kept_by_steps E P" and "g = WithContext msg"
  shows "keeps P (sbind (smap_err g (on_db (db_save_tree (se_storage E) [] [qc]))) (\<lambda>_. on_tree (insert_quorum_cert qc)))"
    and "keeps P (sbind (smap_err g (on_db (db_save_highest_timeout_cert (se_storage E) tc)))
      (\<lambda>_. on_tree (smodify (replace_timeout_cert tc))))"
  using assms(1) unfolding kept_by_steps_def by (blast intro: sbind_smap_err_keeps)+

lemma keeps_insert_single_quorum_cert:
  assumes "kept_by_steps E P" shows "keeps P (insert_single_quorum_cert E qc)"
  unfolding insert_single_quorum_cert_def by (rule keeps_bind [OF keeps_pure(2) keeps_save(1) [OF assms refl]])

lemma keeps_insert_timeout_certificate:
  assumes "kept_by_steps E P" shows "keeps P (insert_timeout_certificate E tc)"
  using keeps_save(2) [OF assms refl, of _ tc]
  unfolding keeps_def insert_timeout_certificate_def Let_def by (auto split: if_splits)

lemma keeps_commit_certs:
  assumes "kept_by_steps E P" shows "keeps P (commit_certs E qcs)"
proof (induction qcs)
  case (Cons qc qcs)
  have "keeps P (\<lambda>s. if bi_round (qc_commit_info qc) > eb_round root
      then (case bs_commit E (qc_ledger_info qc) s of (Panic, s1) \<Rightarrow> (Panic, s1) | (_, s1) \<Rightarrow> commit_certs E qcs s1)
      else commit_certs E qcs s)" for root
  proof (rule keepsI)
    fix s r s' assume P: "P s" and r: "r \<noteq> Panic" and b: "(if bi_round (qc_commit_info qc) > eb_round root
      then (case bs_commit E (qc_ledger_info qc) s of (Panic, s1) \<Rightarrow> (Panic, s1) | (_, s1) \<Rightarrow> commit_certs E qcs s1)
      else commit_certs E qcs s) = (r, s')"
    obtain r1 s1 where m: "bs_commit E (qc_ledger_info qc) s = (r1, s1)" by (cases "bs_commit E (qc_ledger_info qc) s")
    have "keeps P (bs_commit E (qc_ledger_info qc))" using assms by (simp add: kept_by_steps_def)
    from keepsD [OF this P m] b m r show "P s'"
      by (cases r1) (auto split: if_splits dest: keepsD [OF Cons.IH] keepsD [OF Cons.IH P])
  qed
  then show ?case by (auto intro!: keeps_intros)
qed (auto intro: keeps_intros)

lemma keeps_try_commit:
  assumes "kept_by_steps E P" shows "keeps P (try_commit E)"
  using keeps_commit_certs [OF assms] unfolding keeps_def try_commit_def by metis

lemma keeps_insert_all:
  assumes "\<And>a. keeps P (f a)" shows "keeps P (insert_all f as :: ('s, unit, 'f) st_result)"
proof (induction as)
  case (Cons a as)
  show ?case
  proof (rule keepsI)
    fix s s' and r :: "(unit, 'f) result"
    assume P: "P s" and b: "insert_all f (a # as) s = (r, s')" and r: "r \<noteq> Panic"
    obtain r1 s1 where m: "f a s = (r1, s1)" by (cases "f a s")
    from keepsD [OF assms P m] b m r show "P s'"
      using keepsD [OF Cons.IH, of s1 r s'] by (cases r1) auto
  qed
qed (auto intro: keeps_intros)

lemma keeps_insert_recovered:
  assumes "kept_by_steps E P" shows "keeps P (insert_recovered E blocks qcs)"
  unfolding insert_recovered_def
  by (intro keeps_bind keeps_insert_all keeps_execute_and_insert_block keeps_insert_single_quorum_cert assms)

end
