(* ===== verification/StoreSafety.thy ===== *)
theory StoreSafety
  imports BlockStore
begin

text \<open>
  What the block store guarantees over its runs: the blocks it hands to the state computer form one
  chain from the root it was built on, and what it holds above the committed block is found again
  after a restart.
\<close>

section \<open>Runs of the store\<close>

text \<open>
  The operations of a store in any order. The callback of a commit may come at any time and with any
  blocks. A run ends when an operation panics.
\<close>

inductive bs_run :: "('x, 'd) store_env \<Rightarrow> HashValue \<Rightarrow> 'x \<Rightarrow> ('x, 'd) BlockStore \<Rightarrow> bool"
  for E :: "('x, 'd) store_env" and root_id :: HashValue and x0 :: 'x where
  run_build: "bs_build E root md blocks qcs tc m x0 d = (Ok u, Some s) \<Longrightarrow> blk_id (ri_block root) = root_id \<Longrightarrow>
     bs_run E root_id x0 s"
| run_block: "bs_run E root_id x0 s \<Longrightarrow> execute_and_insert_block E b s = (r1, s') \<Longrightarrow> r1 \<noteq> Panic \<Longrightarrow> bs_run E root_id x0 s'"
| run_cert: "bs_run E root_id x0 s \<Longrightarrow> insert_single_quorum_cert E qc s = (r2, s') \<Longrightarrow> r2 \<noteq> Panic \<Longrightarrow> bs_run E root_id x0 s'"
| run_timeout: "bs_run E root_id x0 s \<Longrightarrow> insert_timeout_certificate E t s = (r3, s') \<Longrightarrow> r3 \<noteq> Panic \<Longrightarrow> bs_run E root_id x0 s'"
| run_commit: "bs_run E root_id x0 s \<Longrightarrow> bs_commit E li s = (r4, s') \<Longrightarrow> r4 \<noteq> Panic \<Longrightarrow> bs_run E root_id x0 s'"
| run_try_commit: "bs_run E root_id x0 s \<Longrightarrow> try_commit E s = (r5, s') \<Longrightarrow> r5 \<noteq> Panic \<Longrightarrow> bs_run E root_id x0 s'"
| run_callback: "bs_run E root_id x0 s \<Longrightarrow> commit_callback E bs li s = (r6, s') \<Longrightarrow> r6 \<noteq> Panic \<Longrightarrow> bs_run E root_id x0 s'"

lemma bs_build_Ok:
  assumes "bs_build E root md blocks qcs tc m x d = (Ok u, Some s)"
  shows "\<exists>res t. bt_new \<lparr>eb_block = ri_block root, eb_state_compute_result = res\<rparr>
      (ri_quorum_cert root) (ri_ordered_cert root) (ri_commit_li root) m tc = Some t
    \<and> insert_recovered E blocks qcs
      \<lparr>bs_inner = t, bs_state_computer = x, bs_storage = d\<rparr> = (Ok u, s)"
proof -
  let ?m = "insert_recovered E blocks qcs"
  let ?root = "\<lparr>eb_block = ri_block root, eb_state_compute_result = scr_new (rm_accu_hash md)
    (rm_frozen_root_hashes md) (rm_num_leaves md) [] 0 None [] [] []\<rparr>"
  obtain t where t: "bt_new ?root (ri_quorum_cert root) (ri_ordered_cert root) (ri_commit_li root) m tc = Some t"
    using assms
    by (cases "bt_new ?root (ri_quorum_cert root) (ri_ordered_cert root) (ri_commit_li root) m tc")
      (simp_all add: bs_build_def Let_def split: if_splits)
  with assms have i: "map_prod id Some (?m \<lparr>bs_inner = t, bs_state_computer = x, bs_storage = d\<rparr>) = (Ok u, Some s)"
    by (simp add: bs_build_def Let_def del: sbind_Ok split: if_splits)
  from i have "?m \<lparr>bs_inner = t, bs_state_computer = x, bs_storage = d\<rparr> = (Ok u, s)"
    by (cases "?m \<lparr>bs_inner = t, bs_state_computer = x, bs_storage = d\<rparr>") simp
  with t show ?thesis by blast
qed

text \<open>A predicate of a new store that the steps keep holds in every run.\<close>

lemma bs_run_keeps:
  assumes "bs_run E root_id x0 s" and k: "kept_by_steps E P"
    and new: "\<And>root res qc oc li m tc t d. bt_new \<lparr>eb_block = root, eb_state_compute_result = res\<rparr> qc oc li m tc = Some t \<Longrightarrow>
      blk_id root = root_id \<Longrightarrow> P \<lparr>bs_inner = t, bs_state_computer = x0, bs_storage = d\<rparr>"
  shows "P s"
  using assms(1)
proof (induction rule: bs_run.induct)
  case (run_build root md blocks qcs tc m d u s)
  from bs_build_Ok [OF run_build(1)] obtain res t where
    t: "bt_new \<lparr>eb_block = ri_block root, eb_state_compute_result = res\<rparr>
      (ri_quorum_cert root) (ri_ordered_cert root) (ri_commit_li root) m tc = Some t"
    and i: "insert_recovered E blocks qcs
      \<lparr>bs_inner = t, bs_state_computer = x0, bs_storage = d\<rparr> = (Ok u, s)" by blast
  show ?case by (rule keepsD [OF keeps_insert_recovered [OF k] new [OF t run_build(2)] i]) simp
next
  case (run_block s b r1 s')
  show ?case by (rule keepsD [OF keeps_execute_and_insert_block [OF k] run_block.IH run_block.hyps(2,3)])
next
  case (run_cert s qc r2 s')
  show ?case by (rule keepsD [OF keeps_insert_single_quorum_cert [OF k] run_cert.IH run_cert.hyps(2,3)])
next
  case (run_timeout s t r3 s')
  show ?case by (rule keepsD [OF keeps_insert_timeout_certificate [OF k] run_timeout.IH run_timeout.hyps(2,3)])
next
  case (run_commit s li r4 s')
  have "keeps P (bs_commit E li)" using k by (simp add: kept_by_steps_def)
  from keepsD [OF this run_commit.IH run_commit.hyps(2,3)] show ?case .
next
  case (run_try_commit s r5 s')
  show ?case by (rule keepsD [OF keeps_try_commit [OF k] run_try_commit.IH run_try_commit.hyps(2,3)])
next
  case (run_callback s bs li r6 s')
  have "keeps P (commit_callback E bs li)" using k by (simp add: kept_by_steps_def)
  from keepsD [OF this run_callback.IH run_callback.hyps(2,3)] show ?case .
qed

section \<open>The blocks handed to the state computer\<close>

text \<open>Chains of blocks, each the parent of the next one.\<close>

fun chain_from :: "HashValue \<Rightarrow> Block list \<Rightarrow> bool" where
  "chain_from r [] \<longleftrightarrow> True"
| "chain_from r (b # bs) \<longleftrightarrow> blk_parent_id b = r \<and> chain_from (blk_id b) bs"

definition chain_end :: "HashValue \<Rightarrow> Block list \<Rightarrow> HashValue" where
  "chain_end r bs = (if bs = [] then r else blk_id (last bs))"

lemma chain_from_append: "chain_from r (bs @ cs) \<longleftrightarrow> chain_from r bs \<and> chain_from (chain_end r bs) cs"
  by (induction bs arbitrary: r) (auto simp: chain_end_def)

lemma linked_chain:
  "linked t r bs \<Longrightarrow> chain_from r (map eb_block bs)" "path_end r bs = chain_end r (map eb_block bs)"
  by (induction bs arbitrary: r)
    (auto simp: path_end_def chain_end_def eb_parent_id_def eb_quorum_cert_def eb_id_def last_map)

definition ids_ok :: "BlockTree \<Rightarrow> bool" where
  "ids_ok t \<longleftrightarrow> (\<forall>i b. bt_get_block t i = Some b \<longrightarrow> eb_id b = i)"

lemma path_loop_linked:
  assumes "path_loop t rr i res = Some r" and "ids_ok t" and "r = Some (j, bs)"
  shows "\<exists>cs. bs = cs @ res \<and> linked t j cs \<and> path_end j cs = i \<and> (\<forall>b \<in> set cs. rr < eb_round b)"
proof -
  let ?P = "\<lambda>t rr i res r. \<forall>j bs. r = Some (j, bs) \<longrightarrow> ids_ok t \<longrightarrow>
    (\<exists>cs. bs = cs @ res \<and> linked t j cs \<and> path_end j cs = i \<and> (\<forall>b \<in> set cs. rr < eb_round b))"
  have "?P t rr i res r"
  proof (rule path_loop.raw_induct [where P = ?P, OF _ assms(1)])
    fix loop t rr i res r
    assume IH: "\<And>t rr i res y. loop t rr i res = Some y \<Longrightarrow> ?P t rr i res y"
      and step: "(case bt_get_block t i of None \<Rightarrow> Some None | Some block \<Rightarrow>
        if eb_round block \<le> rr then Some (Some (i, res)) else loop t rr (eb_parent_id block) (block # res)) = Some r"
    show "?P t rr i res r"
    proof (intro allI impI)
      fix j bs assume r: "r = Some (j, bs)" and ok: "ids_ok t"
      from step r obtain b where b: "bt_get_block t i = Some b" by (auto split: option.splits)
      with ok have id: "eb_id b = i" by (simp add: ids_ok_def)
      show "\<exists>cs. bs = cs @ res \<and> linked t j cs \<and> path_end j cs = i \<and> (\<forall>b \<in> set cs. rr < eb_round b)"
      proof (cases "eb_round b \<le> rr")
        case True
        with step b r show ?thesis by (auto simp: path_end_def intro: exI [of _ "[]"])
      next
        case False
        with step b have "loop t rr (eb_parent_id b) (b # res) = Some r" by simp
        from IH [OF this] r ok obtain cs where "bs = cs @ b # res" "linked t j cs" "path_end j cs = eb_parent_id b"
          "\<forall>b \<in> set cs. rr < eb_round b" by blast
        with b id False show ?thesis by (intro exI [of _ "cs @ [b]"]) (auto simp: linked_snoc path_end_def)
      qed
    qed
  qed
  with assms(2,3) show ?thesis by blast
qed

text \<open>Operations of the tree that leave the ordered root and the filing of blocks as they are.\<close>

definition same_order :: "BlockTree \<Rightarrow> BlockTree \<Rightarrow> bool" where
  "same_order t t' \<longleftrightarrow> ordered_root_id t' = ordered_root_id t \<and> (ids_ok t \<longrightarrow> ids_ok t')"

lemma insert_block_same_order: "insert_block b t = (r, t') \<Longrightarrow> same_order t t'"
  by (auto simp: insert_block_def Let_def same_order_def ids_ok_def bt_get_block_def add_child_def lb_new_def
      split: option.splits if_splits)

lemma insert_quorum_cert_same_order: "insert_quorum_cert qc t = (r, t') \<Longrightarrow> same_order t t'"
  by (auto simp: insert_quorum_cert_def Let_def same_order_def ids_ok_def bt_get_block_def split: option.splits if_splits)

lemma same_order_trans: "same_order t t1 \<Longrightarrow> same_order t1 t2 \<Longrightarrow> same_order t t2"
  by (simp add: same_order_def)

lemma same_order_fewer:
  assumes "ordered_root_id t' = ordered_root_id t"
    and "\<And>i b. bt_get_block t' i = Some b \<Longrightarrow> bt_get_block t i = Some b"
  shows "same_order t t'"
  using assms unfolding same_order_def ids_ok_def by blast

lemma forget_pruned_same_order: "same_order t (forget_pruned n t)"
proof (induction n arbitrary: t)
  case (Suc n)
  show ?case
  proof (cases "pruned_block_ids t")
    case (Cons x rest)
    have "same_order t (remove_block x (t\<lparr>pruned_block_ids := rest\<rparr>))"
      by (rule same_order_fewer) (simp_all add: remove_block_def bt_get_block_def split: if_splits)
    from same_order_trans [OF this Suc.IH] Cons show ?thesis by simp
  qed (use Suc.IH in simp)
qed (simp add: same_order_def)

lemma update_commit_same_order: "same_order t (update_commit_id_and_process_pruned_blocks i ids t)"
proof -
  let ?t = "t\<lparr>commit_root_id := i, pruned_block_ids := pruned_block_ids t @ ids\<rparr>"
  have one: "same_order t ?t" by (rule same_order_fewer) (simp_all add: bt_get_block_def)
  from same_order_trans [OF one forget_pruned_same_order] one show ?thesis
    unfolding update_commit_id_and_process_pruned_blocks_def Let_def by (simp split: if_splits)
qed

lemma ordered_path_Ok:
  assumes "ordered_path t i = Ok bs" and "bs \<noteq> []" and "ids_ok t"
  shows "linked t (ordered_root_id t) bs" and "path_end (ordered_root_id t) bs = i"
proof -
  from assms(1,2) obtain root where p: "path_from_root_to_block t i (ordered_root_id t) (eb_round root) = Some (Some bs)"
    by (auto simp: ordered_path_def bt_path_from_ordered_root_def split: option.splits)
  then obtain r where r: "path_loop t (eb_round root) i [] = Some r" "r = Some (ordered_root_id t, bs)"
    by (auto simp: path_from_root_to_block_def split: option.splits if_splits)
  from path_loop_linked [OF r(1) assms(3) r(2)]
  show "linked t (ordered_root_id t) bs" and "path_end (ordered_root_id t) bs = i" by auto
qed

lemma commit_order_Ok:
  assumes "commit_order li s = (Ok bs, s')" and "ids_ok (bs_inner s)"
  shows "linked (bs_inner s) (ordered_root_id (bs_inner s)) bs"
    and "s' = s\<lparr>bs_inner := (bs_inner s)\<lparr>ordered_root_id := path_end (ordered_root_id (bs_inner s)) bs\<rparr>\<rparr>"
proof -
  let ?i = "li_consensus_block_id (lis_ledger_info li)"
  from assms(1) obtain b where b: "bt_get_block (bs_inner s) ?i = Some b"
    and p: "ordered_path (bs_inner s) ?i = (Ok bs :: (_, anyhow) result)" "bs \<noteq> []"
    and u: "on_tree (\<lambda>t. case update_ordered_root_id (eb_id b) t of Some t' \<Rightarrow> (Ok (), t') | None \<Rightarrow> (Panic, t)) s
      = (Ok () :: (unit, anyhow) result, s')"
    unfolding commit_order_def Let_def by (auto simp: sread_Ok simp del: sread_iff slift_iff li_consensus_block_id_def)
  have "eb_id b = ?i" using b assms(2) by (simp add: ids_ok_def)
  with u ordered_path_Ok [OF p assms(2)] show "linked (bs_inner s) (ordered_root_id (bs_inner s)) bs"
    and "s' = s\<lparr>bs_inner := (bs_inner s)\<lparr>ordered_root_id := path_end (ordered_root_id (bs_inner s)) bs\<rparr>\<rparr>"
    by (auto simp: on_tree_def sfield_iff update_ordered_root_id_def split: if_splits option.splits)
qed

lemma commit_order_Err:
  assumes "commit_order li s = (Err e, s')" shows "s' = s"
  using assms unfolding commit_order_def Let_def
  by (auto simp: sbind_def on_tree_def sfield_def split: prod.splits result.splits option.splits)

lemma bs_commit_cases:
  assumes c: "bs_commit E li s = (res, s')" and res: "res \<noteq> Panic" and ok: "ids_ok (bs_inner s)"
  obtains (refused) "s' = s"
  | (sent) bs a x s2 where "linked (bs_inner s) (ordered_root_id (bs_inner s)) bs"
      "sc_commit (se_computer E) bs li (bs_state_computer s) = (Ok a, x)"
      "s2 = s\<lparr>bs_inner := (bs_inner s)\<lparr>ordered_root_id := path_end (ordered_root_id (bs_inner s)) bs\<rparr>, bs_state_computer := x\<rparr>"
      "s' = s2 \<or> (\<exists>ebs d. commit_callback E ebs d s2 = (res, s'))"
proof -
  obtain r1 s1 where 1: "commit_order li s = (r1, s1)" by (cases "commit_order li s")
  show thesis
  proof (cases r1)
    case (Ok bs)
    obtain r2 s2 where 2: "on_computer (sc_commit (se_computer E) bs li) s1 = (r2, s2)"
      by (cases "on_computer (sc_commit (se_computer E) bs li) s1")
    with c 1 Ok res obtain a where a: "r2 = Ok a" "(case a of None \<Rightarrow> (Ok (), s2)
        | Some (ebs, d) \<Rightarrow> commit_callback E ebs d s2) = (res, s')"
      by (cases r2) (auto simp: bs_commit_def sbind_def split: option.splits prod.splits)
    note s1 = commit_order_Ok [OF 1 [unfolded Ok] ok]
    from 2 a(1) obtain x where x: "sc_commit (se_computer E) bs li (bs_state_computer s1) = (Ok a, x)"
      "s2 = s1\<lparr>bs_state_computer := x\<rparr>" by (auto simp: on_computer_def sfield_iff)
    have "s' = s2 \<or> (\<exists>ebs d. commit_callback E ebs d s2 = (res, s'))" using a(2) by (auto split: option.splits)
    with s1 x show thesis by (intro sent [of bs a x s2]) simp_all
  next
    case (Err e)
    with c 1 commit_order_Err refused show thesis by (auto simp: bs_commit_def sbind_def)
  qed (use c 1 res in \<open>auto simp: bs_commit_def sbind_def\<close>)
qed

text \<open>
  The interface of the state computer to the store: an observer of the ids of the blocks that were
  handed over, to which executing blocks adds nothing and a commit its blocks.
\<close>

locale commit_log =
  fixes SC :: "'x state_computer" and ordered :: "'x \<Rightarrow> HashValue list"
  assumes compute_adds_nothing: "sc_compute SC b p x = (r, x') \<Longrightarrow> ordered x' = ordered x"
    and commit_appends: "sc_commit SC bs li x = (Ok c, x') \<Longrightarrow> ordered x' = ordered x @ map eb_id bs"

definition handed_over ::
  "('x \<Rightarrow> HashValue list) \<Rightarrow> HashValue \<Rightarrow> HashValue list \<Rightarrow> ('x, 'd) BlockStore \<Rightarrow> bool" where
  "handed_over ordered root_id before s \<longleftrightarrow> ids_ok (bs_inner s) \<and>
     (\<exists>bs. ordered (bs_state_computer s) = before @ map blk_id bs \<and> chain_from root_id bs
        \<and> chain_end root_id bs = ordered_root_id (bs_inner s))"

lemma handed_over_cong:
  assumes "handed_over ordered r o0 s" and "ordered (bs_state_computer s') = ordered (bs_state_computer s)"
    and "same_order (bs_inner s) (bs_inner s')"
  shows "handed_over ordered r o0 s'"
  using assms unfolding handed_over_def same_order_def by auto

lemma keeps_handed_over:
  shows "keeps (handed_over ordered r o0) (on_db m)"
    and "(\<And>t res t'. m' t = (res, t') \<Longrightarrow> res \<noteq> Panic \<Longrightarrow> same_order t t') \<Longrightarrow> keeps (handed_over ordered r o0) (on_tree m')"
  unfolding keeps_field by (auto intro: handed_over_cong simp: same_order_def)

lemma commit_callback_handed_over: "keeps (handed_over ordered r o0) (commit_callback E bs li)"
proof -
  have one: "keeps (handed_over ordered r o0) (on_tree (smodify (update_highest_ledger_info li)))"
    by (rule keeps_handed_over(2)) (auto simp: update_highest_ledger_info_def same_order_def ids_ok_def bt_get_block_def)
  have two: "keeps (handed_over ordered r o0) (on_tree (smodify (update_commit_id_and_process_pruned_blocks i ids)))" for i ids
    by (rule keeps_handed_over(2)) (auto simp: update_commit_same_order)
  have "keeps (handed_over ordered r o0) (update_counters_and_prune_blocks E bs)"
  proof (rule keepsI)
    fix s res s' assume P: "handed_over ordered r o0 s" and u: "update_counters_and_prune_blocks E bs s = (res, s')" and res: "res \<noteq> Panic"
    then obtain ids r1 s1 where d: "on_db (db_prune_tree (se_storage E) ids) s = (r1, s1)" "r1 \<noteq> Panic"
      and c: "on_tree (smodify (update_commit_id_and_process_pruned_blocks (eb_id (last bs)) ids)) s1 = (res, s')"
      by (auto simp: update_counters_and_prune_blocks_def Let_def split: if_splits option.splits prod.splits result.splits)
    from keepsD [OF two keepsD [OF keeps_handed_over(1) P d] c res] show "handed_over ordered r o0 s'" .
  qed
  with one show ?thesis unfolding commit_callback_def by (intro keeps_bind)
qed

context commit_log
begin

lemma bs_commit_handed_over:
  assumes "se_computer E = SC"
  shows "keeps (handed_over ordered r o0) (bs_commit E li)"
proof (rule keepsI)
  fix s res s' assume P: "handed_over ordered r o0 s" and c: "bs_commit E li s = (res, s')" and res: "res \<noteq> Panic"
  from P have "ids_ok (bs_inner s)" by (simp add: handed_over_def)
  from c res this show "handed_over ordered r o0 s'"
  proof (cases rule: bs_commit_cases)
    case (sent bs a x s2)
    let ?root = "ordered_root_id (bs_inner s)"
    from P obtain cs where cs: "ordered (bs_state_computer s) = o0 @ map blk_id cs" "chain_from r cs"
      "chain_end r cs = ?root" by (auto simp: handed_over_def)
    let ?bs = "cs @ map eb_block bs"
    have "ordered x = o0 @ map blk_id ?bs"
      using commit_appends [OF sent(2) [unfolded assms]] cs(1) by (simp add: eb_id_def comp_def)
    moreover have "chain_from r ?bs" "chain_end r ?bs = path_end ?root bs"
      using linked_chain [where r = ?root and bs = bs] sent(1) cs(2,3)
      by (auto simp: chain_from_append chain_end_def path_end_def eb_id_def last_map)
    moreover have "ids_ok (bs_inner s2)" using P sent(3) by (simp add: handed_over_def ids_ok_def bt_get_block_def)
    ultimately have "handed_over ordered r o0 s2"
      unfolding handed_over_def by (intro conjI exI [of _ ?bs]) (simp_all add: sent(3))
    with sent(4) res keepsD [OF commit_callback_handed_over] show ?thesis by blast
  qed (use P in simp)
qed

lemma kept_handed_over:
  assumes "se_computer E = SC"
  shows "kept_by_steps E (handed_over ordered r o0)"
proof -
  have "keeps (handed_over ordered r o0) (on_computer (sc_compute SC b p))" for b p
    unfolding keeps_field by (auto intro: handed_over_cong simp: same_order_def compute_adds_nothing)
  moreover have "same_order t (replace_timeout_cert tc t)" for t tc
    by (rule same_order_fewer) (simp_all add: replace_timeout_cert_def bt_get_block_def)
  moreover have "keeps (handed_over ordered r o0) (save_and_insert E b)" for b
    unfolding save_and_insert_def by (intro keeps_bind keeps_handed_over) (simp add: insert_block_same_order)
  then have "handed_over ordered r o0 s \<Longrightarrow> save_and_insert E b s = (res, s') \<Longrightarrow> res \<noteq> Panic \<Longrightarrow> handed_over ordered r o0 s'"
    for b s res s' by (rule keepsD)
  ultimately show ?thesis
    unfolding kept_by_steps_def kept_by_compute_def assms
    by (intro conjI keeps_bind keeps_handed_over commit_callback_handed_over bs_commit_handed_over [OF assms] allI)
      (auto simp: insert_quorum_cert_same_order)
qed

lemma run_handed_over:
  assumes "se_computer E = SC" and "bs_run E root_id x0 s"
  shows "handed_over ordered root_id (ordered x0) s"
  by (rule bs_run_keeps [OF assms(2) kept_handed_over [OF assms(1)]])
    (auto simp: handed_over_def bt_new_def ids_ok_def bt_get_block_def lb_new_def eb_id_def chain_end_def
      split: if_splits intro!: exI [of _ "[]"])

end

text \<open>The state computer of decoupled execution logs the blocks in its channel.\<close>

interpretation oc: commit_log ordering_state_computer "\<lambda>x. concat (map (\<lambda>(bs, _). map blk_id bs) (osc_executor_channel x))"
  by unfold_locales
    (auto simp: ordering_state_computer_def osc_compute_def osc_commit_def eb_id_def comp_def split: if_splits)

lemma execution_proxy_log:
  assumes "\<And>b p x r x'. ec_execute_block K b p x = (r, x') \<Longrightarrow> ordered x' = ordered x"
    and "\<And>ids li x r x'. ec_commit_blocks K ids li x = (Ok r, x') \<Longrightarrow> ordered x' = ordered x @ ids"
    and "\<And>ts es x r x'. ec_notify_state_sync K ts es x = (r, x') \<Longrightarrow> ordered x' = ordered x"
  shows "commit_log (execution_proxy K) ordered"
proof
  fix b p x r x' assume "sc_compute (execution_proxy K) b p x = (r, x')"
  with assms(1) show "ordered x' = ordered x" by (auto simp: execution_proxy_def ep_compute_def)
next
  fix bs li x c x' assume "sc_commit (execution_proxy K) bs li x = (Ok c, x')"
  then obtain txns x1 where x1: "ec_commit_blocks K (map eb_id bs) li x = (Ok (), x1)"
    and n: "(case ec_notify_state_sync K (concat txns) (concat (map eb_reconfig_event bs)) x1 of
      (Panic, s') \<Rightarrow> (Panic, s') | (_, s') \<Rightarrow> (Ok (Some (bs, li)), s')) = (Ok c :: (_, ExecutorError) result, x')"
    by (cases "those (map eb_transactions_to_commit bs)") (auto simp: execution_proxy_def ep_commit_def)
  obtain r2 x2 where r2: "ec_notify_state_sync K (concat txns) (concat (map eb_reconfig_event bs)) x1 = (r2, x2)"
    by (cases "ec_notify_state_sync K (concat txns) (concat (map eb_reconfig_event bs)) x1")
  with n have "x2 = x'" by (cases r2) auto
  with assms(2) [OF x1] assms(3) [OF r2] show "ordered x' = ordered x @ map eb_id bs" by simp
qed

section \<open>What is on disk\<close>















section \<open>Restarting\<close>







definition sample_root_cert :: QuorumCert where
  "sample_root_cert = eb_quorum_cert (sample_block 0 0 0)"

definition sample_metadata :: RootMetadata where
  "sample_metadata = \<lparr>rm_accu_hash = ACCUMULATOR_PLACEHOLDER_HASH, rm_frozen_root_hashes = [], rm_num_leaves = 0\<rparr>"



definition sample_root_block :: ExecutedBlock where
  "sample_root_block = \<lparr>eb_block = eb_block (sample_block 0 9 0),
     eb_state_compute_result = scr_new ACCUMULATOR_PLACEHOLDER_HASH [] 0 [] 0 None [] [] []\<rparr>"


lemma sample_blocks [simp]:
  "blk_id (eb_block (sample_block i p r)) = i" "bd_round (blk_block_data (eb_block (sample_block i p r))) = r"
  "eb_id sample_root_block = 0" "eb_round sample_root_block = 0" "eb_block sample_root_block = eb_block (sample_block 0 9 0)"
  using sample_block_fields(1) [of i p r] sample_block_fields(3) [of i p r] sample_block_fields(1) [of 0 9 0]
  by (simp_all add: eb_id_def eb_round_def sample_root_block_def) (simp add: sample_block_def)












definition sample_recovered :: RecoveryData where
  "sample_recovered = \<lparr>rd_last_vote = None,
     rd_root = \<lparr>ri_block = eb_block (sample_block 0 9 0), ri_quorum_cert = sample_root_cert, ri_ordered_cert = sample_root_cert,
       ri_commit_li = qc_ledger_info sample_root_cert\<rparr>,
     rd_root_metadata = sample_metadata, rd_blocks = [eb_block (sample_block 1 0 1)], rd_quorum_certs = [sample_root_cert],
     rd_blocks_to_prune = None, rd_highest_timeout_certificate = None\<rparr>"


lemma sample_candidates:
  "root_candidates C \<lparr>lrd_storage_ledger = qc_ledger_info sample_root_cert\<rparr> bs qcs = Some (0, qc_ledger_info sample_root_cert, bs, qcs)"
  by (simp add: root_candidates_def sample_root_cert_def ends_epoch_def)
    (simp add: sample_block_def eb_quorum_cert_def bi_empty_def)

lemma sample_rd_new:
  "rd_new C None \<lparr>lrd_storage_ledger = qc_ledger_info sample_root_cert\<rparr> [eb_block (sample_block 0 9 0), eb_block (sample_block 1 0 1)]
     sample_metadata [sample_root_cert] None = Ok (sample_recovered\<lparr>rd_blocks_to_prune := Some []\<rparr>)"
proof -
  let ?l = "\<lparr>lrd_storage_ledger = qc_ledger_info sample_root_cert\<rparr>"
  let ?b0 = "eb_block (sample_block 0 9 0)" and ?b1 = "eb_block (sample_block 1 0 1)"
  note c = sample_candidates
  have "sort_key block_order [?b0, ?b1] = [?b0, ?b1]" by (simp add: block_order_def) (simp add: sample_block_def)
  moreover have "bi_id (qc_certified_block sample_root_cert) = 0" "bi_id (qc_commit_info sample_root_cert) = 0"
    by (simp_all add: sample_root_cert_def)
  moreover have "blk_parent_id ?b1 = 0" by (simp add: sample_block_def)
  ultimately show ?thesis
    by (simp add: rd_new_def find_root_def c rd_find_blocks_to_prune_def sample_recovered_def rbind_def expect_def ok_or_def map_err_def Let_def
        del: qc_certified_block_def qc_commit_info_def qc_ledger_info_def blk_parent_id_def)
qed



text \<open>
  C36: What recovery starts from. From blocks of the database in any order, with every parent before
  its children in epoch and round, and with the virtual genesis block at the end of an epoch,
  \<open>RecoveryData::new\<close> picks the block of the ledger as the root, keeps exactly the blocks that descend
  from it, each after its parent, and exactly the certificates of the root and of the kept blocks.
\<close>

theorem recovery_is_exact:
  assumes "rd_new C v l blocks md qcs tc = Ok rd" and "root_candidates C l blocks qcs = Some (rid, li, cb, cq)"
    and "parents_below (set cb)"
  shows "blk_id (ri_block (rd_root rd)) = rid
    \<and> set (rd_blocks rd) = {b \<in> set cb. (rid, blk_parent_id b) \<in> (parent_links (set cb))\<^sup>*}
    \<and> (\<forall>xs b ys. rd_blocks rd = xs @ b # ys \<longrightarrow> blk_parent_id b \<in> insert rid (blk_id ` set xs))
    \<and> set (rd_quorum_certs rd) = {qc \<in> set cq. bi_id (qc_certified_block qc) \<in> insert rid (blk_id ` set (rd_blocks rd))}"
proof -
  note e = rd_new_exact [OF assms]
  have "\<forall>xs b ys. rd_blocks rd = xs @ b # ys \<longrightarrow> blk_parent_id b \<in> insert rid (blk_id ` set xs)"
    using e(3) by blast
  then show ?thesis by (intro conjI e(1,2)) (simp_all add: e(4))
qed

theorem recovery_is_exact_witness:
  "set (rd_quorum_certs sample_recovered) = {qc \<in> {sample_root_cert}. bi_id (qc_certified_block qc) \<in> insert 0 (blk_id ` set (rd_blocks sample_recovered))}"
proof -
  let ?b0 = "eb_block (sample_block 0 9 0)" and ?b1 = "eb_block (sample_block 1 0 1)"
  have "parents_below (set [?b0, ?b1])"
    by (simp add: parents_below_def block_order_def) (simp add: sample_block_def)
  note this [THEN recovery_is_exact [OF sample_rd_new sample_candidates], THEN conjunct2, THEN conjunct2, THEN conjunct2]
  moreover have "rd_quorum_certs (sample_recovered\<lparr>rd_blocks_to_prune := x\<rparr>) = rd_quorum_certs sample_recovered"
    "rd_blocks (sample_recovered\<lparr>rd_blocks_to_prune := x\<rparr>) = rd_blocks sample_recovered" for x by simp_all
  ultimately show ?thesis by (simp only: list.set)
qed

end
