(* ===== verification/ProposerElection.thy ===== *)
theory ProposerElection
  imports ConsensusTypes
begin

text \<open>
  Who may propose in a round: \<open>src/consensus/src/liveness/proposer_election.rs\<close> with its
  implementations \<open>rotating_proposer_election.rs\<close>, \<open>round_proposer_election.rs\<close> and
  \<open>leader_reputation.rs\<close>.

  An election is a record of the two methods over a state of its own; an index out of range and a division by
  zero are panics. The events of committed blocks come from the ledger database, the argument
  \<open>event_db\<close>, and the pseudo random number of a round, the first bytes of a SHA-3 hash, is an argument.
  Counters are left out.
\<close>

section \<open>The interface\<close>

record 'p proposer_election =
  pe_get_valid_proposer :: "Round \<Rightarrow> ('p, Author, anyhow) st_result"
  pe_is_valid_proposal :: "Block \<Rightarrow> ('p, bool, anyhow) st_result"

definition is_valid_proposer ::
  "(Round \<Rightarrow> ('p, Author, anyhow) st_result) \<Rightarrow> Author \<Rightarrow> Round \<Rightarrow> ('p, bool, anyhow) st_result" where
  "is_valid_proposer get_valid_proposer author rnd =
     sbind (get_valid_proposer rnd) (\<lambda>proposer. sret (proposer = author))"

text \<open>The default of the trait.\<close>

definition is_valid_proposal ::
  "(Round \<Rightarrow> ('p, Author, anyhow) st_result) \<Rightarrow> Block \<Rightarrow> ('p, bool, anyhow) st_result" where
  "is_valid_proposal get_valid_proposer block =
     (case blk_author block of
        None \<Rightarrow> sret False
      | Some author \<Rightarrow> is_valid_proposer get_valid_proposer author (blk_round block))"

section \<open>Rotation\<close>

record RotatingProposer =
  rp_proposers :: "Author list"
  rp_contiguous_rounds :: "32 word"

definition choose_leader :: "Author list \<Rightarrow> (Author, anyhow) result" where
  "choose_leader peers = (if peers = [] then Panic else Ok (Min (set peers)))"

definition rp_get_valid_proposer :: "Round \<Rightarrow> (RotatingProposer, Author, anyhow) st_result" where
  "rp_get_valid_proposer rnd p =
     (let n = of_nat (length (rp_proposers p)) :: u64
      in if rp_contiguous_rounds p = 0 \<or> n = 0 then (Panic, p)
         else (Ok (rp_proposers p ! unat (rnd div ucast (rp_contiguous_rounds p) mod n)), p))"

definition rotating_proposer :: "RotatingProposer proposer_election" where
  "rotating_proposer = \<lparr>pe_get_valid_proposer = rp_get_valid_proposer,
     pe_is_valid_proposal = is_valid_proposal rp_get_valid_proposer\<rparr>"

section \<open>A table of proposers\<close>

record RoundProposer =
  rdp_proposers :: "(Round, Author) fmap"
  rdp_default_proposer :: Author

definition rdp_get_valid_proposer :: "Round \<Rightarrow> (RoundProposer, Author, anyhow) st_result" where
  "rdp_get_valid_proposer rnd p =
     (Ok (case fmlookup (rdp_proposers p) rnd of
            None \<Rightarrow> rdp_default_proposer p
          | Some round_proposer \<Rightarrow> round_proposer), p)"

definition round_proposer_election :: "RoundProposer proposer_election" where
  "round_proposer_election = \<lparr>pe_get_valid_proposer = rdp_get_valid_proposer,
     pe_is_valid_proposal = is_valid_proposal rdp_get_valid_proposer\<rparr>"

section \<open>Leader reputation\<close>

record NewBlockEvent =
  nbe_round :: u64
  nbe_proposer :: AccountAddress
  nbe_votes :: "AccountAddress list"
  nbe_timestamp :: u64

text \<open>Events come with their version, the latest first; \<open>None\<close> is an event that does not decode.\<close>

record event_db =
  edb_get_events :: "u64 \<Rightarrow> ((u64 \<times> NewBlockEvent option) list, anyhow) result"
  edb_latest_version :: "(u64, anyhow) result"

record DijetsDBBackend =
  be_window_size :: nat
  be_window :: "(u64 \<times> NewBlockEvent) list"

fun window_events ::
  "nat \<Rightarrow> Round \<Rightarrow> (u64 \<times> NewBlockEvent) list \<Rightarrow> (u64 \<times> NewBlockEvent option) list
     \<Rightarrow> ((u64 \<times> NewBlockEvent) list, anyhow) result" where
  "window_events window_size target_round result [] = Ok result"
| "window_events window_size target_round result ((v, None) # events) = Err (Msg ''bcs'')"
| "window_events window_size target_round result ((v, Some e) # events) =
     window_events window_size target_round
       (if nbe_round e \<le> target_round \<and> length result < window_size then result @ [(v, e)] else result) events"

definition refresh_window :: "event_db \<Rightarrow> Round \<Rightarrow> (DijetsDBBackend, unit, anyhow) st_result" where
  "refresh_window db target_round b =
     (case rbind (edb_get_events db (of_nat (be_window_size b) + 10))
             (window_events (be_window_size b) target_round []) of
        Ok result \<Rightarrow> (Ok (), b\<lparr>be_window := result\<rparr>)
      | Err e \<Rightarrow> (Err e, b)
      | Panic \<Rightarrow> (Panic, b))"

definition get_block_metadata :: "event_db \<Rightarrow> Round \<Rightarrow> (DijetsDBBackend, NewBlockEvent list, anyhow) st_result" where
  "get_block_metadata db target_round b =
     (let (known_version, known_round) = (case be_window b of [] \<Rightarrow> (0, 0) | (v, e) # _ \<Rightarrow> (v, nbe_round e));
          latest = (case edb_latest_version db of Ok v \<Rightarrow> v | _ \<Rightarrow> 0)
      in if known_round = target_round \<or> known_version = latest
         then (Ok (map snd (be_window b)), b)
         else case refresh_window db target_round b of
                (Ok _, b') \<Rightarrow> (Ok (map snd (be_window b')), b')
              | (Err _, b') \<Rightarrow> (Ok [], b')
              | (Panic, b') \<Rightarrow> (Panic, b'))"

record ActiveInactiveHeuristic =
  ai_author :: Author
  ai_active_weight :: u64
  ai_inactive_weight :: u64

definition get_weights :: "ActiveInactiveHeuristic \<Rightarrow> Author list \<Rightarrow> NewBlockEvent list \<Rightarrow> u64 list" where
  "get_weights h candidates history =
     (let active = concat (map (\<lambda>e. nbe_proposer e # nbe_votes e) history)
      in map (\<lambda>author. if author \<in> set active then ai_active_weight h else ai_inactive_weight h) candidates)"

record LeaderReputation =
  lr_proposers :: "Author list"
  lr_backend :: DijetsDBBackend
  lr_heuristic :: ActiveInactiveHeuristic
  lr_proposed_round :: Round
  lr_already_proposed :: "(Author, HashValue) fmap"

definition lr_new :: "Author list \<Rightarrow> DijetsDBBackend \<Rightarrow> ActiveInactiveHeuristic \<Rightarrow> LeaderReputation" where
  "lr_new proposers backend heuristic =
     \<lparr>lr_proposers = proposers, lr_backend = backend, lr_heuristic = heuristic,
      lr_proposed_round = 0, lr_already_proposed = fmempty\<rparr>"

fun running_sums :: "u64 \<Rightarrow> u64 list \<Rightarrow> u64 list" where
  "running_sums acc [] = []"
| "running_sums acc (w # ws) = (acc + w) # running_sums (acc + w) ws"

text \<open>
  \<open>slice::binary_search_by\<close> with a comparison that is never \<open>Equal\<close>: the argument says which elements are
  \<open>Less\<close>, the result is the index of \<open>Err\<close>.
\<close>

function binary_search_by :: "('a \<Rightarrow> bool) \<Rightarrow> 'a list \<Rightarrow> nat \<Rightarrow> nat \<Rightarrow> nat" where
  "binary_search_by is_less xs left right =
     (if left < right
      then let mid = left + (right - left) div 2
           in if is_less (xs ! mid) then binary_search_by is_less xs (mid + 1) right
              else binary_search_by is_less xs left mid
      else left)"
  by pat_completeness auto
termination
  by (relation "measure (\<lambda>(_, _, left, right). right - left)") auto

declare binary_search_by.simps [simp del]

definition choose_index :: "u64 list \<Rightarrow> u64 \<Rightarrow> (nat, anyhow) result" where
  "choose_index weights random =
     (let sums = running_sums 0 weights;
          total_weight = (if weights = [] then 0 else last sums)
      in if total_weight = 0 then Panic
         else Ok (binary_search_by (\<lambda>w. w \<le> random mod total_weight) sums 0 (length sums)))"

definition lr_get_valid_proposer ::
  "event_db \<Rightarrow> (Round \<Rightarrow> u64) \<Rightarrow> Round \<Rightarrow> (LeaderReputation, Author, anyhow) st_result" where
  "lr_get_valid_proposer db random rnd =
     sbind (sfield lr_backend (\<lambda>b s. s\<lparr>lr_backend := b\<rparr>)
              (get_block_metadata db (if rnd \<ge> 4 then rnd - 4 else 0))) (\<lambda>sliding_window.
     sread (\<lambda>s.
       rbind (choose_index (get_weights (lr_heuristic s) (lr_proposers s) sliding_window) (random rnd)) (\<lambda>chosen_index.
       if chosen_index < length (lr_proposers s) then Ok (lr_proposers s ! chosen_index) else Panic)))"

definition lr_is_valid_proposal ::
  "event_db \<Rightarrow> (Round \<Rightarrow> u64) \<Rightarrow> Block \<Rightarrow> (LeaderReputation, bool, anyhow) st_result" where
  "lr_is_valid_proposal db random block =
     (case blk_author block of
        None \<Rightarrow> sret False
      | Some author \<Rightarrow>
          sbind (is_valid_proposer (lr_get_valid_proposer db random) author (blk_round block)) (\<lambda>valid s.
          if \<not> valid then (Ok False, s)
          else if blk_round block > lr_proposed_round s
          then (Ok True, s\<lparr>lr_proposed_round := blk_round block,
                          lr_already_proposed := fmupd author (blk_id block) fmempty\<rparr>)
          else if blk_round block = lr_proposed_round s
          then (case fmlookup (lr_already_proposed s) author of
                  Some proposed_id \<Rightarrow> if proposed_id \<noteq> blk_id block then (Ok False, s)
                    else (Ok True, s\<lparr>lr_already_proposed := fmupd author (blk_id block) (lr_already_proposed s)\<rparr>)
                | None \<Rightarrow> (Ok True, s\<lparr>lr_already_proposed := fmupd author (blk_id block) (lr_already_proposed s)\<rparr>))
          else (Ok False, s)))"

definition leader_reputation :: "event_db \<Rightarrow> (Round \<Rightarrow> u64) \<Rightarrow> LeaderReputation proposer_election" where
  "leader_reputation db random = \<lparr>pe_get_valid_proposer = lr_get_valid_proposer db random,
     pe_is_valid_proposal = lr_is_valid_proposal db random\<rparr>"

section \<open>Choosing a leader by weight\<close>

lemma binary_search_by_partition:
  assumes "\<And>i j. i \<le> j \<Longrightarrow> j < length xs \<Longrightarrow> is_less (xs ! j) \<Longrightarrow> is_less (xs ! i)"
    and "left \<le> right" and "right \<le> length xs"
    and "\<And>i. i < left \<Longrightarrow> is_less (xs ! i)" and "\<And>i. right \<le> i \<Longrightarrow> i < length xs \<Longrightarrow> \<not> is_less (xs ! i)"
  shows "binary_search_by is_less xs left right \<le> length xs
    \<and> (\<forall>i < length xs. is_less (xs ! i) \<longleftrightarrow> i < binary_search_by is_less xs left right)"
  using assms
proof (induction is_less xs left right rule: binary_search_by.induct)
  case (1 is_less xs left right)
  let ?mid = "left + (right - left) div 2"
  show ?case
  proof (cases "left < right")
    case True
    then have mid: "?mid < right" by linarith
    show ?thesis
    proof (cases "is_less (xs ! ?mid)")
      case L: True
      have "is_less (xs ! i)" if "i < ?mid + 1" for i
        using 1(3) [of i ?mid] that mid 1(5) L by simp
      then have "binary_search_by is_less xs (?mid + 1) right \<le> length xs
        \<and> (\<forall>i < length xs. is_less (xs ! i) \<longleftrightarrow> i < binary_search_by is_less xs (?mid + 1) right)"
        using mid 1(5,7) by (intro 1(1) [OF True refl L 1(3)]) auto
      then show ?thesis using True L by (simp add: binary_search_by.simps [of is_less xs left right])
    next
      case G: False
      have "\<not> is_less (xs ! i)" if "?mid \<le> i" "i < length xs" for i
        using 1(3) [OF that] G by blast
      then have "binary_search_by is_less xs left ?mid \<le> length xs
        \<and> (\<forall>i < length xs. is_less (xs ! i) \<longleftrightarrow> i < binary_search_by is_less xs left ?mid)"
        using mid 1(5,6) by (intro 1(2) [OF True refl G 1(3)]) auto
      then show ?thesis using True G by (simp add: binary_search_by.simps [of is_less xs left right])
    qed
  next
    case False
    with 1(4) have "left = right" by simp
    then have b: "binary_search_by is_less xs left right = right" by (simp add: binary_search_by.simps)
    have "is_less (xs ! i) \<longleftrightarrow> i < right" if "i < length xs" for i
      using 1(6,7) [of i] that \<open>left = right\<close> by (cases "i < right") simp_all
    with 1(5) show ?thesis unfolding b by simp
  qed
qed

lemma length_running_sums [simp]: "length (running_sums t ws) = length ws"
  by (induction ws arbitrary: t) auto

lemma running_sums_nth:
  assumes "unat t + sum_list (map unat ws) < 2 ^ 64" and "i < length ws"
  shows "unat (running_sums t ws ! i) = unat t + sum_list (map unat (take (Suc i) ws))"
  using assms
proof (induction ws arbitrary: t i)
  case (Cons w ws)
  then have "unat t + unat w < 2 ^ LENGTH(64)" by simp
  then have "unat (t + w) = unat t + unat w" unfolding unat_add_lem .
  with Cons show ?case by (cases i) simp_all
qed simp

lemma choose_index_spec:
  assumes "sum_list (map unat ws) < 2 ^ 64" and "0 < sum_list (map unat ws)"
  shows "\<exists>k. choose_index ws random = Ok k \<and> k < length ws
    \<and> sum_list (map unat (take k ws)) \<le> unat random mod sum_list (map unat ws)
    \<and> unat random mod sum_list (map unat ws) < sum_list (map unat (take (Suc k) ws))"
proof -
  let ?sums = "running_sums 0 ws" and ?S = "sum_list (map unat ws)"
  from assms(2) have ne: "ws \<noteq> []" by auto
  have nth: "unat (?sums ! i) = sum_list (map unat (take (Suc i) ws))" if "i < length ws" for i
    using running_sums_nth [of 0 ws i] assms(1) that by simp
  have last: "last ?sums = ?sums ! (length ws - 1)"
    using ne by (metis last_conv_nth length_0_conv length_running_sums)
  with nth [of "length ws - 1"] ne have total: "unat (last ?sums) = ?S" by simp
  with assms(2) have nz: "last ?sums \<noteq> 0" by (metis less_irrefl unat_0)
  let ?x = "random mod last ?sums"
  have x: "unat ?x = unat random mod ?S" using total by (simp add: unat_mod)
  let ?lt = "\<lambda>w. w \<le> ?x" and ?k = "binary_search_by (\<lambda>w. w \<le> ?x) ?sums 0 (length ?sums)"
  have le: "?lt (?sums ! i) \<longleftrightarrow> sum_list (map unat (take (Suc i) ws)) \<le> unat ?x" if "i < length ws" for i
    using nth [OF that] by (simp add: word_le_nat_alt)
  have mono: "sum_list (map unat (take i ws)) \<le> sum_list (map unat (take j ws))" if "i \<le> j" for i j
    using that by (metis le_add_diff_inverse take_add map_append sum_list_append le_add1)
  have part: "?k \<le> length ?sums \<and> (\<forall>i < length ?sums. ?lt (?sums ! i) \<longleftrightarrow> i < ?k)"
  proof (rule binary_search_by_partition)
    show "?lt (?sums ! i)" if "i \<le> j" "j < length ?sums" "?lt (?sums ! j)" for i j
      using le [of i] le [of j] mono [of "Suc i" "Suc j"] that by simp
  qed simp_all
  have "\<not> ?lt (?sums ! (length ws - 1))"
    unfolding last [symmetric] using nz by (simp add: not_le word_mod_less_divisor word_gt_0)
  with conjunct2 [OF part, rule_format, of "length ws - 1"] ne have "\<not> length ws - 1 < ?k" by simp
  moreover have "0 < length ws" using ne by simp
  ultimately have k: "?k < length ws" by linarith
  with part le [OF k] have "unat ?x < sum_list (map unat (take (Suc ?k) ws))" by auto
  moreover have "sum_list (map unat (take ?k ws)) \<le> unat ?x"
  proof (cases ?k)
    case (Suc i)
    with part k have "?lt (?sums ! i)" by simp
    with le [of i] k Suc show ?thesis by simp
  qed simp
  moreover have "choose_index ws random = Ok ?k" using ne nz by (simp add: choose_index_def Let_def)
  ultimately show ?thesis using k unfolding x by blast
qed

lemma get_block_metadata_returns:
  assumes "\<And>n. edb_get_events db n \<noteq> Panic"
  shows "\<exists>w b'. get_block_metadata db r b = (Ok w, b')"
proof -
  have w: "window_events n r acc es \<noteq> Panic" for n acc es
    by (induction n r acc es rule: window_events.induct) auto
  then have "rbind (edb_get_events db n) (window_events m r []) \<noteq> Panic" for n m
    using assms by (cases "edb_get_events db n") auto
  then have "fst (refresh_window db r b) \<noteq> Panic" by (auto simp: refresh_window_def split: result.splits)
  then show ?thesis by (auto simp: get_block_metadata_def Let_def split: prod.splits list.splits result.splits)
qed

lemma length_get_weights [simp]: "length (get_weights h ps w) = length ps"
  by (simp add: get_weights_def Let_def)

definition weight_before :: "u64 list \<Rightarrow> nat \<Rightarrow> nat" where
  "weight_before ws k = sum_list (map unat (take k ws))"

lemma get_weights_sum:
  assumes "ai_active_weight h \<noteq> 0" and "ai_inactive_weight h \<noteq> 0" and "ps \<noteq> []"
    and "length ps * unat (max (ai_active_weight h) (ai_inactive_weight h)) < 2 ^ 64"
  shows "sum_list (map unat (get_weights h ps w)) < 2 ^ 64" and "0 < sum_list (map unat (get_weights h ps w))"
proof -
  let ?ws = "get_weights h ps w" and ?m = "max (ai_active_weight h) (ai_inactive_weight h)"
  have each: "0 < unat x \<and> unat x \<le> unat ?m" if "x \<in> set ?ws" for x
  proof -
    from that have "x = ai_active_weight h \<or> x = ai_inactive_weight h" by (auto simp: get_weights_def Let_def)
    with assms(1,2) have "x \<noteq> 0" "x \<le> ?m" by auto
    then show ?thesis by (simp add: unat_gt_0 word_le_nat_alt)
  qed
  then have "sum_list (map unat ?ws) \<le> sum_list (map (\<lambda>_. unat ?m) ?ws)" by (intro sum_list_mono) blast
  also have "\<dots> = length ps * unat ?m" by (simp add: sum_list_triv)
  finally show "sum_list (map unat ?ws) < 2 ^ 64" using assms(4) by linarith
  from assms(3) obtain x where "x \<in> set ?ws" by (metis length_0_conv length_get_weights last_in_set)
  then have "unat x \<le> sum_list (map unat ?ws)" by (intro member_le_sum_list) simp_all
  with each [OF \<open>x \<in> set ?ws\<close>] show "0 < sum_list (map unat ?ws)" by linarith
qed

text \<open>
  C39: Leader reputation elects a leader in every round. Unless a weight is zero or the weights of all
  validators may exceed 64 bits, and whatever history the ledger reports or fails to report, the election returns
  the candidate in whose share of the total weight the pseudo random number of the round falls: the search never
  runs out of the candidates and no addition wraps.
\<close>

theorem leader_reputation_elects:
  assumes "\<And>n. edb_get_events db n \<noteq> Panic" and "lr_proposers s \<noteq> []"
    and "ai_active_weight (lr_heuristic s) \<noteq> 0" and "ai_inactive_weight (lr_heuristic s) \<noteq> 0"
    and "length (lr_proposers s) * unat (max (ai_active_weight (lr_heuristic s)) (ai_inactive_weight (lr_heuristic s))) < 2 ^ 64"
  shows "\<exists>w b' i. get_block_metadata db (if rnd \<ge> 4 then rnd - 4 else 0) (lr_backend s) = (Ok w, b')
    \<and> lr_get_valid_proposer db random rnd s = (Ok (lr_proposers s ! i), s\<lparr>lr_backend := b'\<rparr>) \<and> i < length (lr_proposers s)
    \<and> (let ws = get_weights (lr_heuristic s) (lr_proposers s) w; x = unat (random rnd) mod weight_before ws (length ws)
       in weight_before ws i \<le> x \<and> x < weight_before ws (Suc i))"
proof -
  from get_block_metadata_returns [OF assms(1)] obtain w b' where
    w: "get_block_metadata db (if rnd \<ge> 4 then rnd - 4 else 0) (lr_backend s) = (Ok w, b')" by blast
  let ?ws = "get_weights (lr_heuristic s) (lr_proposers s) w"
  note sums = get_weights_sum [OF assms(3,4,2,5), of w]
  from choose_index_spec [OF sums, of "random rnd"] obtain k where
    k: "choose_index ?ws (random rnd) = Ok k" "k < length (lr_proposers s)"
      "weight_before ?ws k \<le> unat (random rnd) mod weight_before ?ws (length ?ws)"
      "unat (random rnd) mod weight_before ?ws (length ?ws) < weight_before ?ws (Suc k)"
    by (auto simp: weight_before_def)
  have "lr_get_valid_proposer db random rnd s = (Ok (lr_proposers s ! k), s\<lparr>lr_backend := b'\<rparr>)"
    using w k(1,2) by (simp add: lr_get_valid_proposer_def sbind_def sfield_def sread_def)
  with w k show ?thesis unfolding Let_def by blast
qed

definition quiet_db :: event_db where
  "quiet_db = \<lparr>edb_get_events = (\<lambda>_. Ok []), edb_latest_version = Ok 0\<rparr>"

definition lone_leader :: LeaderReputation where
  "lone_leader = lr_new [1] \<lparr>be_window_size = 1, be_window = []\<rparr>
     \<lparr>ai_author = 1, ai_active_weight = 9, ai_inactive_weight = 1\<rparr>"

theorem leader_reputation_elects_witness:
  "\<exists>b' i. lr_get_valid_proposer quiet_db (\<lambda>r. r) 7 lone_leader = (Ok ([1] ! i), lone_leader\<lparr>lr_backend := b'\<rparr>) \<and> i < 1"
  using leader_reputation_elects [of quiet_db lone_leader 7 "\<lambda>r. r"]
  by (auto simp: quiet_db_def lone_leader_def lr_new_def)

section \<open>One proposal per leader and round\<close>

text \<open>Calls of the election in any order, with the proposals it accepted.\<close>

inductive lr_run :: "LeaderReputation \<Rightarrow> Block list \<Rightarrow> LeaderReputation \<Rightarrow> bool" for s0 :: LeaderReputation where
  lr_start: "lr_run s0 [] s0"
| lr_asked: "lr_run s0 bs s \<Longrightarrow> lr_get_valid_proposer db random rnd s = (r, s') \<Longrightarrow> lr_run s0 bs s'"
| lr_proposal: "lr_run s0 bs s \<Longrightarrow> lr_is_valid_proposal db random b s = (r, s') \<Longrightarrow>
    lr_run s0 (if r = Ok True then b # bs else bs) s'"

definition proposals_seen :: "Block list \<Rightarrow> LeaderReputation \<Rightarrow> bool" where
  "proposals_seen bs s \<longleftrightarrow> (\<forall>b \<in> set bs. blk_round b \<le> lr_proposed_round s
     \<and> (blk_round b = lr_proposed_round s \<longrightarrow>
        (\<exists>a. blk_author b = Some a \<and> fmlookup (lr_already_proposed s) a = Some (blk_id b))))"

lemma lr_get_valid_proposer_frame:
  assumes "lr_get_valid_proposer db random rnd s = (r, s')"
  shows "lr_proposed_round s' = lr_proposed_round s" and "lr_already_proposed s' = lr_already_proposed s"
  using assms by (auto simp: lr_get_valid_proposer_def sbind_def sfield_def sread_def split: prod.splits result.splits)

lemma is_valid_proposer_frame:
  assumes "is_valid_proposer (lr_get_valid_proposer db random) a rnd s = (r, s')"
  shows "lr_proposed_round s' = lr_proposed_round s" and "lr_already_proposed s' = lr_already_proposed s"
proof -
  obtain r' s1 where v: "lr_get_valid_proposer db random rnd s = (r', s1)" by fastforce
  with assms have "s' = s1" by (cases r') (simp_all add: is_valid_proposer_def sbind_def sret_def)
  with v show "lr_proposed_round s' = lr_proposed_round s" and "lr_already_proposed s' = lr_already_proposed s"
    using lr_get_valid_proposer_frame by blast+
qed

text \<open>
  An accepted proposal is of a round above the last one, or of the last one and the first of its author or
  a repetition.
\<close>

lemma lr_is_valid_proposal_cases:
  assumes "lr_is_valid_proposal db random b s = (r, s')"
  shows "r \<noteq> Ok True \<and> lr_proposed_round s' = lr_proposed_round s \<and> lr_already_proposed s' = lr_already_proposed s
    \<or> (\<exists>a. blk_author b = Some a \<and> r = Ok True \<and> lr_proposed_round s < blk_round b \<and> lr_proposed_round s' = blk_round b
         \<and> lr_already_proposed s' = fmupd a (blk_id b) fmempty)
    \<or> (\<exists>a. blk_author b = Some a \<and> r = Ok True \<and> lr_proposed_round s = blk_round b \<and> lr_proposed_round s' = blk_round b
         \<and> fmlookup (lr_already_proposed s) a \<in> {None, Some (blk_id b)}
         \<and> lr_already_proposed s' = fmupd a (blk_id b) (lr_already_proposed s))"
proof (cases "blk_author b")
  case None
  with assms show ?thesis by (simp add: lr_is_valid_proposal_def)
next
  case (Some a)
  obtain v s1 where v: "is_valid_proposer (lr_get_valid_proposer db random) a (blk_round b) s = (v, s1)" by fastforce
  note f = is_valid_proposer_frame [OF v]
  show ?thesis
  proof (cases "v = Ok True")
    case True
    let ?here = "blk_round b = lr_proposed_round s1" and ?seen = "fmlookup (lr_already_proposed s1) a"
    consider "lr_proposed_round s1 < blk_round b" | "?here" "?seen \<in> {None, Some (blk_id b)}"
      | "\<not> lr_proposed_round s1 < blk_round b" "\<not> ?here \<or> (\<exists>i. ?seen = Some i \<and> i \<noteq> blk_id b)" by fastforce
    then show ?thesis
    proof cases
      case 1
      with assms Some v True have "r = Ok True" "s' = s1\<lparr>lr_proposed_round := blk_round b,
          lr_already_proposed := fmupd a (blk_id b) fmempty\<rparr>"
        by (simp_all add: lr_is_valid_proposal_def sbind_def)
      with 1 f Some show ?thesis by simp
    next
      case 2
      with assms Some v True have "r = Ok True" "s' = s1\<lparr>lr_already_proposed := fmupd a (blk_id b) (lr_already_proposed s1)\<rparr>"
        by (auto simp: lr_is_valid_proposal_def sbind_def)
      with 2 f Some show ?thesis by simp
    next
      case 3
      with assms Some v True have "r = Ok False" "s' = s1"
        by (auto simp: lr_is_valid_proposal_def sbind_def split: if_splits)
      with f show ?thesis by simp
    qed
  next
    case False
    obtain r1 where "lr_is_valid_proposal db random b s = (r1, s1)" "r1 \<noteq> Ok True"
      using Some v False by (cases v) (simp_all add: lr_is_valid_proposal_def sbind_def)
    with assms f show ?thesis by simp
  qed
qed

lemma proposals_seen_frame:
  "lr_proposed_round s' = lr_proposed_round s \<Longrightarrow> lr_already_proposed s' = lr_already_proposed s \<Longrightarrow>
    proposals_seen bs s' = proposals_seen bs s"
  unfolding proposals_seen_def by simp

lemma lr_run_seen:
  assumes "lr_run s0 bs s"
  shows "proposals_seen bs s \<and> (\<forall>b \<in> set bs. \<forall>c \<in> set bs. blk_author b = blk_author c \<longrightarrow> blk_round b = blk_round c \<longrightarrow> blk_id b = blk_id c)"
  using assms
proof (induction rule: lr_run.induct)
  case lr_start
  then show ?case by (simp add: proposals_seen_def)
next
  case (lr_asked bs s db random rnd r s')
  from lr_asked.IH show ?case unfolding proposals_seen_frame [OF lr_get_valid_proposer_frame [OF lr_asked.hyps(2)]] .
next
  case (lr_proposal bs s db random b r s')
  let ?one = "\<lambda>bs. \<forall>b \<in> set bs. \<forall>c \<in> set bs. blk_author b = blk_author c \<longrightarrow> blk_round b = blk_round c \<longrightarrow> blk_id b = blk_id c"
  note IH = lr_proposal.IH [unfolded proposals_seen_def]
  from lr_is_valid_proposal_cases [OF lr_proposal.hyps(2)] consider
      (refused) "r \<noteq> Ok True" "lr_proposed_round s' = lr_proposed_round s" "lr_already_proposed s' = lr_already_proposed s"
    | (newer) a where "blk_author b = Some a" "r = Ok True" "lr_proposed_round s < blk_round b" "lr_proposed_round s' = blk_round b"
        "lr_already_proposed s' = fmupd a (blk_id b) fmempty"
    | (again) a where "blk_author b = Some a" "r = Ok True" "lr_proposed_round s = blk_round b" "lr_proposed_round s' = blk_round b"
        "fmlookup (lr_already_proposed s) a \<in> {None, Some (blk_id b)}"
        "lr_already_proposed s' = fmupd a (blk_id b) (lr_already_proposed s)"
    by blast
  then show ?case
  proof cases
    case refused
    with lr_proposal.IH show ?thesis unfolding proposals_seen_frame [OF refused(2,3)] by presburger
  next
    case newer
    have old: "blk_round c < blk_round b" if "c \<in> set bs" for c
      using IH that newer(3) by (meson order_le_less_trans)
    have "proposals_seen (b # bs) s'"
      unfolding proposals_seen_def newer(4,5) using newer(1) old by (force simp del: blk_round_def blk_author_def)
    moreover have "?one (b # bs)" using IH old by (metis order_less_irrefl set_ConsD)
    ultimately show ?thesis unfolding newer(2) if_P [OF refl] by blast
  next
    case again
    have c: "blk_round c \<le> blk_round b" and same: "blk_round c = blk_round b \<Longrightarrow>
        \<exists>a'. blk_author c = Some a' \<and> fmlookup (lr_already_proposed s) a' = Some (blk_id c)"
      if "c \<in> set bs" for c
      using IH that unfolding again(3) by blast+
    have id: "blk_id c = blk_id b" if "c \<in> set bs" "blk_round c = blk_round b" "blk_author c = blk_author b" for c
      using same [OF that(1,2)] that(3) again(1,5) by (metis insertE option.distinct(1) option.inject singletonD)
    have "\<exists>a'. blk_author c = Some a' \<and> fmlookup (lr_already_proposed s') a' = Some (blk_id c)"
      if "c \<in> set bs" "blk_round c = blk_round b" for c
      using same [OF that] id [OF that] again(1) unfolding again(6) by (metis fmupd_lookup)
    then have "proposals_seen (b # bs) s'"
      unfolding proposals_seen_def again(4) using again(1,6) c by (auto simp del: blk_round_def blk_author_def)
    moreover have "?one (b # bs)" using IH id by (metis set_ConsD)
    ultimately show ?thesis unfolding again(2) if_P [OF refl] by blast
  qed
qed

text \<open>
  C40: Leader reputation accepts at most one proposal of an author in a round, over any sequence of its
  calls: a second one with another id is refused as equivocation, and rounds below the last one are refused.
\<close>

theorem one_proposal_per_leader:
  assumes "lr_run s0 bs s" and "b \<in> set bs" and "c \<in> set bs" and "blk_author b = blk_author c" and "blk_round b = blk_round c"
  shows "blk_id b = blk_id c"
  using lr_run_seen [OF assms(1)] assms(2-5) by blast

definition lone_block :: "64 word \<Rightarrow> Block" where
  "lone_block t = \<lparr>blk_id = 3, blk_block_data = \<lparr>bd_epoch = 1, bd_round = 1, bd_timestamp_usecs = t,
     bd_quorum_cert = \<lparr>qc_vote_data = \<lparr>vd_proposed = bi_empty, vd_parent = bi_empty\<rparr>,
       qc_signed_ledger_info = \<lparr>lis_ledger_info = \<lparr>li_commit_info = bi_empty, li_consensus_data_hash = 0\<rparr>,
         lis_signatures = fmempty\<rparr>\<rparr>, bd_block_type = Proposal [] 1\<rparr>, blk_signature = None\<rparr>"

lemma lone_elects: "lr_backend s = lr_backend lone_leader \<Longrightarrow> lr_proposers s = [1] \<Longrightarrow> lr_heuristic s = lr_heuristic lone_leader \<Longrightarrow>
    lr_get_valid_proposer quiet_db (\<lambda>r. r) 1 s = (Ok 1, s)"
  by (simp add: lr_get_valid_proposer_def sbind_def sfield_def sread_def get_block_metadata_def quiet_db_def lone_leader_def
      lr_new_def choose_index_def get_weights_def Let_def binary_search_by.simps word_less_nat_alt)

definition lone_seen :: LeaderReputation where
  "lone_seen = lone_leader\<lparr>lr_proposed_round := 1, lr_already_proposed := fmupd 1 3 fmempty\<rparr>"

lemma lone_accepts:
  "lr_is_valid_proposal quiet_db (\<lambda>r. r) (lone_block t) lone_leader = (Ok True, lone_seen)"
  "lr_is_valid_proposal quiet_db (\<lambda>r. r) (lone_block t) lone_seen = (Ok True, lone_seen)"
proof -
  have e: "lr_get_valid_proposer quiet_db (\<lambda>r. r) 1 lone_leader = (Ok 1, lone_leader)"
    "lr_get_valid_proposer quiet_db (\<lambda>r. r) 1 lone_seen = (Ok 1, lone_seen)"
    by (rule lone_elects; simp add: lone_seen_def lone_leader_def lr_new_def)+
  show "lr_is_valid_proposal quiet_db (\<lambda>r. r) (lone_block t) lone_leader = (Ok True, lone_seen)"
    using e(1) by (simp add: lr_is_valid_proposal_def is_valid_proposer_def lone_block_def bd_author_def sbind_def sret_def)
      (simp add: lone_seen_def lone_leader_def lr_new_def word_less_nat_alt)
  show "lr_is_valid_proposal quiet_db (\<lambda>r. r) (lone_block t) lone_seen = (Ok True, lone_seen)"
    using e(2) by (simp add: lr_is_valid_proposal_def is_valid_proposer_def lone_block_def bd_author_def sbind_def sret_def)
      (simp add: lone_seen_def fmupd_idem)
qed

theorem one_proposal_per_leader_witness:
  "\<exists>bs s. lr_run lone_leader bs s \<and> lone_block 1 \<in> set bs \<and> lone_block 2 \<in> set bs \<and> blk_id (lone_block 1) = blk_id (lone_block 2)"
proof -
  from lr_run.lr_proposal [OF lr_run.lr_proposal [OF lr_run.lr_start lone_accepts(1) [of 1]] lone_accepts(2) [of 2]]
  have run: "lr_run lone_leader [lone_block 2, lone_block 1] lone_seen" by simp
  have "blk_id (lone_block 1) = blk_id (lone_block 2)"
    by (rule one_proposal_per_leader [OF run]) (simp_all add: lone_block_def bd_author_def)
  with run show ?thesis by (metis list.set_intros(1) list.set_intros(2))
qed

end
