(* ===== verification/SyncManager.thy ===== *)
theory SyncManager
  imports BlockStore
begin

text \<open>
  How a validator that is behind catches up, \<open>src/consensus/src/block_storage/sync_manager.rs\<close>, with the
  retrieval of blocks through \<open>NetworkSender\<close> of \<open>src/consensus/src/network.rs\<close>.

  The network is a parameter: \<open>sync_env\<close> holds its methods over a state of its own, along with the state
  synchroniser, the restart of the storage and the choice of a random peer. Two loops of the source wait for
  answers of peers and are partial functions: \<open>None\<close> is a loop that does not end. The retrieval of a
  number of blocks is shown to end, and to return a chain of verified blocks.
\<close>

section \<open>The environment\<close>

record BlockRetrievalRequest =
  brq_block_id :: HashValue
  brq_num_blocks :: u64

definition MAX_BLOCKS_PER_REQUEST :: u64 where
  "MAX_BLOCKS_PER_REQUEST = 10"

record ('x, 'd, 'n) sync_env =
  sy_store :: "('x, 'd) store_env"
  sy_crypto :: consensus_crypto
  sy_now :: u64
  sy_author :: Author
  sy_validators :: ValidatorVerifier
  sy_send_rpc :: "Author \<Rightarrow> BlockRetrievalRequest \<Rightarrow> nat \<Rightarrow> ('n, BlockRetrievalResponse option, anyhow) st_result"
  sy_gen_range :: "nat \<Rightarrow> 'n \<Rightarrow> nat \<times> 'n"
  sy_broadcast :: "EpochChangeProof \<Rightarrow> 'n \<Rightarrow> 'n"
  sy_notify_epoch_change :: "EpochChangeProof \<Rightarrow> 'n \<Rightarrow> 'n"
  sy_sync_to :: "LedgerInfoWithSignatures \<Rightarrow> ('x, unit, anyhow) st_result"
  sy_start :: "('d, LivenessStorageData, anyhow) st_result"

type_synonym ('x, 'd, 'n) sync_state = "('x, 'd) BlockStore \<times> 'n"

text \<open>Methods that may not return.\<close>

type_synonym ('s, 'a) async = "'s \<Rightarrow> ((('a, anyhow) result \<times> 's) option)"

definition dlift :: "('s, 'a, anyhow) st_result \<Rightarrow> ('s, 'a) async" where
  "dlift m s = Some (m s)"

definition dbind :: "('s, 'a) async \<Rightarrow> ('a \<Rightarrow> ('s, 'b) async) \<Rightarrow> ('s, 'b) async" where
  "dbind m f s =
     (case m s of
        None \<Rightarrow> None
      | Some (Ok a, s') \<Rightarrow> f a s'
      | Some (Err e, s') \<Rightarrow> Some (Err e, s')
      | Some (Panic, s') \<Rightarrow> Some (Panic, s'))"

definition on_store :: "(('x, 'd) BlockStore, 'a, anyhow) st_result \<Rightarrow> (('x, 'd, 'n) sync_state, 'a) async" where
  "on_store m = dlift (sfield fst (\<lambda>b (_, n). (b, n)) m)"

definition on_network :: "('n, 'a) async \<Rightarrow> (('x, 'd, 'n) sync_state, 'a) async" where
  "on_network m s = map_option (\<lambda>(r, n). (r, (fst s, n))) (m (snd s))"

section \<open>Requesting blocks\<close>

text \<open>An answer that is no block retrieval response is \<open>None\<close>.\<close>

definition request_block ::
  "('x, 'd, 'n) sync_env \<Rightarrow> BlockRetrievalRequest \<Rightarrow> Author \<Rightarrow> nat \<Rightarrow> ('n, BlockRetrievalResponse, anyhow) st_result" where
  "request_block Y retrieval_request from timeout =
     sbind (slift (ensure (from \<noteq> sy_author Y) (Msg ''Retrieve block from self''))) (\<lambda>_.
     sbind (sy_send_rpc Y from retrieval_request timeout) (\<lambda>response_msg.
     sbind (slift (ok_or response_msg (Msg ''Invalid response to request''))) (\<lambda>response.
     sbind (slift (brr_verify (sy_crypto Y) (sy_now Y) response (brq_block_id retrieval_request)
              (brq_num_blocks retrieval_request) (sy_validators Y))) (\<lambda>_.
     sret response))))"

definition RETRIEVAL_INITIAL_TIMEOUT :: nat where
  "RETRIEVAL_INITIAL_TIMEOUT = 200"

definition RETRIEVAL_MAX_EXP :: nat where
  "RETRIEVAL_MAX_EXP = 4"

text \<open>In milliseconds; \<open>None\<close> is the failed assertion on attempt 0.\<close>

definition retrieval_timeout :: "32 word \<Rightarrow> nat option" where
  "retrieval_timeout attempt =
     (if attempt = 0 then None
      else Some (RETRIEVAL_INITIAL_TIMEOUT * 2 ^ min RETRIEVAL_MAX_EXP (unat (attempt - 1))))"

fun remove_nth :: "nat \<Rightarrow> 'a list \<Rightarrow> 'a list" where
  "remove_nth _ [] = []"
| "remove_nth 0 (_ # xs) = xs"
| "remove_nth (Suc n) (x # xs) = x # remove_nth n xs"

text \<open>The peer to ask and the peers left; \<open>Panic\<close> on an empty list of peers.\<close>

definition pick_peer ::
  "('x, 'd, 'n) sync_env \<Rightarrow> Author \<Rightarrow> 32 word \<Rightarrow> Author list \<Rightarrow> ('n, Author \<times> Author list, anyhow) st_result" where
  "pick_peer Y preferred_peer attempt peers n =
     (if peers = [] then (Panic, n)
      else if attempt = 0 then (Ok (preferred_peer, remove1 preferred_peer peers), n)
      else let (peer_idx, n') = sy_gen_range Y (length peers) n
           in if peer_idx < length peers then (Ok (peers ! peer_idx, remove_nth peer_idx peers), n') else (Panic, n'))"

text \<open>The answer to one request: the batch of blocks of a successful response.\<close>

definition retrieve_batch ::
  "('x, 'd, 'n) sync_env \<Rightarrow> HashValue \<Rightarrow> u64 \<Rightarrow> Author \<Rightarrow> 32 word \<Rightarrow> ('n, Block list, anyhow) st_result" where
  "retrieve_batch Y last_block_id retrieve_batch_size peer attempt =
     sbind (slift (expect (retrieval_timeout attempt))) (\<lambda>timeout.
     sbind (request_block Y \<lparr>brq_block_id = last_block_id, brq_num_blocks = retrieve_batch_size\<rparr> peer timeout) (\<lambda>result.
     if brr_status result = Succeeded then sret (brr_blocks result) else sthrow (Msg ''status'')))"

partial_function (option) retrieve_loop ::
  "('x, 'd, 'n) sync_env \<Rightarrow> Author \<Rightarrow> u64 \<Rightarrow> 32 word \<Rightarrow> u64 \<Rightarrow> HashValue \<Rightarrow> Block list \<Rightarrow> u64 \<Rightarrow> Author list \<Rightarrow> Author
     \<Rightarrow> 'n \<Rightarrow> ((Block list, anyhow) result \<times> 'n) option" where
  "retrieve_loop Y preferred_peer num_blocks attempt progress last_block_id result_blocks batch_size peers peer n =
     (if progress < num_blocks
      then let batch_size = min batch_size (num_blocks - progress);
               attempt = attempt + 1
           in case retrieve_batch Y last_block_id batch_size peer attempt n of
                (Ok batch, n1) \<Rightarrow>
                  if batch = [] then Some (Panic, n1)
                  else retrieve_loop Y preferred_peer num_blocks attempt (progress + of_nat (length batch))
                         (blk_parent_id (last batch)) (result_blocks @ batch) batch_size peers peer n1
              | (Err e, n1) \<Rightarrow>
                  if peers = [] then Some (Err (Msg ''Failed to fetch block: no more peers available''), n1)
                  else (case pick_peer Y preferred_peer attempt peers n1 of
                          (Ok (peer', peers'), n2) \<Rightarrow>
                            retrieve_loop Y preferred_peer num_blocks attempt progress last_block_id result_blocks
                              batch_size peers' peer' n2
                        | (_, n2) \<Rightarrow> Some (Panic, n2))
              | (Panic, n1) \<Rightarrow> Some (Panic, n1)
      else if of_nat (length result_blocks) = num_blocks then Some (Ok result_blocks, n) else Some (Panic, n))"

definition retrieve_block_for_id ::
  "('x, 'd, 'n) sync_env \<Rightarrow> Author \<Rightarrow> HashValue \<Rightarrow> Author list \<Rightarrow> u64 \<Rightarrow> ('n, Block list) async" where
  "retrieve_block_for_id Y preferred_peer block_id peers num_blocks n =
     (if peers = [] then Some (Err (Msg ''Failed to fetch block: no more peers available''), n)
      else case pick_peer Y preferred_peer 0 peers n of
             (Ok (peer, peers), n1) \<Rightarrow>
               retrieve_loop Y preferred_peer num_blocks 0 0 block_id [] MAX_BLOCKS_PER_REQUEST peers peer n1
           | (_, n1) \<Rightarrow> Some (Panic, n1))"

definition retrieve_block_for_qc ::
  "('x, 'd, 'n) sync_env \<Rightarrow> Author \<Rightarrow> QuorumCert \<Rightarrow> u64 \<Rightarrow> ('n, Block list) async" where
  "retrieve_block_for_qc Y preferred_peer qc num_blocks =
     retrieve_block_for_id Y preferred_peer (bi_id (qc_certified_block qc))
       (btree_keys (lis_signatures (qc_ledger_info qc))) num_blocks"

text \<open>The other side: how the round manager of a peer answers from its block store.\<close>

fun serve_blocks :: "BlockTree \<Rightarrow> nat \<Rightarrow> HashValue \<Rightarrow> BlockRetrievalStatus \<times> Block list" where
  "serve_blocks t 0 block_id = (Succeeded, [])"
| "serve_blocks t (Suc k) block_id =
     (case bt_get_block t block_id of
        Some executed_block \<Rightarrow>
          let (status, blocks) = serve_blocks t k (eb_parent_id executed_block)
          in (status, eb_block executed_block # blocks)
      | None \<Rightarrow> (NotEnoughBlocks, []))"

definition process_block_retrieval :: "BlockTree \<Rightarrow> BlockRetrievalRequest \<Rightarrow> BlockRetrievalResponse" where
  "process_block_retrieval t request =
     (let (status, blocks) = serve_blocks t (unat (brq_num_blocks request)) (brq_block_id request)
      in \<lparr>brr_status = (if blocks = [] then IdNotFound else status), brr_blocks = blocks\<rparr>)"

section \<open>What has to be fetched\<close>

datatype NeedFetchResult = QCRoundBeforeRoot | QCAlreadyExist | QCBlockExist | NeedFetch

definition need_sync_for_quorum_cert ::
  "QuorumCert \<Rightarrow> LedgerInfoWithSignatures \<Rightarrow> ('x, 'd) BlockStore \<Rightarrow> (bool, anyhow) result" where
  "need_sync_for_quorum_cert qc li s =
     rbind (expect (commit_root (bs_inner s))) (\<lambda>root.
     rbind (assert_panic (eb_round root < - 1 - 1)) (\<lambda>_.
     Ok (\<not> (block_exists (bs_inner s) (bi_id (qc_commit_info qc))
            \<or> eb_round root \<ge> bi_round (lis_commit_info li)))))"

definition need_fetch_for_quorum_cert ::
  "QuorumCert \<Rightarrow> ('x, 'd) BlockStore \<Rightarrow> (NeedFetchResult, anyhow) result" where
  "need_fetch_for_quorum_cert qc s =
     rbind (expect (ordered_root (bs_inner s))) (\<lambda>root.
     Ok (if bi_round (qc_certified_block qc) < eb_round root then QCRoundBeforeRoot
         else if get_quorum_cert_for_block (bs_inner s) (bi_id (qc_certified_block qc)) \<noteq> None then QCAlreadyExist
         else if block_exists (bs_inner s) (bi_id (qc_certified_block qc)) then QCBlockExist
         else NeedFetch))"

text \<open>The first loop of \<open>fetch_quorum_cert\<close>: the missing ancestors, the last one first.\<close>

partial_function (option) fetch_pending ::
  "('x, 'd, 'n) sync_env \<Rightarrow> Author \<Rightarrow> BlockTree \<Rightarrow> QuorumCert \<Rightarrow> Block list \<Rightarrow> 'n
     \<Rightarrow> ((Block list, anyhow) result \<times> 'n) option" where
  "fetch_pending Y preferred_peer t retrieve_qc pending n =
     (if block_exists t (bi_id (qc_certified_block retrieve_qc)) then Some (Ok pending, n)
      else case retrieve_block_for_qc Y preferred_peer retrieve_qc 1 n of
             None \<Rightarrow> None
           | Some (Ok (block # _), n1) \<Rightarrow>
               fetch_pending Y preferred_peer t (blk_quorum_cert block) (block # pending) n1
           | Some (Ok [], n1) \<Rightarrow> Some (Panic, n1)
           | Some (Err e, n1) \<Rightarrow> Some (Err e, n1)
           | Some (Panic, n1) \<Rightarrow> Some (Panic, n1))"

primrec insert_pending ::
  "('x, 'd) store_env \<Rightarrow> Block list \<Rightarrow> (('x, 'd) BlockStore, unit, anyhow) st_result" where
  "insert_pending E [] = sret ()"
| "insert_pending E (block # pending) =
     sbind (insert_single_quorum_cert E (blk_quorum_cert block)) (\<lambda>_.
     sbind (execute_and_insert_block E block) (\<lambda>_.
     insert_pending E pending))"

definition fetch_quorum_cert ::
  "('x, 'd, 'n) sync_env \<Rightarrow> Author \<Rightarrow> QuorumCert \<Rightarrow> (('x, 'd, 'n) sync_state, unit) async" where
  "fetch_quorum_cert Y preferred_peer qc =
     dbind (\<lambda>s. on_network (fetch_pending Y preferred_peer (bs_inner (fst s)) qc []) s) (\<lambda>pending.
     dbind (on_store (insert_pending (sy_store Y) pending)) (\<lambda>_.
     on_store (insert_single_quorum_cert (sy_store Y) qc)))"

definition sm_insert_quorum_cert ::
  "('x, 'd, 'n) sync_env \<Rightarrow> Author \<Rightarrow> QuorumCert \<Rightarrow> (('x, 'd, 'n) sync_state, unit) async" where
  "sm_insert_quorum_cert Y preferred_peer qc =
     dbind (on_store (sread (need_fetch_for_quorum_cert qc))) (\<lambda>need.
     dbind (case need of
              NeedFetch \<Rightarrow> fetch_quorum_cert Y preferred_peer qc
            | QCBlockExist \<Rightarrow> on_store (insert_single_quorum_cert (sy_store Y) qc)
            | _ \<Rightarrow> on_store (sret ())) (\<lambda>_.
     dbind (on_store (sread (\<lambda>s. expect (ordered_root (bs_inner s))))) (\<lambda>root.
     if eb_round root < bi_round (qc_commit_info qc)
     then let finality_proof = qc_ledger_info qc
          in dbind (on_store (bs_commit (sy_store Y) finality_proof)) (\<lambda>_.
             if qc_ends_epoch qc
             then on_network (dlift (smodify (sy_broadcast Y
                    \<lparr>ecp_ledger_info_with_sigs = [finality_proof], ecp_more = False\<rparr>)))
             else on_store (sret ()))
     else on_store (sret ()))))"

section \<open>Fast forward\<close>

text \<open>
  \<open>certs_of\<close> are the certificates to save: the highest ordered one and those of all blocks but the
  last; the assertion compares them with the blocks.
\<close>

definition certs_of :: "QuorumCert \<Rightarrow> u64 \<Rightarrow> Block list \<Rightarrow> QuorumCert list" where
  "certs_of qc num_blocks blocks = qc # map blk_quorum_cert (take (unat num_blocks - 1) blocks)"

definition certs_match :: "Block list \<Rightarrow> QuorumCert list \<Rightarrow> bool" where
  "certs_match blocks quorum_certs \<longleftrightarrow> length blocks \<le> length quorum_certs
     \<and> list_all2 (\<lambda>block qc. blk_id block = bi_id (qc_certified_block qc)) blocks (take (length blocks) quorum_certs)"

definition fast_forward_sync ::
  "('x, 'd, 'n) sync_env \<Rightarrow> Author \<Rightarrow> QuorumCert \<Rightarrow> LedgerInfoWithSignatures
     \<Rightarrow> (('x, 'd, 'n) sync_state, RecoveryData) async" where
  "fast_forward_sync Y preferred_peer ordered_cert ledger_info =
     (let num_blocks = bi_round (qc_certified_block ordered_cert)
            - li_round (lis_ledger_info ledger_info) + 1
      in dbind (on_network (retrieve_block_for_qc Y preferred_peer ordered_cert num_blocks)) (\<lambda>blocks.
         dbind (on_store (slift (assert_panic (blocks \<noteq> []
             \<and> blk_id (hd blocks) = bi_id (qc_certified_block ordered_cert)
             \<and> blk_id (last blocks) = bi_id (lis_commit_info ledger_info)
             \<and> num_blocks < - 1
             \<and> certs_match blocks (certs_of ordered_cert num_blocks blocks))))) (\<lambda>_.
         dbind (on_store (on_db (db_save_tree (se_storage (sy_store Y)) blocks
                  (certs_of ordered_cert num_blocks blocks)))) (\<lambda>_.
         dbind (on_store (on_computer (sy_sync_to Y ledger_info))) (\<lambda>_.
         dbind (on_store (on_db (sy_start Y))) (\<lambda>data.
         on_store (slift (expect (expect_recovery_data data)))))))))"

definition sync_to_highest_ordered_cert ::
  "('x, 'd, 'n) sync_env \<Rightarrow> Author \<Rightarrow> QuorumCert \<Rightarrow> LedgerInfoWithSignatures \<Rightarrow> (('x, 'd, 'n) sync_state, unit) async" where
  "sync_to_highest_ordered_cert Y preferred_peer ordered_cert ledger_info =
     dbind (on_store (sread (need_sync_for_quorum_cert ordered_cert ledger_info))) (\<lambda>need.
     if \<not> need then on_store (sret ())
     else
       dbind (fast_forward_sync Y preferred_peer ordered_cert ledger_info) (\<lambda>data.
       dbind (on_store (bs_rebuild (sy_store Y) (rd_root data) (rd_root_metadata data) (rd_blocks data) (rd_quorum_certs data))) (\<lambda>_.
       if ends_epoch (lis_ledger_info ledger_info)
       then on_network (dlift (smodify (sy_notify_epoch_change Y
              \<lparr>ecp_ledger_info_with_sigs = [qc_ledger_info ordered_cert], ecp_more = False\<rparr>)))
       else on_store (sret ()))))"

definition add_certs ::
  "('x, 'd, 'n) sync_env \<Rightarrow> Author \<Rightarrow> SyncInfo \<Rightarrow> (('x, 'd, 'n) sync_state, unit) async" where
  "add_certs Y preferred_peer sync_info =
     dbind (sync_to_highest_ordered_cert Y preferred_peer (highest_ordered_cert sync_info) (highest_ledger_info sync_info)) (\<lambda>_.
     dbind (sm_insert_quorum_cert Y preferred_peer (highest_ordered_cert sync_info)) (\<lambda>_.
     dbind (sm_insert_quorum_cert Y preferred_peer (si_highest_quorum_cert sync_info)) (\<lambda>_.
     case si_highest_timeout_cert sync_info of
       Some tc \<Rightarrow> on_store (insert_timeout_certificate (sy_store Y) tc)
     | None \<Rightarrow> on_store (sret ()))))"

section \<open>Retrieval ends with a chain\<close>

text \<open>Blocks from a block back to its ancestors, each verified.\<close>

fun back_chain :: "HashValue \<Rightarrow> Block list \<Rightarrow> bool" where
  "back_chain i [] \<longleftrightarrow> True"
| "back_chain i (b # bs) \<longleftrightarrow> blk_id b = i \<and> back_chain (blk_parent_id b) bs"

definition back_end :: "HashValue \<Rightarrow> Block list \<Rightarrow> HashValue" where
  "back_end i bs = (if bs = [] then i else blk_parent_id (last bs))"

lemma back_chain_append: "back_chain i (bs @ cs) \<longleftrightarrow> back_chain i bs \<and> back_chain (back_end i bs) cs"
  by (induction bs arbitrary: i) (auto simp: back_end_def simp del: blk_parent_id_def)

lemma back_end_append: "bs \<noteq> [] \<Longrightarrow> back_end i (cs @ bs) = blk_parent_id (last bs)"
  by (simp add: back_end_def del: blk_parent_id_def)

definition verified_block :: "('x, 'd, 'n) sync_env \<Rightarrow> Block \<Rightarrow> bool" where
  "verified_block Y b \<longleftrightarrow> validate_signature (sy_crypto Y) b (sy_validators Y) = Ok () \<and> blk_verify_well_formed (sy_now Y) b = Ok ()"

lemma brr_fold_chain:
  assumes "rfold (\<lambda>expected_id block. rbind (validate_signature C block vv) (\<lambda>_. rbind (blk_verify_well_formed now block) (\<lambda>_.
      rbind (ensure (blk_id block = expected_id) m) (\<lambda>_. Ok (blk_parent_id block))))) i bs = Ok e"
  shows "back_chain i bs" and "\<forall>b \<in> set bs. validate_signature C b vv = Ok () \<and> blk_verify_well_formed now b = Ok ()"
proof -
  have "back_chain i bs \<and> (\<forall>b \<in> set bs. validate_signature C b vv = Ok () \<and> blk_verify_well_formed now b = Ok ())"
    using assms
  proof (induction bs arbitrary: i)
    case (Cons b bs)
    from Cons.prems have b: "validate_signature C b vv = Ok ()" "blk_verify_well_formed now b = Ok ()" "blk_id b = i"
      and rest: "rfold (\<lambda>expected_id block. rbind (validate_signature C block vv) (\<lambda>_. rbind (blk_verify_well_formed now block) (\<lambda>_.
        rbind (ensure (blk_id block = expected_id) m) (\<lambda>_. Ok (blk_parent_id block))))) (blk_parent_id b) bs = Ok e"
      unfolding rfold.simps rbind_Ok ensure_Ok result.inject by (metis old.unit.exhaust)+
    from Cons.IH [OF rest] b show ?case by (simp del: blk_parent_id_def)
  qed simp
  then show "back_chain i bs" and "\<forall>b \<in> set bs. validate_signature C b vv = Ok () \<and> blk_verify_well_formed now b = Ok ()"
    by blast+
qed

lemma brr_verify_chain:
  assumes "brr_verify C now r i num vv = Ok ()"
  shows "back_chain i (brr_blocks r)" and "\<forall>b \<in> set (brr_blocks r). validate_signature C b vv = Ok () \<and> blk_verify_well_formed now b = Ok ()"
    and "brr_status r = Succeeded \<Longrightarrow> of_nat (length (brr_blocks r)) = num"
proof -
  from assms obtain e where "brr_status r \<noteq> Succeeded \<or> of_nat (length (brr_blocks r)) = num"
    "rfold (\<lambda>expected_id block. rbind (validate_signature C block vv) (\<lambda>_. rbind (blk_verify_well_formed now block) (\<lambda>_.
      rbind (ensure (blk_id block = expected_id) (Msg ''blocks doesn't form a chain'')) (\<lambda>_. Ok (blk_parent_id block)))))
      i (brr_blocks r) = Ok e"
    unfolding brr_verify_def by (simp del: blk_parent_id_def) blast
  with brr_fold_chain [OF this(2)] show "back_chain i (brr_blocks r)"
    and "\<forall>b \<in> set (brr_blocks r). validate_signature C b vv = Ok () \<and> blk_verify_well_formed now b = Ok ()"
    and "brr_status r = Succeeded \<Longrightarrow> of_nat (length (brr_blocks r)) = num" by blast+
qed

lemma retrieve_batch_chain:
  assumes "retrieve_batch Y i num peer attempt n = (Ok batch, n')"
  shows "back_chain i batch" and "\<forall>b \<in> set batch. verified_block Y b" and "of_nat (length batch) = num"
proof -
  from assms obtain r where r: "brr_verify (sy_crypto Y) (sy_now Y) r i num (sy_validators Y) = Ok ()"
    "brr_status r = Succeeded" "brr_blocks r = batch"
    by (auto simp: retrieve_batch_def request_block_def sread_Ok simp del: sread_iff slift_iff split: if_splits)
  from brr_verify_chain [OF r(1)] r(2,3) show "back_chain i batch" and "\<forall>b \<in> set batch. verified_block Y b"
    and "of_nat (length batch) = num" by (auto simp: verified_block_def)
qed

lemma progress_step:
  fixes progress num size :: u64
  assumes "progress < num" and "0 < size"
  shows "0 < min size (num - progress)" and "progress + min size (num - progress) \<le> num"
    and "unat (num - (progress + min size (num - progress))) < unat (num - progress)"
proof -
  have d: "unat (num - progress) = unat num - unat progress" using assms(1) by (simp add: unat_sub)
  then have "0 < num - progress" using assms(1) by (simp add: word_less_nat_alt)
  with assms(2) show pos: "0 < min size (num - progress)" by (simp add: min_def)
  let ?m = "min size (num - progress)"
  have m: "unat ?m \<le> unat num - unat progress" using d by (metis min.cobounded2 word_le_nat_alt)
  have a: "unat (progress + ?m) = unat progress + unat ?m"
    using m assms(1) unsigned_less [of num, where 'a = nat] by (intro unat_add_lem [THEN iffD1]) (simp add: word_less_nat_alt)
  show le: "progress + ?m \<le> num" using a m assms(1) by (simp add: word_le_nat_alt word_less_nat_alt)
  show "unat (num - (progress + ?m)) < unat (num - progress)"
    using a m pos le assms(1) d by (simp add: unat_sub word_less_nat_alt)
qed

definition retrieved :: "('x, 'd, 'n) sync_env \<Rightarrow> HashValue \<Rightarrow> u64 \<Rightarrow> Block list \<Rightarrow> bool" where
  "retrieved Y i num bs \<longleftrightarrow> of_nat (length bs) = num \<and> back_chain i bs \<and> (\<forall>b \<in> set bs. verified_block Y b)"

lemma remove_nth_length: "k < length xs \<Longrightarrow> length (remove_nth k xs) < length xs"
  by (induction k xs rule: remove_nth.induct) auto

lemma pick_peer_fewer:
  assumes "pick_peer Y p attempt peers n = (Ok (q, qs), n')" and "attempt \<noteq> 0" shows "length qs < length peers"
  using assms by (auto simp: pick_peer_def Let_def remove_nth_length split: if_splits prod.splits)

lemma retrieve_batch_Err:
  assumes "retrieve_batch Y i num peer attempt n = (Err e, n')" shows "attempt \<noteq> 0"
  using assms by (auto simp: retrieve_batch_def retrieval_timeout_def sbind_def slift_def)

text \<open>
  What holds at the head of the loop: the blocks so far are a chain of verified blocks from \<open>i\<close>, as many as
  the progress says, and the next block to ask for is the parent of the last one.
\<close>

definition retrieving ::
  "('x, 'd, 'n) sync_env \<Rightarrow> HashValue \<Rightarrow> u64 \<Rightarrow> u64 \<Rightarrow> HashValue \<Rightarrow> Block list \<Rightarrow> u64 \<Rightarrow> bool" where
  "retrieving Y i num progress last_id bs sz \<longleftrightarrow>
     retrieved Y i progress bs \<and> last_id = back_end i bs \<and> progress \<le> num \<and> 0 < sz"

lemma retrieving_step:
  assumes "retrieving Y i num progress last_id bs sz" and "progress < num"
    and "retrieve_batch Y last_id (min sz (num - progress)) peer attempt n = (Ok batch, n')" and "batch \<noteq> []"
  shows "retrieving Y i num (progress + of_nat (length batch)) (blk_parent_id (last batch)) (bs @ batch) (min sz (num - progress))"
    and "unat (num - (progress + of_nat (length batch))) < unat (num - progress)"
proof -
  note b = retrieve_batch_chain [OF assms(3)] and r = assms(1) [unfolded retrieving_def retrieved_def]
  from r have "0 < sz" by blast
  note p = progress_step [OF assms(2) this]
  show "unat (num - (progress + of_nat (length batch))) < unat (num - progress)" unfolding b(3) by (rule p(3))
  have "of_nat (length (bs @ batch)) = progress + of_nat (length batch)" using r by simp
  moreover have "back_chain i (bs @ batch)" using r b(1) by (simp add: back_chain_append)
  moreover have "\<forall>c \<in> set (bs @ batch). verified_block Y c" using r b(2) by auto
  moreover have "blk_parent_id (last batch) = back_end i (bs @ batch)" by (simp only: back_end_append [OF assms(4)])
  ultimately show "retrieving Y i num (progress + of_nat (length batch)) (blk_parent_id (last batch)) (bs @ batch) (min sz (num - progress))"
    unfolding retrieving_def retrieved_def b(3) using p(1,2) by blast
qed

lemma retrieve_loop_returns:
  assumes "retrieving Y i num progress last_id bs sz"
  shows "\<exists>r n'. retrieve_loop Y p num attempt progress last_id bs sz peers peer n = Some (r, n')
    \<and> (\<forall>cs. r = Ok cs \<longrightarrow> retrieved Y i num cs)"
  using assms
proof (induction "unat (num - progress) + length peers" arbitrary: attempt progress last_id bs sz peers peer n rule: less_induct)
  case less
  note loop = retrieve_loop.simps [of Y p num attempt progress last_id bs sz peers peer n]
  show ?case
  proof (cases "progress < num")
    case False
    with less.prems have "progress = num" by (simp add: retrieving_def)
    with False less.prems show ?thesis unfolding loop by (simp add: retrieving_def retrieved_def)
  next
    case True
    let ?sz = "min sz (num - progress)"
    obtain r n1 where b: "retrieve_batch Y last_id ?sz peer (attempt + 1) n = (r, n1)" by fastforce
    show ?thesis
    proof (cases r)
      case (Ok batch)
      show ?thesis
      proof (cases "batch = []")
        case False
        note st = retrieving_step [OF less.prems True b [unfolded Ok] False]
        from st(2) have "unat (num - (progress + of_nat (length batch))) + length peers < unat (num - progress) + length peers" by simp
        from less.hyps [OF this st(1)] True b Ok False show ?thesis unfolding loop by (simp add: Let_def del: blk_parent_id_def)
      qed (use True b Ok in \<open>simp add: loop Let_def\<close>)
    next
      case (Err e)
      obtain pr n2 where pick: "pick_peer Y p (attempt + 1) peers n1 = (pr, n2)" by fastforce
      from retrieve_batch_Err [OF b [unfolded Err]] have "attempt + 1 \<noteq> 0" .
      note fewer = pick_peer_fewer [OF _ this]
      have st: "retrieving Y i num progress last_id bs ?sz"
        using less.prems progress_step(1) [OF True] unfolding retrieving_def by blast
      show ?thesis
      proof (cases pr)
        case (Ok q)
        obtain q1 qs where q: "q = (q1, qs)" by fastforce
        from fewer [OF pick [unfolded Ok q]] have "unat (num - progress) + length qs < unat (num - progress) + length peers" by simp
        from less.hyps [OF this st] True b Err pick Ok q show ?thesis unfolding loop by (auto simp: Let_def)
      qed (use True b Err pick in \<open>auto simp: loop Let_def\<close>)
    qed (use True b in \<open>simp add: loop Let_def\<close>)
  qed
qed

lemma retrieval_returns:
  "\<exists>r n'. retrieve_block_for_id Y p i peers num n = Some (r, n') \<and> (\<forall>bs. r = Ok bs \<longrightarrow> retrieved Y i num bs)"
proof -
  have "retrieving Y i num 0 i [] MAX_BLOCKS_PER_REQUEST"
    by (simp add: retrieving_def retrieved_def back_end_def MAX_BLOCKS_PER_REQUEST_def)
  from retrieve_loop_returns [OF this] show ?thesis
    by (auto simp: retrieve_block_for_id_def pick_peer_def)
qed

section \<open>Retrieval from a peer that has the blocks\<close>

definition holds_blocks :: "BlockTree \<Rightarrow> Block list \<Rightarrow> bool" where
  "holds_blocks t bs \<longleftrightarrow> (\<forall>b \<in> set bs. map_option eb_block (bt_get_block t (blk_id b)) = Some b)"

lemma serve_blocks_chain:
  assumes "back_chain i bs" and "holds_blocks t bs"
  shows "serve_blocks t (length bs) i = (Succeeded, bs)"
  using assms
proof (induction bs arbitrary: i)
  case (Cons b bs)
  then obtain e where "bt_get_block t i = Some e" "eb_block e = b" by (auto simp: holds_blocks_def)
  moreover from Cons have "serve_blocks t (length bs) (blk_parent_id b) = (Succeeded, bs)"
    by (simp add: holds_blocks_def del: blk_parent_id_def)
  ultimately show ?case by (simp add: eb_parent_id_def eb_quorum_cert_def)
qed simp

lemma brr_fold_Ok:
  assumes "back_chain i bs" and "\<forall>b \<in> set bs. validate_signature C b vv = Ok () \<and> blk_verify_well_formed now b = Ok ()"
  shows "\<exists>e. rfold (\<lambda>expected_id block. rbind (validate_signature C block vv) (\<lambda>_. rbind (blk_verify_well_formed now block) (\<lambda>_.
      rbind (ensure (blk_id block = expected_id) m) (\<lambda>_. Ok (blk_parent_id block))))) i bs = Ok e"
  using assms
proof (induction bs arbitrary: i)
  case (Cons b bs)
  from Cons.prems have "back_chain (blk_parent_id b) bs"
    "\<forall>b \<in> set bs. validate_signature C b vv = Ok () \<and> blk_verify_well_formed now b = Ok ()"
    "validate_signature C b vv = Ok ()" "blk_verify_well_formed now b = Ok ()" "blk_id b = i"
    by (simp_all del: blk_parent_id_def)
  note this(3-5) [simp] and IH = Cons.IH [OF this(1,2)]
  show ?case unfolding rfold.simps using IH by (simp only: rbind_Ok ensure_Ok) auto
qed simp

text \<open>A peer that answers every request of at most \<open>MAX_BLOCKS_PER_REQUEST\<close> blocks from the tree \<open>t\<close>.\<close>

definition serves :: "('x, 'd, 'n) sync_env \<Rightarrow> Author \<Rightarrow> BlockTree \<Rightarrow> bool" where
  "serves Y p t \<longleftrightarrow> p \<noteq> sy_author Y
     \<and> (\<forall>request timeout n. brq_num_blocks request \<le> MAX_BLOCKS_PER_REQUEST \<longrightarrow>
       (\<exists>n'. sy_send_rpc Y p request timeout n = (Ok (Some (process_block_retrieval t request)), n')))"

lemma retrieve_batch_served:
  assumes "serves Y p t" and "back_chain i bs" and "holds_blocks t bs" and "\<forall>b \<in> set bs. verified_block Y b"
    and "bs \<noteq> []" and "length bs < 2 ^ 64" and "attempt \<noteq> 0" and "of_nat (length bs) \<le> MAX_BLOCKS_PER_REQUEST"
  shows "\<exists>n'. retrieve_batch Y i (of_nat (length bs)) p attempt n = (Ok bs, n')"
proof -
  let ?q = "\<lparr>brq_block_id = i, brq_num_blocks = of_nat (length bs)\<rparr>"
  have "unat (of_nat (length bs) :: u64) = length bs" using assms(6) by (simp add: unat_of_nat take_bit_nat_eq_self)
  with serve_blocks_chain [OF assms(2,3)] assms(5)
  have a: "process_block_retrieval t ?q = \<lparr>brr_status = Succeeded, brr_blocks = bs\<rparr>"
    by (simp add: process_block_retrieval_def)
  obtain tm where tm: "retrieval_timeout attempt = Some tm" using assms(7) by (simp add: retrieval_timeout_def)
  from assms(1,8) a obtain n' where send: "sy_send_rpc Y p ?q tm n = (Ok (Some \<lparr>brr_status = Succeeded, brr_blocks = bs\<rparr>), n')"
    unfolding serves_def by (metis BlockRetrievalRequest.select_convs(2))
  from brr_fold_Ok [OF assms(2), of "sy_crypto Y" "sy_validators Y" "sy_now Y"] assms(4)
  have v: "brr_verify (sy_crypto Y) (sy_now Y) \<lparr>brr_status = Succeeded, brr_blocks = bs\<rparr> i (of_nat (length bs)) (sy_validators Y) = Ok ()"
    unfolding brr_verify_def verified_block_def by simp
  have "p \<noteq> sy_author Y" using assms(1) by (simp add: serves_def)
  with tm send v show ?thesis
    by (simp add: retrieve_batch_def request_block_def sread_Ok del: sread_iff slift_iff)
qed

text \<open>The size of the next request, counted in blocks.\<close>

lemma next_size:
  fixes sz :: u64
  assumes "length (bs @ rest) < 2 ^ 64"
  shows "min sz (of_nat (length (bs @ rest)) - of_nat (length bs)) = of_nat (min (unat sz) (length rest))"
    and "rest \<noteq> [] \<Longrightarrow> (of_nat (length bs) :: u64) < of_nat (length (bs @ rest))"
proof -
  have d: "(of_nat (length (bs @ rest)) - of_nat (length bs) :: u64) = of_nat (length rest)" by simp
  have u: "unat (of_nat k :: u64) = k" if "k \<le> length (bs @ rest)" for k
    using that assms by (simp add: unat_of_nat take_bit_nat_eq_self)
  have "unat (min sz (of_nat (length rest))) = min (unat sz) (length rest)"
    using u [of "length rest"] by (simp add: min_def word_le_nat_alt)
  then show "min sz (of_nat (length (bs @ rest)) - of_nat (length bs)) = of_nat (min (unat sz) (length rest))"
    unfolding d word_unat_eq_iff using u [of "min (unat sz) (length rest)"] by simp
  show "rest \<noteq> [] \<Longrightarrow> (of_nat (length bs) :: u64) < of_nat (length (bs @ rest))"
    unfolding word_less_nat_alt u [OF order_refl] using u [of "length bs"] by simp
qed

lemma retrieve_loop_served:
  assumes "serves Y p t" and "back_chain i (bs @ rest)" and "holds_blocks t (bs @ rest)"
    and "\<forall>b \<in> set (bs @ rest). verified_block Y b"
    and "length (bs @ rest) < 2 ^ 64" and "0 < sz" and "unat attempt + length rest < 2 ^ 32"
    and "sz \<le> MAX_BLOCKS_PER_REQUEST"
  shows "\<exists>n'. retrieve_loop Y p' (of_nat (length (bs @ rest))) attempt (of_nat (length bs)) (back_end i bs) bs sz peers p n
    = Some (Ok (bs @ rest), n')"
  using assms
proof (induction "length rest" arbitrary: bs rest attempt sz n rule: less_induct)
  case less
  let ?num = "of_nat (length (bs @ rest)) :: u64" and ?prog = "of_nat (length bs) :: u64"
  note loop = retrieve_loop.simps [of Y p' ?num attempt ?prog "back_end i bs" bs sz peers p n]
  show ?case
  proof (cases "rest = []")
    case True
    then show ?thesis unfolding loop by simp
  next
    case False
    let ?k = "min (unat sz) (length rest)"
    let ?batch = "take ?k rest" and ?rest = "drop ?k rest"
    have k: "0 < ?k" "length ?batch = ?k" "length ?rest < length rest"
      using False less.prems(6) by (auto simp: word_less_nat_alt)
    then have ne: "?batch \<noteq> []" by auto
    from less.prems(7) False have "unat attempt + unat (1 :: 32 word) < 2 ^ LENGTH(32)" by (cases rest) simp_all
    then have att: "unat (attempt + 1) = unat attempt + 1" unfolding unat_add_lem by simp
    have app: "(bs @ ?batch) @ ?rest = bs @ rest" by simp
    have "back_chain (back_end i bs) (?batch @ ?rest)" using less.prems(2) by (simp only: back_chain_append append_take_drop_id)
    then have bc: "back_chain (back_end i bs) ?batch" by (simp only: back_chain_append)
    have small: "min sz (?num - ?prog) \<le> MAX_BLOCKS_PER_REQUEST"
      by (rule order_trans [OF min.cobounded1 less.prems(8)])
    then have batch_small: "of_nat (length ?batch) \<le> MAX_BLOCKS_PER_REQUEST"
      unfolding next_size(1) [OF less.prems(5)] k(2) .
    have "\<exists>n'. retrieve_batch Y (back_end i bs) (of_nat (length ?batch)) p (attempt + 1) n = (Ok ?batch, n')"
      using less.prems(1,3,4,5) bc ne att batch_small
      by (intro retrieve_batch_served [of _ _ t]) (auto simp: holds_blocks_def dest: in_set_takeD)
    then obtain n1 where b: "retrieve_batch Y (back_end i bs) (min sz (?num - ?prog)) p (attempt + 1) n = (Ok ?batch, n1)"
      unfolding next_size(1) [OF less.prems(5)] k(2) by blast
    have sz: "0 < min sz (?num - ?prog)"
      using progress_step(1) [OF next_size(2) [OF less.prems(5) False] less.prems(6)] .
    have "unat (attempt + 1) + length ?rest < 2 ^ 32" using less.prems(7) k(3) att by linarith
    from less.hyps [of ?rest "bs @ ?batch", OF k(3) less.prems(1), unfolded app, OF less.prems(2-5) sz this small, of n1]
    show ?thesis
      using next_size(2) [OF less.prems(5) False] b ne unfolding loop app back_end_append [OF ne]
      by (simp add: Let_def del: blk_parent_id_def)
  qed
qed

text \<open>What a peer needs to have for the retrieval of a chain of \<open>num\<close> blocks from \<open>i\<close>.\<close>

definition has_chain :: "('x, 'd, 'n) sync_env \<Rightarrow> Author \<Rightarrow> HashValue \<Rightarrow> u64 \<Rightarrow> Block list \<Rightarrow> bool" where
  "has_chain Y p i num bs \<longleftrightarrow> retrieved Y i num bs \<and> length bs < 2 ^ 32 \<and> (\<exists>t. serves Y p t \<and> holds_blocks t bs)"

lemma retrieve_block_for_id_served:
  assumes "has_chain Y p i num bs" and "peers \<noteq> []"
  shows "\<exists>n'. retrieve_block_for_id Y p i peers num n = Some (Ok bs, n')"
proof -
  from assms(1) obtain t where t: "serves Y p t" "holds_blocks t bs" "back_chain i bs" "\<forall>b \<in> set bs. verified_block Y b"
    "num = of_nat (length bs)" "length bs < 2 ^ 32" by (auto simp: has_chain_def retrieved_def)
  have "\<exists>n'. retrieve_loop Y p num 0 0 i [] MAX_BLOCKS_PER_REQUEST (remove1 p peers) p n = Some (Ok bs, n')"
    using retrieve_loop_served [OF t(1), of i "[]" bs MAX_BLOCKS_PER_REQUEST 0] t
    by (simp add: back_end_def MAX_BLOCKS_PER_REQUEST_def)
  with assms(2) show ?thesis by (simp add: retrieve_block_for_id_def pick_peer_def)
qed

lemma fast_forward_other_end:
  assumes "retrieve_block_for_qc Y p oc (bi_round (qc_certified_block oc) - li_round (lis_ledger_info li) + 1) n = Some (Ok bs, n')"
    and "blk_id (last bs) \<noteq> bi_id (lis_commit_info li)"
  shows "fast_forward_sync Y p oc li (s, n) = Some (Panic, (s, n'))"
  using assms by (simp add: fast_forward_sync_def Let_def dbind_def on_network_def on_store_def dlift_def sfield_def
      slift_def assert_panic_def)

section \<open>Catching up\<close>

text \<open>
  C37: The retrieval of blocks always ends, although peers may answer anything or not at all: it asks
  a peer again only after progress, and otherwise removes it from its list. Blocks it returns are as many as
  requested and form a chain from the requested block back to its ancestors, each with a valid
  signature and certificate and well formed. If the preferred peer answers from a block store that has
  these blocks, exactly they are returned.
\<close>

theorem block_retrieval_correct:
  "\<exists>r n'. retrieve_block_for_id Y p i peers num n = Some (r, n') \<and> (\<forall>bs. r = Ok bs \<longrightarrow> retrieved Y i num bs)
    \<and> (\<forall>bs. has_chain Y p i num bs \<longrightarrow> peers \<noteq> [] \<longrightarrow> r = Ok bs)"
proof -
  obtain r n' where r: "retrieve_block_for_id Y p i peers num n = Some (r, n')" "\<forall>bs. r = Ok bs \<longrightarrow> retrieved Y i num bs"
    using retrieval_returns by metis
  have "r = Ok bs" if "has_chain Y p i num bs" "peers \<noteq> []" for bs
    using retrieve_block_for_id_served [OF that, of n] r(1) by auto
  with r show ?thesis by blast
qed

definition gap_info :: "Round \<Rightarrow> BlockInfo" where
  "gap_info r = bi_empty\<lparr>bi_id := ucast r, bi_epoch := 2, bi_round := r\<rparr>"

definition gap_cert :: "Round \<Rightarrow> QuorumCert" where
  "gap_cert r = \<lparr>qc_vote_data = \<lparr>vd_proposed = gap_info r, vd_parent = gap_info (r - 1)\<rparr>, qc_signed_ledger_info =
     \<lparr>lis_ledger_info = \<lparr>li_commit_info = gap_info (r - 1), li_consensus_data_hash = 0\<rparr>,
      lis_signatures = fmap_of_list [(1, 11), (2, 12), (3, 13)]\<rparr>\<rparr>"

definition gap_block :: "Round \<Rightarrow> Round \<Rightarrow> Block" where
  "gap_block r p = \<lparr>blk_id = ucast r, blk_block_data = \<lparr>bd_epoch = 2, bd_round = r, bd_timestamp_usecs = 0,
     bd_quorum_cert = gap_cert p, bd_block_type = NilBlock\<rparr>, blk_signature = None\<rparr>"

text \<open>Blocks of rounds 5, 3 and 2; no block of round 4.\<close>

definition gap_chain :: "Block list" where
  "gap_chain = [gap_block 5 3, gap_block 3 2, gap_block 2 1]"

definition gap_tree :: BlockTree where
  "gap_tree = sample_tree (fmap_of_list (map (\<lambda>b. (blk_id b, lb_new \<lparr>eb_block = b, eb_state_compute_result = scr_new_dummy\<rparr>)) gap_chain))"

definition gap_env :: "(OrderingStateComputer, ConsensusDB, unit) sync_env" where
  "gap_env = \<lparr>sy_store = \<lparr>se_computer = ordering_state_computer, se_storage = consensus_storage,
       hash_order = sorted_list_of_fset, cert_order = id\<rparr>,
     sy_crypto = \<lparr>cc_ledger_info = key_scheme (\<lambda>_. True),
       cc_block_data = key_scheme (\<lambda>_. False), cc_timeout = key_scheme (\<lambda>_. False),
       cc_timeout_repr = key_scheme (\<lambda>_. False), cc_vote_proposal = key_scheme (\<lambda>_. False),
       hash_vote_data = (\<lambda>_. 0), hash_block_data = (\<lambda>_. 0), hash_ledger_info = (\<lambda>_. 0), hash_node = sample_hasher,
       hash_waypoint = (\<lambda>_. 0), public_key_of = (\<lambda>k. k)\<rparr>,
     sy_now = 0, sy_author = 4, sy_validators = four_verifier,
     sy_send_rpc = (\<lambda>_ q _ n. (Ok (Some (process_block_retrieval gap_tree q)), n)),
     sy_gen_range = (\<lambda>_ n. (0, n)), sy_broadcast = (\<lambda>_ n. n), sy_notify_epoch_change = (\<lambda>_ n. n),
     sy_sync_to = (\<lambda>_. sret ()), sy_start = sthrow (Msg ''start'')\<rparr>"

lemma gap_block_verified:
  assumes "(r, p) \<in> {(5, 3), (3, 2), (2, 1)}" shows "verified_block gap_env (gap_block r p)"
proof -
  have "qc_verify (sy_crypto gap_env) (gap_cert p) four_verifier = Ok ()"
    using assms by (auto simp: qc_verify_def gap_cert_def gap_info_def gap_env_def bi_empty_def vd_verify_def ensure_def
        lis_verify_signatures_def four_defs)
  moreover have "blk_verify_well_formed 0 (gap_block r p) = Ok ()"
    using assms by (auto simp: gap_block_def gap_cert_def gap_info_def bi_empty_def blk_verify_well_formed_def ensure_def Let_def
        bd_is_genesis_block_def bd_is_nil_block_def has_reconfiguration_def bd_payload_def qc_ends_epoch_def ends_epoch_def)
  ultimately show ?thesis
    by (simp add: verified_block_def validate_signature_def gap_block_def gap_env_def)
qed

lemma gap_has_chain: "has_chain gap_env 1 5 3 gap_chain"
proof -
  have "retrieved gap_env 5 3 gap_chain"
    by (simp add: retrieved_def gap_chain_def gap_block_verified) (simp add: gap_block_def gap_cert_def gap_info_def)
  moreover have "serves gap_env 1 gap_tree" by (simp add: serves_def gap_env_def)
  moreover have "holds_blocks gap_tree gap_chain"
    by (simp add: holds_blocks_def gap_tree_def gap_chain_def sample_tree_def bt_get_block_def lb_new_def gap_block_def)
  ultimately show ?thesis unfolding has_chain_def by (auto simp: gap_chain_def)
qed

theorem block_retrieval_correct_witness:
  "\<exists>n'. retrieve_block_for_id gap_env 1 5 [1, 2, 3] 3 () = Some (Ok gap_chain, n')"
  using block_retrieval_correct [of gap_env 1 5 "[1, 2, 3]" 3 "()"] gap_has_chain by auto

text \<open>
  C38: Fast-forwarding a validator takes the number of blocks between the committed and the highest ordered
  block to be the difference of their rounds plus one. If a round between them has no block, more ancestors than
  that are fetched, and if the peer has them, the assertion that the last one is the committed block panics.
\<close>

theorem fast_forward_panics_on_gap:
  assumes "has_chain Y p (bi_id (qc_certified_block oc))
      (bi_round (qc_certified_block oc) - li_round (lis_ledger_info li) + 1) (newer @ [c] @ older)"
    and "blk_id c = bi_id (lis_commit_info li)" and "older \<noteq> []" and "distinct (map blk_id (c # older))"
    and "fmdom (lis_signatures (qc_ledger_info oc)) \<noteq> {||}"
  shows "\<exists>n'. fast_forward_sync Y p oc li (s, n) = Some (Panic, (s, n'))"
proof -
  have "btree_keys (lis_signatures (qc_ledger_info oc)) \<noteq> []"
    using assms(5) by (metis set_btree_keys bot_fset.rep_eq fset_inject list.set(1))
  from retrieve_block_for_id_served [OF assms(1) this, of n] obtain n' where
    "retrieve_block_for_qc Y p oc (bi_round (qc_certified_block oc) - li_round (lis_ledger_info li) + 1) n
      = Some (Ok (newer @ [c] @ older), n')"
    unfolding retrieve_block_for_qc_def by blast
  moreover have "blk_id (last older) \<noteq> blk_id c"
  proof
    assume eq: "blk_id (last older) = blk_id c"
    from last_in_set [OF assms(3)] have "blk_id (last older) \<in> blk_id ` set older" by (rule imageI)
    with assms(4) show False unfolding eq by simp
  qed
  then have "blk_id (last (newer @ [c] @ older)) \<noteq> bi_id (lis_commit_info li)"
    using assms(3) unfolding assms(2) [symmetric] by simp
  ultimately show ?thesis by (blast dest: fast_forward_other_end)
qed

theorem fast_forward_panics_on_gap_witness:
  "\<exists>n'. fast_forward_sync gap_env 1 (gap_cert 5)
      \<lparr>lis_ledger_info = \<lparr>li_commit_info = gap_info 3, li_consensus_data_hash = 0\<rparr>, lis_signatures = fmempty\<rparr>
      (\<lparr>bs_inner = gap_tree, bs_state_computer = \<lparr>osc_executor_channel = [], osc_open = True\<rparr>,
        bs_storage = \<lparr>cdb_last_vote = None, cdb_highest_timeout_certificate = None, cdb_blocks = fmempty,
          cdb_quorum_certs = fmempty, cdb_outcomes = []\<rparr>\<rparr>, ())
    = Some (Panic, (\<lparr>bs_inner = gap_tree, bs_state_computer = \<lparr>osc_executor_channel = [], osc_open = True\<rparr>,
        bs_storage = \<lparr>cdb_last_vote = None, cdb_highest_timeout_certificate = None, cdb_blocks = fmempty,
          cdb_quorum_certs = fmempty, cdb_outcomes = []\<rparr>\<rparr>, n'))"
  using gap_has_chain
  by (intro fast_forward_panics_on_gap [where newer = "[gap_block 5 3]" and c = "gap_block 3 2" and older = "[gap_block 2 1]"])
    (simp_all add: gap_cert_def gap_info_def gap_chain_def gap_block_def)

end
