(* ===== verification/RoundManager.thy ===== *)
theory RoundManager
  imports SafetyRules RoundState ProposerElection SyncManager
begin

text \<open>
  The event handlers of consensus, \<open>src/consensus/src/round_manager.rs\<close>, which put the other parts
  together: the block store, the pacemaker, the proposer election, the proposal generator
  (\<open>src/consensus/src/liveness/proposal_generator.rs\<close>), safety rules behind
  \<open>src/consensus/src/metrics_safety_rules.rs\<close>, and the sending side of \<open>src/consensus/src/network.rs\<close>.

  A handler is a method over the state of the round manager that may not return, since it may wait for blocks of
  peers. What is outside the node (the answers of peers, the clock, random numbers and the
  mempool) is a state \<open>'w\<close> with the methods of \<open>rm_env\<close>. Messages are recorded with their recipient
  when they are handed to the network. The clock is read at the start of the handlers that may need it for a new
  deadline, where the code reads it once a new round or a timeout is at hand. Counters, log lines and injected
  failures are left out.
\<close>

section \<open>Messages\<close>

record EpochRetrievalRequest =
  err_start_epoch :: u64
  err_end_epoch :: u64

record CommitVote =
  cv_author :: Author
  cv_ledger_info :: LedgerInfo
  cv_signature :: Ed25519Signature

definition cv_verify :: "consensus_crypto \<Rightarrow> CommitVote \<Rightarrow> ValidatorVerifier \<Rightarrow> (unit, anyhow) result" where
  "cv_verify C cv validator =
     map_err (\<lambda>e. WithContext ''Failed to verify Commit Proposal'' (FromVerifyError e))
       (vv_verify (cc_ledger_info C) validator (cv_author cv) (cv_ledger_info cv) (cv_signature cv))"

record CommitDecision =
  cd_ledger_info :: LedgerInfoWithSignatures

definition cd_verify :: "consensus_crypto \<Rightarrow> CommitDecision \<Rightarrow> ValidatorVerifier \<Rightarrow> (unit, anyhow) result" where
  "cd_verify C cd validator =
     map_err (\<lambda>e. WithContext ''Failed to verify Commit Decision'' (FromVerifyError e))
       (lis_verify_signatures (cc_ledger_info C) (cd_ledger_info cd) validator)"

datatype ConsensusMsg =
    BlockRetrievalRequestMsg BlockRetrievalRequest
  | BlockRetrievalResponseMsg BlockRetrievalResponse
  | EpochRetrievalRequestMsg EpochRetrievalRequest
  | ProposalMessage ProposalMsg
  | SyncInfoMsg SyncInfo
  | EpochChangeProofMsg EpochChangeProof
  | VoteMessage VoteMsg
  | CommitVoteMsg CommitVote
  | CommitDecisionMsg CommitDecision

datatype ConsensusEvent =
    ProposalEvent ProposalMsg
  | VoteEvent VoteMsg
  | SyncInfoEvent SyncInfo
  | CommitVoteEvent CommitVote
  | CommitDecisionEvent CommitDecision

text \<open>An unverified event and a verified one have the same contents.\<close>

definition event_verify :: "consensus_crypto \<Rightarrow> u64 \<Rightarrow> ConsensusEvent \<Rightarrow> ValidatorVerifier \<Rightarrow> (ConsensusEvent, anyhow) result" where
  "event_verify C now e validator =
     rbind (case e of
              ProposalEvent p \<Rightarrow> pm_verify C now p validator
            | VoteEvent v \<Rightarrow> vm_verify C v validator
            | SyncInfoEvent s \<Rightarrow> si_verify C s validator
            | CommitVoteEvent cv \<Rightarrow> cv_verify C cv validator
            | CommitDecisionEvent cd \<Rightarrow> cd_verify C cd validator) (\<lambda>_.
     Ok e)"

definition event_epoch :: "ConsensusEvent \<Rightarrow> u64" where
  "event_epoch e =
     (case e of
        ProposalEvent p \<Rightarrow> blk_epoch (pm_proposal p)
      | VoteEvent v \<Rightarrow> vote_epoch (vm_vote v)
      | SyncInfoEvent s \<Rightarrow> si_epoch s
      | CommitVoteEvent cv \<Rightarrow> li_epoch (cv_ledger_info cv)
      | CommitDecisionEvent cd \<Rightarrow> li_epoch (lis_ledger_info (cd_ledger_info cd)))"

definition event_from :: "ConsensusMsg \<Rightarrow> ConsensusEvent option" where
  "event_from m =
     (case m of
        ProposalMessage p \<Rightarrow> Some (ProposalEvent p)
      | VoteMessage v \<Rightarrow> Some (VoteEvent v)
      | SyncInfoMsg s \<Rightarrow> Some (SyncInfoEvent s)
      | CommitVoteMsg cv \<Rightarrow> Some (CommitVoteEvent cv)
      | CommitDecisionMsg cd \<Rightarrow> Some (CommitDecisionEvent cd)
      | _ \<Rightarrow> None)"

section \<open>Sending\<close>

record 'w NetworkSender =
  ns_author :: Author
  ns_validators :: ValidatorVerifier
  ns_sent :: "(Author \<times> ConsensusMsg) list"
  ns_world :: 'w

definition ns_push :: "(Author \<times> ConsensusMsg) list \<Rightarrow> 'w NetworkSender \<Rightarrow> 'w NetworkSender" where
  "ns_push msgs n = n\<lparr>ns_sent := ns_sent n @ msgs\<rparr>"

definition ns_broadcast :: "ConsensusMsg \<Rightarrow> 'w NetworkSender \<Rightarrow> 'w NetworkSender" where
  "ns_broadcast msg n =
     ns_push ((ns_author n, msg) #
       map (\<lambda>a. (a, msg)) (filter (\<lambda>a. a \<noteq> ns_author n) (get_ordered_account_addresses (ns_validators n)))) n"

definition send_vote :: "VoteMsg \<Rightarrow> Author list \<Rightarrow> 'w NetworkSender \<Rightarrow> 'w NetworkSender" where
  "send_vote vote_msg recipients = ns_push (map (\<lambda>peer. (peer, VoteMessage vote_msg)) recipients)"

definition send_sync_info :: "SyncInfo \<Rightarrow> Author \<Rightarrow> 'w NetworkSender \<Rightarrow> 'w NetworkSender" where
  "send_sync_info sync_info recipient = ns_push [(recipient, SyncInfoMsg sync_info)]"

definition notify_epoch_change :: "EpochChangeProof \<Rightarrow> 'w NetworkSender \<Rightarrow> 'w NetworkSender" where
  "notify_epoch_change epoch_proof n = ns_push [(ns_author n, EpochChangeProofMsg epoch_proof)] n"

definition on_world :: "('w, 'a, 'e) st_result \<Rightarrow> ('w NetworkSender, 'a, 'e) st_result" where
  "on_world m = sfield ns_world (\<lambda>w n. n\<lparr>ns_world := w\<rparr>) m"

section \<open>The round manager\<close>

record ProposalGenerator =
  pg_author :: Author
  pg_max_block_size :: u64
  pg_last_round_generated :: Round

record ('x, 'd, 'w, 'st, 'p) RoundManager =
  rm_epoch_state :: EpochState
  rm_block_store :: "('x, 'd) BlockStore"
  rm_round_state :: RoundState
  rm_proposer_election :: 'p
  rm_proposal_generator :: ProposalGenerator
  rm_safety_rules :: "'st SafetyRules"
  rm_network :: "'w NetworkSender"
  rm_sync_only :: bool
  rm_back_pressure :: u64
  rm_decoupled_execution :: bool
  rm_back_pressure_limit :: u64

definition pg_new :: "Author \<Rightarrow> u64 \<Rightarrow> ProposalGenerator" where
  "pg_new author max_block_size =
     \<lparr>pg_author = author, pg_max_block_size = max_block_size, pg_last_round_generated = 0\<rparr>"

definition rm_new_with_decoupled_execution ::
  "EpochState \<Rightarrow> ('x, 'd) BlockStore \<Rightarrow> RoundState \<Rightarrow> 'p \<Rightarrow> ProposalGenerator \<Rightarrow> 'st SafetyRules \<Rightarrow> 'w NetworkSender
     \<Rightarrow> bool \<Rightarrow> u64 \<Rightarrow> u64 \<Rightarrow> ('x, 'd, 'w, 'st, 'p) RoundManager" where
  "rm_new_with_decoupled_execution es block_store round_state election generator safety_rules network only_sync
     back_pressure back_pressure_limit =
     \<lparr>rm_epoch_state = es, rm_block_store = block_store, rm_round_state = round_state, rm_proposer_election = election,
      rm_proposal_generator = generator, rm_safety_rules = safety_rules, rm_network = network, rm_sync_only = only_sync,
      rm_back_pressure = back_pressure, rm_decoupled_execution = True, rm_back_pressure_limit = back_pressure_limit\<rparr>"

definition rm_new ::
  "EpochState \<Rightarrow> ('x, 'd) BlockStore \<Rightarrow> RoundState \<Rightarrow> 'p \<Rightarrow> ProposalGenerator \<Rightarrow> 'st SafetyRules \<Rightarrow> 'w NetworkSender
     \<Rightarrow> bool \<Rightarrow> ('x, 'd, 'w, 'st, 'p) RoundManager" where
  "rm_new es block_store round_state election generator safety_rules network only_sync =
     \<lparr>rm_epoch_state = es, rm_block_store = block_store, rm_round_state = round_state, rm_proposer_election = election,
      rm_proposal_generator = generator, rm_safety_rules = safety_rules, rm_network = network, rm_sync_only = only_sync,
      rm_back_pressure = 0, rm_decoupled_execution = False, rm_back_pressure_limit = 1\<rparr>"

record ('x, 'd, 'w, 'st, 'p) rm_env =
  re_crypto :: consensus_crypto
  re_store :: "('x, 'd) store_env"
  re_storage_api :: "'st storage_api"
  re_election :: "'p proposer_election"
  re_round_duration :: "nat \<Rightarrow> Duration"
  re_verify_now :: u64
  re_get_time :: "'w \<Rightarrow> Duration \<times> 'w"
  re_pull_txns :: "u64 \<Rightarrow> Payload list \<Rightarrow> ('w, Payload, anyhow) st_result"
  re_notify :: "Block \<Rightarrow> StateComputeResult \<Rightarrow> ('w, unit, anyhow) st_result"
  re_send_rpc :: "Author \<Rightarrow> BlockRetrievalRequest \<Rightarrow> nat \<Rightarrow> ('w, BlockRetrievalResponse option, anyhow) st_result"
  re_gen_range :: "nat \<Rightarrow> 'w \<Rightarrow> nat \<times> 'w"
  re_sync_to :: "LedgerInfoWithSignatures \<Rightarrow> ('x, unit, anyhow) st_result"
  re_start :: "('d, LivenessStorageData, anyhow) st_result"
  re_save_vote :: "Vote \<Rightarrow> ('d, unit, anyhow) st_result"
  re_epoch_change_proof :: "u64 \<Rightarrow> ('d, EpochChangeProof, anyhow) st_result"

type_synonym ('x, 'd, 'w, 'st, 'p, 'a) handler = "(('x, 'd, 'w, 'st, 'p) RoundManager, 'a) async"

text \<open>Methods of the parts.\<close>

definition in_store :: "(('x, 'd) BlockStore, 'a, anyhow) st_result \<Rightarrow> ('x, 'd, 'w, 'st, 'p, 'a) handler" where
  "in_store m = dlift (sfield rm_block_store (\<lambda>b s. s\<lparr>rm_block_store := b\<rparr>) m)"

definition in_sync :: "(('x, 'd, 'w NetworkSender) sync_state, 'a) async \<Rightarrow> ('x, 'd, 'w, 'st, 'p, 'a) handler" where
  "in_sync m s = map_option (\<lambda>(r, b, n). (r, s\<lparr>rm_block_store := b, rm_network := n\<rparr>)) (m (rm_block_store s, rm_network s))"

definition in_network :: "('w NetworkSender, 'a, anyhow) st_result \<Rightarrow> ('x, 'd, 'w, 'st, 'p, 'a) handler" where
  "in_network m = dlift (sfield rm_network (\<lambda>n s. s\<lparr>rm_network := n\<rparr>) m)"

definition in_election :: "('p, 'a, anyhow) st_result \<Rightarrow> ('x, 'd, 'w, 'st, 'p, 'a) handler" where
  "in_election m = dlift (sfield rm_proposer_election (\<lambda>p s. s\<lparr>rm_proposer_election := p\<rparr>) m)"

definition in_round_state :: "(RoundState \<Rightarrow> ('a \<times> RoundState) option) \<Rightarrow> ('x, 'd, 'w, 'st, 'p, 'a) handler" where
  "in_round_state m = dlift (sfield rm_round_state (\<lambda>r s. s\<lparr>rm_round_state := r\<rparr>)
     (\<lambda>r. case m r of Some (a, r') \<Rightarrow> (Ok a, r') | None \<Rightarrow> (Panic, r)))"

definition dret :: "'a \<Rightarrow> ('s, 'a) async" where
  "dret a = dlift (sret a)"

definition dread :: "('s \<Rightarrow> ('a, anyhow) result) \<Rightarrow> ('s, 'a) async" where
  "dread f = dlift (sread f)"

definition dcontext :: "string \<Rightarrow> ('s, 'a) async \<Rightarrow> ('s, 'a) async" where
  "dcontext msg m s = map_option (\<lambda>(r, s'). (map_err (WithContext msg) r, s')) (m s)"

text \<open>\<open>let result = m; k?; result\<close>\<close>

definition dthen :: "('s, 'a) async \<Rightarrow> ('s, unit) async \<Rightarrow> ('s, 'a) async" where
  "dthen m k s =
     (case m s of
        None \<Rightarrow> None
      | Some (Panic, s1) \<Rightarrow> Some (Panic, s1)
      | Some (r, s1) \<Rightarrow> dbind k (\<lambda>_. dlift (slift r)) s1)"

text \<open>The clock.\<close>

definition get_time :: "('x, 'd, 'w, 'st, 'p) rm_env \<Rightarrow> ('x, 'd, 'w, 'st, 'p, Duration) handler" where
  "get_time E = in_network (on_world (\<lambda>w. map_prod Ok id (re_get_time E w)))"

text \<open>What the sync manager sees.\<close>

definition rm_sync_env ::
  "('x, 'd, 'w, 'st, 'p) rm_env \<Rightarrow> ('x, 'd, 'w, 'st, 'p) RoundManager \<Rightarrow> ('x, 'd, 'w NetworkSender) sync_env" where
  "rm_sync_env E s =
     \<lparr>sy_store = re_store E, sy_crypto = re_crypto E, sy_now = re_verify_now E, sy_author = ns_author (rm_network s),
      sy_validators = ns_validators (rm_network s),
      sy_send_rpc = (\<lambda>peer q t. on_world (re_send_rpc E peer q t)),
      sy_gen_range = (\<lambda>k n. let (i, w) = re_gen_range E k (ns_world n) in (i, n\<lparr>ns_world := w\<rparr>)),
      sy_broadcast = (\<lambda>epoch_proof. ns_broadcast (EpochChangeProofMsg epoch_proof)),
      sy_notify_epoch_change = notify_epoch_change, sy_sync_to = re_sync_to E, sy_start = re_start E\<rparr>"

section \<open>Safety rules with retry\<close>

text \<open>An error of safety rules that \<open>?\<close> turns into an \<open>anyhow\<close> error.\<close>

definition from_safety_error :: "Error \<Rightarrow> anyhow" where
  "from_safety_error e = Msg ''safety rules''"

definition in_safety_rules ::
  "('st SafetyRules, 'a, Error) st_result \<Rightarrow> (('x, 'd, 'w, 'st, 'p) RoundManager, 'a, Error) st_result" where
  "in_safety_rules m = sfield rm_safety_rules (\<lambda>r s. s\<lparr>rm_safety_rules := r\<rparr>) m"

definition perform_initialize ::
  "('x, 'd, 'w, 'st, 'p) rm_env \<Rightarrow> (('x, 'd, 'w, 'st, 'p) RoundManager, unit, Error) st_result" where
  "perform_initialize E =
     sbind (in_safety_rules (guarded_consensus_state (re_storage_api E))) (\<lambda>consensus_state.
     sbind (smap_err (\<lambda>e. InternalError (WithContext ''Unable to retrieve Waypoint state from storage'' e))
              (sfield rm_block_store (\<lambda>b s. s\<lparr>rm_block_store := b\<rparr>)
                (on_db (re_epoch_change_proof E (wp_version (cs_waypoint consensus_state)))))) (\<lambda>proofs.
     in_safety_rules (guarded_initialize (re_storage_api E) (re_crypto E) proofs)))"

definition needs_initialize :: "Error \<Rightarrow> bool" where
  "needs_initialize e = (case e of NotInitialized _ \<Rightarrow> True | IncorrectEpoch _ _ \<Rightarrow> True | _ \<Rightarrow> False)"

definition sr_retry ::
  "('x, 'd, 'w, 'st, 'p) rm_env \<Rightarrow> ('st SafetyRules, 'a, Error) st_result
     \<Rightarrow> (('x, 'd, 'w, 'st, 'p) RoundManager, 'a, Error) st_result" where
  "sr_retry E f s =
     (case in_safety_rules f s of
        (Err e, s1) \<Rightarrow>
          if needs_initialize e then sbind (perform_initialize E) (\<lambda>_. in_safety_rules f) s1 else (Err e, s1)
      | r \<Rightarrow> r)"

definition ask_safety_rules ::
  "('x, 'd, 'w, 'st, 'p) rm_env \<Rightarrow> ('st SafetyRules, 'a, Error) st_result \<Rightarrow> ('x, 'd, 'w, 'st, 'p, 'a) handler" where
  "ask_safety_rules E f = dlift (smap_err from_safety_error (sr_retry E f))"

section \<open>Generating proposals\<close>

definition ensure_highest_quorum_cert :: "Round \<Rightarrow> ('x, 'd) BlockStore \<Rightarrow> (QuorumCert, anyhow) result" where
  "ensure_highest_quorum_cert rnd b =
     (let hqc = bt_highest_quorum_cert (bs_inner b)
      in rbind (ensure (bi_round (qc_certified_block hqc) < rnd) (Msg ''Given round is lower than hqc round'')) (\<lambda>_.
         rbind (ensure (\<not> qc_ends_epoch hqc)
                  (Msg ''The epoch has already ended, a proposal is not allowed to generated'')) (\<lambda>_.
         Ok hqc)))"

definition generate_nil_block :: "consensus_crypto \<Rightarrow> Round \<Rightarrow> ('x, 'd) BlockStore \<Rightarrow> (Block, anyhow) result" where
  "generate_nil_block C rnd b =
     rbind (ensure_highest_quorum_cert rnd b) (\<lambda>hqc. Ok (blk_new_nil C rnd hqc))"

text \<open>The round is claimed before anything else.\<close>

definition claim_round :: "Round \<Rightarrow> ('x, 'd, 'w, 'st, 'p, unit) handler" where
  "claim_round rnd = dlift (\<lambda>s.
     if pg_last_round_generated (rm_proposal_generator s) < rnd
     then (Ok (), s\<lparr>rm_proposal_generator := (rm_proposal_generator s)\<lparr>pg_last_round_generated := rnd\<rparr>\<rparr>)
     else (Err (Msg ''Already proposed in the round''), s))"

text \<open>The payloads of the blocks from the extended one up to the commit root, which are not proposed again.\<close>

definition pending_payloads :: "QuorumCert \<Rightarrow> ('x, 'd) BlockStore \<Rightarrow> (Payload list, anyhow) result" where
  "pending_payloads hqc b =
     (case bt_path_from_commit_root (bs_inner b) (bi_id (qc_certified_block hqc)) of
        None \<Rightarrow> Panic
      | Some None \<Rightarrow> Err (Msg ''HQC already pruned'')
      | Some (Some pending_blocks) \<Rightarrow>
          rbind (expect (commit_root (bs_inner b))) (\<lambda>root.
          Ok (concat (map (\<lambda>block. case blk_payload (eb_block block) of Some p \<Rightarrow> [p] | None \<Rightarrow> [])
                       (pending_blocks @ [root])))))"

definition pg_generate_proposal ::
  "('x, 'd, 'w, 'st, 'p) rm_env \<Rightarrow> Round \<Rightarrow> ('x, 'd, 'w, 'st, 'p, BlockData) handler" where
  "pg_generate_proposal E rnd =
     dbind (claim_round rnd) (\<lambda>_.
     dbind (dread (\<lambda>s. ensure_highest_quorum_cert rnd (rm_block_store s))) (\<lambda>hqc.
     dbind (if has_reconfiguration (qc_certified_block hqc)
            then dret ([], bi_timestamp_usecs (qc_certified_block hqc))
            else
              dbind (dread (\<lambda>s. pending_payloads hqc (rm_block_store s))) (\<lambda>exclude_payload.
              dbind (get_time E) (\<lambda>timestamp.
              dbind (dread (\<lambda>s. Ok (pg_max_block_size (rm_proposal_generator s)))) (\<lambda>max_block_size.
              dbind (dcontext ''Fail to retrieve txn''
                       (in_network (on_world (re_pull_txns E max_block_size exclude_payload)))) (\<lambda>payload.
              dret (payload, of_nat (timestamp div 1000))))))) (\<lambda>(payload, timestamp).
     dread (\<lambda>s. Ok (bd_new_proposal payload (pg_author (rm_proposal_generator s)) rnd timestamp hqc)))))"

definition rm_generate_proposal ::
  "('x, 'd, 'w, 'st, 'p) rm_env \<Rightarrow> NewRoundEvent \<Rightarrow> ('x, 'd, 'w, 'st, 'p, ProposalMsg) handler" where
  "rm_generate_proposal E new_round_event =
     dbind (pg_generate_proposal E (nre_round new_round_event)) (\<lambda>proposal.
     dbind (ask_safety_rules E (guarded_sign_proposal (re_storage_api E) (re_crypto E) proposal)) (\<lambda>signature.
     let signed_proposal = new_proposal_from_block_data_and_signature (re_crypto E) proposal signature
     in dread (\<lambda>s. Ok \<lparr>pm_proposal = signed_proposal, pm_sync_info = bs_sync_info (rm_block_store s)\<rparr>)))"

section \<open>Rounds and certificates\<close>

definition process_new_round_event ::
  "('x, 'd, 'w, 'st, 'p) rm_env \<Rightarrow> NewRoundEvent \<Rightarrow> ('x, 'd, 'w, 'st, 'p, unit) handler" where
  "process_new_round_event E new_round_event =
     dbind (dread (\<lambda>s. Ok (pg_author (rm_proposal_generator s)))) (\<lambda>author.
     dbind (in_election (is_valid_proposer (pe_get_valid_proposer (re_election E)) author (nre_round new_round_event))) (\<lambda>valid.
     if valid
     then dbind (rm_generate_proposal E new_round_event) (\<lambda>proposal_msg.
          in_network (smodify (ns_broadcast (ProposalMessage proposal_msg))))
     else dret ()))"

definition rm_process_certificates :: "('x, 'd, 'w, 'st, 'p) rm_env \<Rightarrow> ('x, 'd, 'w, 'st, 'p, unit) handler" where
  "rm_process_certificates E =
     dbind (get_time E) (\<lambda>now.
     dbind (dread (\<lambda>s. Ok (bs_sync_info (rm_block_store s)))) (\<lambda>sync_info.
     dbind (in_round_state (process_certificates (re_round_duration E) now sync_info)) (\<lambda>event.
     case event of
       Some new_round_event \<Rightarrow> process_new_round_event E new_round_event
     | None \<Rightarrow> dret ())))"

definition rm_sync_up ::
  "('x, 'd, 'w, 'st, 'p) rm_env \<Rightarrow> SyncInfo \<Rightarrow> Author \<Rightarrow> bool \<Rightarrow> ('x, 'd, 'w, 'st, 'p, unit) handler" where
  "rm_sync_up E sync_info author help_remote =
     dbind (dread (\<lambda>s. Ok (bs_sync_info (rm_block_store s)))) (\<lambda>local_sync_info.
     dbind (if help_remote \<and> has_newer_certificates local_sync_info sync_info
            then in_network (smodify (send_sync_info local_sync_info author)) else dret ()) (\<lambda>_.
     if has_newer_certificates sync_info local_sync_info
     then
       dbind (dread (\<lambda>s. si_verify (re_crypto E) sync_info (es_verifier (rm_epoch_state s)))) (\<lambda>_.
       dthen (\<lambda>s. in_sync (add_certs (rm_sync_env E s) author sync_info) s) (rm_process_certificates E))
     else dret ()))"

definition ensure_round_and_sync_up ::
  "('x, 'd, 'w, 'st, 'p) rm_env \<Rightarrow> Round \<Rightarrow> SyncInfo \<Rightarrow> Author \<Rightarrow> bool \<Rightarrow> ('x, 'd, 'w, 'st, 'p, bool) handler" where
  "ensure_round_and_sync_up E message_round sync_info author help_remote s =
     (if message_round < rs_current_round (rm_round_state s) then dret False s
      else
        dbind (rm_sync_up E sync_info author help_remote) (\<lambda>_.
        dbind (dread (\<lambda>s. ensure (message_round = rs_current_round (rm_round_state s))
                 (Msg ''After sync, round doesn't match local''))) (\<lambda>_.
        dret True)) s)"

definition process_sync_info_msg ::
  "('x, 'd, 'w, 'st, 'p) rm_env \<Rightarrow> SyncInfo \<Rightarrow> Author \<Rightarrow> ('x, 'd, 'w, 'st, 'p, unit) handler" where
  "process_sync_info_msg E sync_info peer =
     dbind (dread (\<lambda>_. ok_or (checked_add (highest_round sync_info) 1) (Msg ''Operation results in overflow''))) (\<lambda>message_round.
     dbind (dcontext ''Failed to process sync info msg'' (ensure_round_and_sync_up E message_round sync_info peer False)) (\<lambda>_.
     dret ()))"

section \<open>Voting\<close>

definition sync_only :: "('x, 'd, 'w, 'st, 'p) RoundManager \<Rightarrow> (bool, anyhow) result" where
  "sync_only s =
     (if rm_decoupled_execution s
      then rbind (expect (ordered_root (bs_inner (rm_block_store s)))) (\<lambda>root.
           Ok (rm_sync_only s \<or> eb_round root > rm_back_pressure_limit s + rm_back_pressure s))
      else Ok (rm_sync_only s))"

text \<open>A failure to notify the mempool is only logged.\<close>

definition notify_mempool ::
  "('x, 'd, 'w, 'st, 'p) rm_env \<Rightarrow> ExecutedBlock \<Rightarrow> ('x, 'd, 'w, 'st, 'p, unit) handler" where
  "notify_mempool E executed_block =
     in_network (on_world (\<lambda>w. case re_notify E (eb_block executed_block) (eb_state_compute_result executed_block) w of
       (Panic, w') \<Rightarrow> (Panic, w') | (_, w') \<Rightarrow> (Ok (), w')))"

definition execute_and_vote ::
  "('x, 'd, 'w, 'st, 'p) rm_env \<Rightarrow> Block \<Rightarrow> ('x, 'd, 'w, 'st, 'p, Vote) handler" where
  "execute_and_vote E proposed_block =
     dbind (dcontext ''Failed to execute_and_insert the block''
              (in_store (execute_and_insert_block (re_store E) proposed_block))) (\<lambda>executed_block.
     dbind (\<lambda>s. if rm_decoupled_execution s then dret () s else notify_mempool E executed_block s) (\<lambda>_.
     dbind (dread (\<lambda>s. ensure (rs_vote_sent (rm_round_state s) = None) (Msg ''Already vote on this round''))) (\<lambda>_.
     dbind (dread (\<lambda>s. rbind (sync_only s) (\<lambda>b. ensure (\<not> b) (Msg ''sync_only flag is set, stop voting'')))) (\<lambda>_.
     dbind (dcontext ''SafetyRules Rejected''
              (ask_safety_rules E (guarded_construct_and_sign_vote (re_storage_api E) (re_crypto E) (re_verify_now E)
                 (eb_maybe_signed_vote_proposal executed_block)))) (\<lambda>vote.
     dbind (dcontext ''Fail to persist last vote'' (in_store (on_db (re_save_vote E vote)))) (\<lambda>_.
     dret vote))))))"

definition rm_record_vote :: "Vote \<Rightarrow> ('x, 'd, 'w, 'st, 'p, unit) handler" where
  "rm_record_vote vote = in_round_state (\<lambda>r. Some ((), record_vote vote r))"

definition process_proposal ::
  "('x, 'd, 'w, 'st, 'p) rm_env \<Rightarrow> Block \<Rightarrow> ('x, 'd, 'w, 'st, 'p, unit) handler" where
  "process_proposal E proposal =
     dbind (dread (\<lambda>_. expect (blk_author proposal))) (\<lambda>author.
     dbind (in_election (pe_is_valid_proposal (re_election E) proposal)) (\<lambda>valid.
     dbind (dread (\<lambda>_. ensure valid (Msg ''Proposer is not a valid proposer for this round''))) (\<lambda>_.
     dbind (dread (\<lambda>s. ensure (unat (blk_timestamp_usecs proposal) * 1000 < rs_current_round_deadline (rm_round_state s))
              (Msg ''Waiting until proposal block timestamp would exceed the round duration''))) (\<lambda>_.
     dbind (dcontext ''Process proposal'' (execute_and_vote E proposal)) (\<lambda>vote.
     dbind (in_election (pe_get_valid_proposer (re_election E) (blk_round proposal + 1))) (\<lambda>recipient.
     dbind (rm_record_vote vote) (\<lambda>_.
     dbind (dread (\<lambda>s. Ok \<lparr>vm_vote = vote, vm_sync_info = bs_sync_info (rm_block_store s)\<rparr>)) (\<lambda>vote_msg.
     in_network (smodify (send_vote vote_msg [recipient]))))))))))"

definition process_proposal_msg ::
  "('x, 'd, 'w, 'st, 'p) rm_env \<Rightarrow> ProposalMsg \<Rightarrow> ('x, 'd, 'w, 'st, 'p, unit) handler" where
  "process_proposal_msg E proposal_msg =
     dbind (dread (\<lambda>_. expect (pm_proposer proposal_msg))) (\<lambda>proposer.
     dbind (dcontext ''Process proposal''
              (ensure_round_and_sync_up E (blk_round (pm_proposal proposal_msg)) (pm_sync_info proposal_msg) proposer True)) (\<lambda>current.
     if current then process_proposal E (pm_proposal proposal_msg)
     else dread (\<lambda>_. Err (Msg ''Stale proposal''))))"

text \<open>
  The vote to repeat in a timeout of the round: the one already sent, or a new one for a nil block. The
  handler never returns \<open>Ok\<close> once a timeout is broadcast.
\<close>

definition timeout_vote ::
  "('x, 'd, 'w, 'st, 'p) rm_env \<Rightarrow> Round \<Rightarrow> ('x, 'd, 'w, 'st, 'p, Vote) handler" where
  "timeout_vote E rnd s =
     (let nil_vote =
            dbind (dread (\<lambda>s. generate_nil_block (re_crypto E) rnd (rm_block_store s))) (\<lambda>nil_block.
            execute_and_vote E nil_block)
      in case rs_vote_sent (rm_round_state s) of
           Some vote \<Rightarrow> if bi_round (vd_proposed (vote_vote_data vote)) = rnd then dret vote s else nil_vote s
         | None \<Rightarrow> nil_vote s)"

definition sign_timeout_vote ::
  "('x, 'd, 'w, 'st, 'p) rm_env \<Rightarrow> Vote \<Rightarrow> ('x, 'd, 'w, 'st, 'p, Vote) handler" where
  "sign_timeout_vote E vote =
     (if vote_is_timeout vote then dret vote
      else dbind (dcontext ''SafetyRules signs timeout''
                    (ask_safety_rules E (guarded_sign_timeout (re_storage_api E) (re_crypto E) (vote_timeout vote)))) (\<lambda>signature.
           dret (add_timeout_signature signature vote)))"

definition rm_process_local_timeout ::
  "('x, 'd, 'w, 'st, 'p) rm_env \<Rightarrow> Round \<Rightarrow> ('x, 'd, 'w, 'st, 'p, unit) handler" where
  "rm_process_local_timeout E rnd =
     dbind (get_time E) (\<lambda>now.
     dbind (in_round_state (process_local_timeout (re_round_duration E) now rnd)) (\<lambda>timed_out.
     if \<not> timed_out then dret ()
     else
       dbind (dread sync_only) (\<lambda>only_sync.
       if only_sync
       then dbind (dread (\<lambda>s. Ok (bs_sync_info (rm_block_store s)))) (\<lambda>sync_info.
            dbind (in_network (smodify (ns_broadcast (SyncInfoMsg sync_info)))) (\<lambda>_.
            dread (\<lambda>_. Err (Msg ''sync_only flag is set, broadcasting SyncInfo''))))
       else
         dbind (timeout_vote E rnd) (\<lambda>vote.
         dbind (sign_timeout_vote E vote) (\<lambda>vote.
         dbind (rm_record_vote vote) (\<lambda>_.
         dbind (dread (\<lambda>s. Ok \<lparr>vm_vote = vote, vm_sync_info = bs_sync_info (rm_block_store s)\<rparr>)) (\<lambda>vote_msg.
         dbind (in_network (smodify (ns_broadcast (VoteMessage vote_msg)))) (\<lambda>_.
         dread (\<lambda>_. Err (Msg ''Round timeout, broadcast to all peers''))))))))))"

section \<open>Counting votes\<close>

definition new_qc_aggregated ::
  "('x, 'd, 'w, 'st, 'p) rm_env \<Rightarrow> QuorumCert \<Rightarrow> Author \<Rightarrow> ('x, 'd, 'w, 'st, 'p, unit) handler" where
  "new_qc_aggregated E qc preferred_peer =
     dthen (dcontext ''Failed to process a newly aggregated QC''
              (\<lambda>s. in_sync (sm_insert_quorum_cert (rm_sync_env E s) preferred_peer qc) s))
       (rm_process_certificates E)"

definition new_tc_aggregated ::
  "('x, 'd, 'w, 'st, 'p) rm_env \<Rightarrow> TimeoutCertificate \<Rightarrow> ('x, 'd, 'w, 'st, 'p, unit) handler" where
  "new_tc_aggregated E tc =
     dthen (dcontext ''Failed to process a newly aggregated TC'' (in_store (insert_timeout_certificate (re_store E) tc)))
       (rm_process_certificates E)"

definition process_vote ::
  "('x, 'd, 'w, 'st, 'p) rm_env \<Rightarrow> Vote \<Rightarrow> ('x, 'd, 'w, 'st, 'p, unit) handler" where
  "process_vote E vote =
     (let rnd = bi_round (vd_proposed (vote_vote_data vote));
          block_id = bi_id (vd_proposed (vote_vote_data vote))
      in dbind (if \<not> vote_is_timeout vote
                then dbind (dread (\<lambda>s. Ok (pg_author (rm_proposal_generator s)))) (\<lambda>author.
                     dbind (in_election (is_valid_proposer (pe_get_valid_proposer (re_election E)) author (rnd + 1))) (\<lambda>valid.
                     dread (\<lambda>_. ensure valid (Msg ''I am not a valid proposer for the next round, ignore''))))
                else dret ()) (\<lambda>_.
         dbind (dread (\<lambda>s. Ok (get_quorum_cert_for_block (bs_inner (rm_block_store s)) block_id))) (\<lambda>existing.
         if existing \<noteq> None then dret ()
         else
           dbind (\<lambda>s. in_round_state (\<lambda>r. Some (rs_insert_vote (re_crypto E) vote (es_verifier (rm_epoch_state s)) r)) s) (\<lambda>result.
           case result of
             NewQuorumCertificate qc \<Rightarrow> new_qc_aggregated E qc (vote_author vote)
           | NewTimeoutCertificate tc \<Rightarrow> new_tc_aggregated E tc
           | _ \<Rightarrow> dret ()))))"

definition process_vote_msg ::
  "('x, 'd, 'w, 'st, 'p) rm_env \<Rightarrow> VoteMsg \<Rightarrow> ('x, 'd, 'w, 'st, 'p, unit) handler" where
  "process_vote_msg E vote_msg =
     (let vote = vm_vote vote_msg
      in dbind (dcontext ''Stop processing vote''
                  (ensure_round_and_sync_up E (bi_round (vd_proposed (vote_vote_data vote))) (vm_sync_info vote_msg)
                     (vote_author vote) True)) (\<lambda>current.
         if current then dcontext ''Add a new vote'' (process_vote E vote) else dret ()))"

section \<open>Starting\<close>

definition rm_start ::
  "('x, 'd, 'w, 'st, 'p) rm_env \<Rightarrow> Vote option \<Rightarrow> ('x, 'd, 'w, 'st, 'p, unit) handler" where
  "rm_start E last_vote_sent =
     dbind (get_time E) (\<lambda>now.
     dbind (dread (\<lambda>s. Ok (bs_sync_info (rm_block_store s)))) (\<lambda>sync_info.
     dbind (in_round_state (process_certificates (re_round_duration E) now sync_info)) (\<lambda>event.
     dbind (dread (\<lambda>_. expect event)) (\<lambda>new_round_event.
     dbind (case last_vote_sent of Some vote \<Rightarrow> rm_record_vote vote | None \<Rightarrow> dret ()) (\<lambda>_ s.
     case process_new_round_event E new_round_event s of
       Some (Err _, s') \<Rightarrow> Some (Ok (), s')
     | r \<Rightarrow> r)))))"

text \<open>
  A node without the blocks of its ledger in the database waits for a message of a peer to fast-forward to: the
  part of \<open>RecoveryManager\<close> over the same storage and state computer.
\<close>

definition recovery_sync_up ::
  "('x, 'd, 'n) sync_env \<Rightarrow> EpochState \<Rightarrow> Round \<Rightarrow> SyncInfo \<Rightarrow> Author \<Rightarrow> (('x, 'd, 'n) sync_state, RecoveryData) async" where
  "recovery_sync_up Y es last_committed_round sync_info peer =
     dbind (dread (\<lambda>_. si_verify (sy_crypto Y) sync_info (es_verifier es))) (\<lambda>_.
     dbind (dread (\<lambda>_. ensure (highest_round sync_info > last_committed_round)
              (Msg ''Received sync info has lower round number than committed block''))) (\<lambda>_.
     dbind (dread (\<lambda>_. ensure (si_epoch sync_info = es_epoch es)
              (Msg ''Received sync info is in different epoch than committed block''))) (\<lambda>_.
     fast_forward_sync Y peer (highest_ordered_cert sync_info) (highest_ledger_info sync_info))))"

definition recovery_process_proposal_msg ::
  "('x, 'd, 'n) sync_env \<Rightarrow> EpochState \<Rightarrow> Round \<Rightarrow> ProposalMsg \<Rightarrow> (('x, 'd, 'n) sync_state, RecoveryData) async" where
  "recovery_process_proposal_msg Y es last_committed_round proposal_msg =
     dbind (dread (\<lambda>_. expect (pm_proposer proposal_msg))) (\<lambda>author.
     recovery_sync_up Y es last_committed_round (pm_sync_info proposal_msg) author)"

definition recovery_process_vote_msg ::
  "('x, 'd, 'n) sync_env \<Rightarrow> EpochState \<Rightarrow> Round \<Rightarrow> VoteMsg \<Rightarrow> (('x, 'd, 'n) sync_state, RecoveryData) async" where
  "recovery_process_vote_msg Y es last_committed_round vote_msg =
     recovery_sync_up Y es last_committed_round (vm_sync_info vote_msg) (vote_author (vm_vote vote_msg))"

end
