(* ===== verification/Spec2Isabelle.thy ===== *)
theory Spec2Isabelle
  imports Agreement TrustedState RoundState StoreSafety RoundManager
begin

text \<open>
  A verification development for the consensus of the Dijets node: what validators sign and check,
  how a validator votes, counts votes, paces rounds and keeps its blocks, and how a light client
  follows the ledger. File names below are under \<open>src/\<close>.

  \<^bold>\<open>The program and its model.\<close> The validators of an epoch run a chained HotStuff protocol. A leader
  proposes a block that carries a quorum certificate of its parent; validators execute it and ask their
  safety rules for a vote; votes are counted into the next certificate; a chain of certificates of
  consecutive rounds commits a block. Ledger infos signed by a quorum are what clients trust.

  \<^item> \<open>Prelude\<close>: Rust's integers, hash values, \<open>Result\<close> and \<open>Option\<close>, ordered maps, and a
    state-and-result monad with Hoare triples and their verification conditions.
  \<^item> \<open>ValidatorVerifier\<close> (\<open>types/src/validator_verifier.rs\<close>): the validator set with its quorum, and the
    verification of single, aggregated and batched signatures. Quorums are an interface locale,
    \<open>quorum_family\<close>, interpreted on the code's own threshold.
  \<^item> \<open>LedgerTypes\<close> (\<open>types/src/block_info.rs\<close>, \<open>ledger_info.rs\<close>, \<open>epoch_state.rs\<close>): what is signed.
  \<^item> \<open>EpochChange\<close> (\<open>types/src/waypoint.rs\<close>, \<open>epoch_change.rs\<close>): waypoints, and proofs that lead from one
    validator set to a later one.
  \<^item> \<open>Accumulator\<close> (\<open>types/src/proof/accumulator/mod.rs\<close>, \<open>types/src/proof/definition.rs\<close>): the in-memory
    Merkle accumulator and its inclusion, extension and consistency proofs.
  \<^item> \<open>TrustedState\<close> (\<open>types/src/trusted_state.rs\<close>, \<open>state_proof.rs\<close>): the light client.
  \<^item> \<open>ConsensusTypes\<close> (\<open>consensus/consensus-types/src\<close>): blocks, votes, timeouts, quorum and timeout
    certificates, proposals, vote and sync messages, with what makes each well formed.
  \<^item> \<open>SecureStorage\<close> (\<open>secure/storage/src\<close>): key-value and key storage, the interface locale
    \<open>kv_storage\<close> and the in-memory backend that meets it.
  \<^item> \<open>SafetyRules\<close> (\<open>consensus/safety-rules/src\<close>): every request that safety rules serve, for the
    three-chain and the two-chain rule, over any storage backend.
  \<^item> \<open>SafetySpec\<close>, \<open>SafetyRefinement\<close>, \<open>BftSafety\<close>, \<open>Agreement\<close>: the abstract voting machine, the
    refinement of the code to it, and agreement of all correct validators, proved once for the
    interface \<open>commit_rule\<close> and interpreted for both rules.
  \<^item> \<open>PendingVotes\<close>, \<open>RoundState\<close> (\<open>consensus/src/pending_votes.rs\<close>,
    \<open>consensus/src/liveness/round_state.rs\<close>): counting votes, and the pacemaker.
  \<^item> \<open>Forest\<close>, \<open>BlockTree\<close> (\<open>consensus/src/block_storage/block_tree.rs\<close>,
    \<open>consensus/consensus-types/src/executed_block.rs\<close>): the tree of executed blocks.
  \<^item> \<open>Recovery\<close> (\<open>consensus/src/persistent_liveness_storage.rs\<close>, \<open>consensus/src/consensusdb/mod.rs\<close>): the
    database of consensus and what a node starts from.
  \<^item> \<open>BlockStore\<close>, \<open>StoreSafety\<close> (\<open>consensus/src/block_storage/block_store.rs\<close>,
    \<open>consensus/src/state_computer.rs\<close>, \<open>consensus/src/experimental/ordering_state_computer.rs\<close>): the block
    tree with its storage and its state computer, and what holds over every run of it. What is needed of a
    state computer is the interface locale \<open>commit_log\<close>, interpreted on the ordering state computer.
  \<^item> \<open>SyncManager\<close> (\<open>consensus/src/block_storage/sync_manager.rs\<close>, \<open>request_block\<close> of
    \<open>consensus/src/network.rs\<close>): how a validator that is behind fetches blocks and catches up.
  \<^item> \<open>ProposerElection\<close> (\<open>consensus/src/liveness/proposer_election.rs\<close> and its implementations): who leads a
    round.
  \<^item> \<open>RoundManager\<close> (\<open>consensus/src/round_manager.rs\<close>,
    \<open>consensus/src/liveness/proposal_generator.rs\<close>, \<open>consensus/src/metrics_safety_rules.rs\<close>,
    \<open>consensus/src/network.rs\<close>): the handlers of messages and timeouts that put the parts together.

  \<^bold>\<open>Conventions.\<close> A struct is a record with a field prefix, an enum a datatype. Arithmetic that is
  unchecked in the source wraps around, as in a release build; failing \<open>assert\<close>, \<open>expect\<close>,
  \<open>unwrap\<close> and checked arithmetic are the value \<open>Panic\<close> or \<open>None\<close>. Handlers pass their state along and
  keep what was changed before an error. Signature schemes, hash functions, the iteration order of
  hash containers and time are parameters. What is assumed of them is stated in
  each theorem: a batch of signatures verifies only if each one does, correct validators' keys are
  unforgeable, and the hashes of the data that occurs do not collide.

  \<^bold>\<open>What is shown.\<close> Votes: a validator signs at most one vote per round over all requests and
  restarts, what it has signed is persisted first, and persisted data never moves back. Agreement: while less than a
  third of the voting power is faulty, committed blocks lie on one chain, for both commit rules.
  Trust: accepted epoch change proofs lead to the same validator sets, accepted accumulator proofs
  tell the truth about the ledger up to collisions, and light clients agree on it. Liveness: a quorum
  of votes yields a certificate, a timer is always pending, rounds increase. Data: the block tree is
  well formed in every reachable state, its traversals end and are exact; the blocks handed
  to execution form one chain, and a restart finds the blocks above the committed one again. Catching up: block
  retrieval ends whatever the peers answer and returns a verified chain. Leaders: leader reputation elects a
  leader in every round and accepts one proposal of it. Loops are recursive functions with a termination measure
  or partial functions over \<open>option\<close>, so no fuel is used anywhere. Of the partial ones, those that follow links in the
  block tree and block retrieval are shown to return; \<open>fetch_pending\<close> follows parent links that peers supply
  and returns only if they reach a block of the store.

  \<^bold>\<open>Where the code departs from its intent.\<close> The quorum wraps for a total power of \<open>2^63\<close> or more; inclusion
  proofs ignore high bits of the index; safety rules without a cache cannot read their data; a second
  initialisation hides the persisted data; timeout certificates of earlier epochs are accepted;
  fast forward counts blocks by rounds and panics when a round has none. Each is a theorem.

  \<^bold>\<open>Not modelled.\<close> Networking, the database and its pruning and backup, state synchronisation, the executor and the
  Move virtual machine with its compiler, verifier and prover, JSON-RPC, client libraries, configuration, command line tools, logging
  and metrics. These are either input and output around third-party libraries or separate programs; where the
  model meets them they are parameters. Round durations are computed in floating point in the source and
  are a parameter of \<open>RoundState\<close>.
\<close>

end
